(* ===== verification/Prelude.thy ===== *)
theory Prelude
  imports Main "HOL-Library.Word"
begin

text \<open>
  Shared vocabulary of the development: Go's fixed-width integers with their wrap-around,
  the string operations of Go's standard library the gateway uses, and the generic list
  and option lemmas the component theories share.
\<close>

section \<open>Collections of the development\<close>

named_theorems go_int \<open>arithmetic of the 64-bit signed integers\<close>
named_theorems go_str \<open>prefix and split operations on byte strings\<close>

section \<open>64-bit signed integers\<close>

text \<open>
  Go's \<open>int\<close> (on the 64-bit platforms the gateway is built for) and \<open>int64\<close> are kept as
  \<open>int\<close> with the wrap-around written out after every operation that can overflow.
\<close>

definition min_int64 :: int where
  "min_int64 = - (2 ^ 63)"

definition max_int64 :: int where
  "max_int64 = 2 ^ 63 - 1"

definition in_int64 :: "int \<Rightarrow> bool" where
  "in_int64 n \<longleftrightarrow> min_int64 \<le> n \<and> n \<le> max_int64"

definition wrap64 :: "int \<Rightarrow> int" where
  "wrap64 n = (n + 2 ^ 63) mod 2 ^ 64 - 2 ^ 63"

lemma wrap64_id [go_int]: "in_int64 n \<Longrightarrow> wrap64 n = n"
  by (simp add: wrap64_def in_int64_def min_int64_def max_int64_def)

lemma in_int64_wrap64 [go_int, simp]: "in_int64 (wrap64 n)"
proof -
  have "0 \<le> (n + 2 ^ 63) mod 2 ^ 64" and "(n + 2 ^ 63) mod 2 ^ 64 < (2::int) ^ 64"
    by simp_all
  then show ?thesis
    by (simp add: wrap64_def in_int64_def min_int64_def max_int64_def)
qed

lemma wrap64_wrap64 [go_int, simp]: "wrap64 (wrap64 n) = wrap64 n"
  by (rule wrap64_id) simp

lemma wrap64_over: "max_int64 < n \<Longrightarrow> n \<le> 2 * max_int64 \<Longrightarrow> wrap64 n = n - 2 ^ 64"
proof -
  assume "max_int64 < n" "n \<le> 2 * max_int64"
  then have "(n - 2 ^ 63 + 2 ^ 64) mod 2 ^ 64 = n - 2 ^ 63"
    by (simp only: mod_add_self2) (simp add: max_int64_def)
  then show ?thesis by (simp add: wrap64_def add.commute)
qed

text \<open>The wrap-around is the one of two's complement words of 64 bits.\<close>

lemma wrap64_sint: "wrap64 n = sint (word_of_int n :: 64 word)"
  by (simp add: wrap64_def sint_sbintrunc' signed_take_bit_eq_take_bit_shift take_bit_eq_mod)

lemma in_int64_0 [simp]: "in_int64 0"
  by (simp add: in_int64_def min_int64_def max_int64_def)

lemma in_int64_small: "0 \<le> n \<Longrightarrow> n \<le> 2 ^ 62 \<Longrightarrow> in_int64 n"
  by (simp add: in_int64_def min_int64_def max_int64_def)

section \<open>Strings\<close>

text \<open>
  A Go string is a sequence of bytes, here \<open>string\<close>: \<open>len\<close> is \<open>length\<close>.
  \<open>has_prefix\<close> and \<open>contains_str\<close> are \<open>strings.HasPrefix\<close> and \<open>strings.Contains\<close>.
\<close>

fun has_prefix :: "string \<Rightarrow> string \<Rightarrow> bool" where
  "has_prefix s [] = True"
| "has_prefix [] (p # ps) = False"
| "has_prefix (c # cs) (p # ps) = (c = p \<and> has_prefix cs ps)"

lemma has_prefix_iff [go_str]: "has_prefix s p \<longleftrightarrow> (\<exists>t. s = p @ t)"
  by (induction s p rule: has_prefix.induct) auto

lemma has_prefix_append [simp]: "has_prefix (p @ t) p"
  by (auto simp: has_prefix_iff)

lemma has_prefix_length: "has_prefix s p \<Longrightarrow> length p \<le> length s"
  by (auto simp: has_prefix_iff)

text \<open>\<open>strings.TrimPrefix\<close>.\<close>

definition trim_prefix :: "string \<Rightarrow> string \<Rightarrow> string" where
  "trim_prefix s p = (if has_prefix s p then drop (length p) s else s)"

lemma trim_prefix_append [simp, go_str]: "trim_prefix (p @ t) p = t"
  by (simp add: trim_prefix_def)

fun contains_str :: "string \<Rightarrow> string \<Rightarrow> bool" where
  "contains_str [] sub = (sub = [])"
| "contains_str (c # cs) sub = (has_prefix (c # cs) sub \<or> contains_str cs sub)"

lemma contains_str_iff [go_str]: "contains_str s sub \<longleftrightarrow> (\<exists>u v. s = u @ sub @ v)"
proof (induction s)
  case Nil
  then show ?case by auto
next
  case (Cons c cs)
  have "(\<exists>u v. c # cs = u @ sub @ v) \<longleftrightarrow> (\<exists>v. c # cs = sub @ v) \<or> (\<exists>u v. cs = u @ sub @ v)"
    (is "?l \<longleftrightarrow> ?r")
  proof
    assume ?l
    then obtain u v where uv: "c # cs = u @ sub @ v" by blast
    then show ?r by (cases u) auto
  next
    assume ?r
    then show ?l by (metis append_Cons append_Nil)
  qed
  with Cons show ?case by (simp add: has_prefix_iff)
qed

text \<open>The verb \<open>%d\<close> of \<open>fmt\<close>, and \<open>strings.Join\<close>.\<close>

definition digit :: "nat \<Rightarrow> char" where
  "digit n = char_of (48 + n)"

fun decimal :: "nat \<Rightarrow> string" where
  "decimal n = (if n < 10 then [digit n] else decimal (n div 10) @ [digit (n mod 10)])"

declare decimal.simps [simp del]

definition decimal_int :: "int \<Rightarrow> string" where
  "decimal_int n = (if n < 0 then CHR ''-'' # decimal (nat (- n)) else decimal (nat n))"

fun join :: "string \<Rightarrow> string list \<Rightarrow> string" where
  "join sep [] = []"
| "join sep [x] = x"
| "join sep (x # y # xs) = x @ sep @ join sep (y # xs)"

section \<open>Lists and options\<close>

text \<open>The least index of a list that satisfies a predicate, as a loop with an early return finds it.\<close>

fun find_index :: "('a \<Rightarrow> bool) \<Rightarrow> 'a list \<Rightarrow> nat option" where
  "find_index P [] = None"
| "find_index P (x # xs) = (if P x then Some 0 else map_option Suc (find_index P xs))"

lemma find_index_None_iff: "find_index P xs = None \<longleftrightarrow> (\<forall>x\<in>set xs. \<not> P x)"
  by (induction xs) auto

lemma find_index_SomeD:
  "find_index P xs = Some i \<Longrightarrow> i < length xs \<and> P (xs ! i) \<and> (\<forall>j<i. \<not> P (xs ! j))"
proof (induction xs arbitrary: i)
  case Nil
  then show ?case by simp
next
  case (Cons x xs)
  then show ?case
    by (cases i) (auto split: if_splits simp: less_Suc_eq_0_disj)
qed

lemma fold_add_sum_list: "fold (\<lambda>x s. s + f x) xs (a :: 'a :: comm_monoid_add) = a + (\<Sum>x\<leftarrow>xs. f x)"
  by (induction xs arbitrary: a) (simp_all add: add.assoc)

end
