(* ===== verification/Floats.thy ===== *)
theory Floats
  imports Prelude "HOL-Library.Log_Nat"
begin

text \<open>
  The numbers of the program. Go's \<open>float64\<close> and Lua's \<open>number\<close> are IEEE 754 binary64:
  53 significant bits, round to nearest, ties to even. A value is kept as the rational it
  denotes and \<open>f64\<close> is applied after every operation. The script also turns numbers into
  text with \<open>tostring\<close>, which in Lua 5.1 prints \<open>%.14g\<close>: \<open>dec14\<close> is the rounding to the 14
  significant decimal digits of that text.

  The exponent range is not bounded: infinities, NaN and subnormal numbers do not occur for
  the token counts, prices, limits and Unix times of the gateway (all finite, of magnitude
  between \<open>1e-9\<close> and \<open>1e21\<close>, or zero).

  The theory defines the rounding once, for any base and number of digits, and proves
  monotonicity, symmetry, idempotence, exactness on short numbers and the relative error
  bound. The locale \<open>rounding\<close> states what the rest of the development uses of a rounding,
  and is interpreted on \<open>f64\<close> and on \<open>dec14\<close>.
\<close>

section \<open>Rounding to a number of significant digits\<close>

definition round_half_even :: "rat \<Rightarrow> int" where
  "round_half_even x =
     (let n = \<lfloor>x\<rfloor>; f = x - of_int n
      in if f < 1 / 2 then n else if f > 1 / 2 then n + 1 else if even n then n else n + 1)"

definition floor_log :: "nat \<Rightarrow> rat \<Rightarrow> int" where
  "floor_log b x =
     (if 1 \<le> x then int (floorlog b (nat \<lfloor>x\<rfloor>)) - 1
      else - int (floorlog b (nat (\<lceil>1 / x\<rceil> - 1))))"

definition round_sig :: "nat \<Rightarrow> nat \<Rightarrow> rat \<Rightarrow> rat" where
  "round_sig b p x =
     (if x = 0 then 0
      else let u = of_nat b powi (floor_log b \<bar>x\<bar> - int p + 1)
           in of_int (round_half_even (x / u)) * u)"

lemma round_half_even_err: "\<bar>of_int (round_half_even x) - x\<bar> \<le> 1 / 2"
  unfolding round_half_even_def Let_def by (simp add: abs_if) linarith

lemma round_half_even_of_int [simp]: "round_half_even (of_int n) = n"
  by (simp add: round_half_even_def)

lemma round_half_even_mono:
  assumes "x \<le> y" shows "round_half_even x \<le> round_half_even y"
proof (cases "\<lfloor>x\<rfloor> = \<lfloor>y\<rfloor>")
  case True
  then show ?thesis using assms by (auto simp: round_half_even_def Let_def)
next
  case False
  then have "\<lfloor>x\<rfloor> + 1 \<le> \<lfloor>y\<rfloor>" using floor_mono [OF assms] by linarith
  moreover have "round_half_even x \<le> \<lfloor>x\<rfloor> + 1" and "\<lfloor>y\<rfloor> \<le> round_half_even y"
    by (simp_all add: round_half_even_def Let_def)
  ultimately show ?thesis by linarith
qed

lemma round_half_even_le: "x \<le> of_int n \<Longrightarrow> round_half_even x \<le> n"
  using round_half_even_mono [of x "of_int n"] by simp

lemma round_half_even_ge: "of_int n \<le> x \<Longrightarrow> n \<le> round_half_even x"
  using round_half_even_mono [of "of_int n" x] by simp

lemma round_half_even_neg: "round_half_even (- x) = - round_half_even x"
proof (cases "of_int \<lfloor>x\<rfloor> = x")
  case True
  then show ?thesis by (metis of_int_minus round_half_even_of_int)
next
  case False
  then have fl: "\<lfloor>- x\<rfloor> = - \<lfloor>x\<rfloor> - 1" and lt: "of_int \<lfloor>x\<rfloor> < x"
    by linarith+
  have "x < of_int \<lfloor>x\<rfloor> + 1" by linarith
  with lt show ?thesis
    by (auto simp: round_half_even_def Let_def fl)
qed

lemma floor_log_bounds:
  assumes b: "1 < b" and x: "0 < x"
  shows "of_nat b powi floor_log b x \<le> x" and "x < of_nat b powi (floor_log b x + 1)"
proof -
  have "of_nat b powi floor_log b x \<le> x \<and> x < of_nat b powi (floor_log b x + 1)"
  proof (cases "1 \<le> x")
    case True
    define n where "n = nat \<lfloor>x\<rfloor>"
    have n: "0 < n" "of_nat n \<le> x" "x < of_nat n + 1"
    proof -
      have "(of_nat n :: rat) = of_int \<lfloor>x\<rfloor>" using True by (simp add: n_def)
      then show "of_nat n \<le> x" "x < of_nat n + 1" by linarith+
      show "0 < n" using True by (simp add: n_def)
    qed
    define k where "k = floorlog b n"
    have k: "b ^ (k - 1) \<le> n" "n < b ^ k"
      using floorlog_bounds [OF n(1) b] by (auto simp: k_def)
    have "0 < k" using k n by (cases k) auto
    have "n + 1 \<le> b ^ k" using k by simp
    then have "of_nat (n + 1) \<le> (of_nat (b ^ k) :: rat)" by (rule of_nat_mono)
    then have up: "x < of_nat b ^ k" using n by simp
    have "of_nat (b ^ (k - 1)) \<le> (of_nat n :: rat)" using k(1) by (rule of_nat_mono)
    then have lo: "of_nat b ^ (k - 1) \<le> x" using n unfolding of_nat_power by linarith
    have e: "floor_log b x = int (k - 1)" and e1: "floor_log b x + 1 = int k"
      using True \<open>0 < k\<close> by (simp_all add: floor_log_def k_def n_def)
    show ?thesis unfolding e1 unfolding e power_int_of_nat using up lo by blast
  next
    case False
    define m where "m = nat (\<lceil>1 / x\<rceil> - 1)"
    have inv: "1 < 1 / x" using False x by simp
    then have c: "1 < \<lceil>1 / x\<rceil>" by linarith
    from c have m: "0 < m" and mi: "int m = \<lceil>1 / x\<rceil> - 1"
      unfolding m_def by linarith+
    have mr: "(of_nat m :: rat) = of_int (\<lceil>1 / x\<rceil> - 1)" using mi by (metis of_int_of_nat_eq)
    have m2: "of_nat m < 1 / x" "1 / x \<le> of_nat m + 1"
      using mr by (simp_all) linarith+
    define k where "k = floorlog b m"
    have k: "b ^ (k - 1) \<le> m" "m < b ^ k"
      using floorlog_bounds [OF m b] by (auto simp: k_def)
    have "0 < k" using k m by (cases k) auto
    have "m + 1 \<le> b ^ k" using k by simp
    then have "of_nat (m + 1) \<le> (of_nat (b ^ k) :: rat)" by (rule of_nat_mono)
    then have up: "1 / x \<le> of_nat b ^ k" using m2 by simp
    have "of_nat (b ^ (k - 1)) \<le> (of_nat m :: rat)" using k by simp
    then have lo: "of_nat b ^ (k - 1) < 1 / x" using m2 unfolding of_nat_power by linarith
    have e: "floor_log b x = - int k" and e1: "floor_log b x + 1 = - int (k - 1)"
      using False \<open>0 < k\<close> by (simp_all add: floor_log_def m_def k_def)
    show ?thesis
      unfolding e1 unfolding e power_int_minus power_int_of_nat using up lo x b
      by (simp add: field_simps)
  qed
  then show "of_nat b powi floor_log b x \<le> x" and "x < of_nat b powi (floor_log b x + 1)"
    by blast+
qed

lemma powi_lt_cancel:
  assumes b: "1 < b" and "(of_nat b :: rat) powi i < of_nat b powi j" shows "i < j"
proof (rule ccontr)
  assume "\<not> i < j"
  then have "(of_nat b :: rat) powi j \<le> of_nat b powi i"
    using b by (intro power_int_increasing) auto
  with assms(2) show False by simp
qed

lemma floor_log_unique:
  assumes b: "1 < b" and "of_nat b powi e \<le> x" "x < of_nat b powi (e + 1)"
  shows "floor_log b x = e"
proof -
  have "0 < (of_nat b :: rat) powi e" using b by simp
  then have x: "0 < x" using assms(2) by (rule less_le_trans)
  note fb = floor_log_bounds [OF b x]
  have "floor_log b x < e + 1" using fb(1) assms(3) by (intro powi_lt_cancel [OF b]) simp
  moreover have "e < floor_log b x + 1" using fb(2) assms(2) by (intro powi_lt_cancel [OF b]) simp
  ultimately show ?thesis by simp
qed


lemma round_sig_0 [simp]: "round_sig b p 0 = 0"
  by (simp add: round_sig_def)

lemma round_sig_neg: "round_sig b p (- x) = - round_sig b p x"
  by (simp add: round_sig_def Let_def round_half_even_neg)

text \<open>
  A number with at most \<open>p\<close> digits in base \<open>b\<close>, at any scale, is left alone: this one fact
  gives the exactness on small integers and the idempotence.
\<close>

lemma round_sig_exact_pos:
  assumes b: "1 < b" and p: "0 < p" and m: "0 < m" "m \<le> int b ^ p"
  shows "round_sig b p (of_int m * of_nat b powi k) = of_int m * of_nat b powi k"
proof -
  define B where "B = (of_nat b :: rat)"
  have B: "1 < B" using b by (simp add: B_def)
  define x where "x = of_int m * B powi k"
  have x: "0 < x" using m B by (simp add: x_def)
  define e where "e = floor_log b x"
  note fb = floor_log_bounds [OF b x, folded e_def B_def]
  have mB: "of_int m \<le> B ^ p"
  proof -
    have "of_int m \<le> (of_int (int b ^ p) :: rat)" using m(2) by (simp only: of_int_le_iff)
    then show ?thesis by (simp add: B_def)
  qed
  define j where "j = e - int p + 1"
  have "\<exists>n. x / B powi j = of_int n"
  proof (cases "j \<le> k")
    case True
    have "B powi k / B powi j = B powi (k - j)" using B by (simp add: power_int_diff)
    also have "B powi (k - j) = B ^ nat (k - j)" using True by (simp add: power_int_def)
    finally have "x / B powi j = of_int m * B ^ nat (k - j)"
      unfolding x_def times_divide_eq_right [symmetric] by simp
    also have "\<dots> = of_int (m * int b ^ nat (k - j))" by (simp add: B_def)
    finally show ?thesis by blast
  next
    case False
    have "of_int m * B powi k \<le> B ^ p * B powi k"
      using mB B by (intro mult_right_mono) auto
    then have "B powi e \<le> B ^ p * B powi k" using fb(1) by (simp add: x_def)
    also have "\<dots> = B powi (k + int p)" using B by (simp add: power_int_add)
    also have "\<dots> < B powi (k + int p + 1)"
      using B by (intro power_int_strict_increasing) auto
    finally have "B powi e < B powi (k + int p + 1)" .
    then have "e < k + int p + 1" unfolding B_def by (rule powi_lt_cancel [OF b])
    with False have e: "e = k + int p" by (simp add: j_def)
    then have "B powi (k + int p) \<le> of_int m * B powi k" using fb(1) by (simp add: x_def)
    then have "B ^ p * B powi k \<le> of_int m * B powi k" using B by (simp add: power_int_add mult.commute)
    then have "B ^ p \<le> of_int m" using B by simp
    with mB have "of_int m = B ^ p" by simp
    then have "x = B powi (k + int p)" using B by (simp add: x_def power_int_add)
    moreover have "k + int p - j = int (p - 1)" using p by (simp add: j_def e)
    ultimately have "x / B powi j = B ^ (p - 1)" using B by (simp add: power_int_diff [symmetric])
    also have "\<dots> = of_int (int b ^ (p - 1))" by (simp add: B_def)
    finally show ?thesis by blast
  qed
  then obtain n where n: "x / B powi j = of_int n" by blast
  then have xn: "x = of_int n * B powi j" using B by (simp add: field_simps)
  have "round_sig b p x = of_int (round_half_even (x / B powi j)) * B powi j"
    using x by (simp add: round_sig_def Let_def e_def B_def j_def)
  then have "round_sig b p x = x" unfolding n by (simp flip: xn)
  then show ?thesis by (simp add: x_def B_def)
qed

lemma round_sig_exact:
  assumes "1 < b" "0 < p" "\<bar>m\<bar> \<le> int b ^ p"
  shows "round_sig b p (of_int m * of_nat b powi k) = of_int m * of_nat b powi k"
proof (cases m "0::int" rule: linorder_cases)
  case less
  then show ?thesis
    using round_sig_exact_pos [OF assms(1,2), of "- m" k] assms(3) by (simp add: round_sig_neg)
next
  case equal
  then show ?thesis by simp
next
  case greater
  then show ?thesis using assms by (intro round_sig_exact_pos) auto
qed

lemma round_sig_of_int:
  assumes "1 < b" "0 < p" "\<bar>m\<bar> \<le> int b ^ p"
  shows "round_sig b p (of_int m) = of_int m"
  using round_sig_exact [OF assms, of 0] by simp


lemma round_sig_in_binade:
  assumes b: "1 < b" and p: "0 < p" and x: "0 < x"
  defines "e \<equiv> floor_log b x"
  shows "of_nat b powi e \<le> round_sig b p x" and "round_sig b p x \<le> of_nat b powi (e + 1)"
proof -
  define B where "B = (of_nat b :: rat)"
  have B: "1 < B" using b by (simp add: B_def)
  define u where "u = B powi (e - int p + 1)"
  have u: "0 < u" using B by (simp add: u_def)
  have r: "round_sig b p x = of_int (round_half_even (x / u)) * u"
    using x by (simp add: round_sig_def Let_def u_def B_def e_def)
  note fb = floor_log_bounds [OF b x, folded e_def B_def]
  have lo: "B powi e = of_int (int b ^ (p - 1)) * u"
  proof -
    have "B powi e = B powi (int (p - 1) + (e - int p + 1))" using p by simp
    then show ?thesis using B by (subst (asm) power_int_add) (auto simp: u_def B_def)
  qed
  have hi: "B powi (e + 1) = of_int (int b ^ p) * u"
  proof -
    have "B powi (e + 1) = B powi (int p + (e - int p + 1))" by simp
    then show ?thesis using B by (subst (asm) power_int_add) (auto simp: u_def B_def)
  qed
  have "of_int (int b ^ (p - 1)) \<le> x / u" using fb(1) u unfolding lo by (simp add: pos_le_divide_eq)
  then have "int b ^ (p - 1) \<le> round_half_even (x / u)" by (rule round_half_even_ge)
  then show "of_nat b powi e \<le> round_sig b p x"
    using u unfolding r B_def [symmetric] lo by (intro mult_right_mono) (simp_all only: of_int_le_iff)
  have "x / u \<le> of_int (int b ^ p)" using fb(2) u unfolding hi by (simp add: pos_divide_le_eq)
  then have "round_half_even (x / u) \<le> int b ^ p" by (rule round_half_even_le)
  then show "round_sig b p x \<le> of_nat b powi (e + 1)"
    using u unfolding r B_def [symmetric] hi by (intro mult_right_mono) (simp_all only: of_int_le_iff)
qed

lemma round_sig_pos: "1 < b \<Longrightarrow> 0 < p \<Longrightarrow> 0 < x \<Longrightarrow> 0 < round_sig b p x"
  by (rule less_le_trans [OF _ round_sig_in_binade(1)]) simp_all

lemma round_sig_mono_pos:
  assumes b: "1 < b" and p: "0 < p" and x: "0 < x" "x \<le> y"
  shows "round_sig b p x \<le> round_sig b p y"
proof -
  have y: "0 < y" using x by simp
  note fx = floor_log_bounds [OF b x(1)] and fy = floor_log_bounds [OF b y]
  have "(of_nat b :: rat) powi floor_log b x < of_nat b powi (floor_log b y + 1)"
    using fx(1) fy(2) x(2) by linarith
  then have "floor_log b x < floor_log b y + 1" by (rule powi_lt_cancel [OF b])
  then consider "floor_log b x = floor_log b y" | "floor_log b x + 1 \<le> floor_log b y" by linarith
  then show ?thesis
  proof cases
    case 1
    define u where "u = (of_nat b :: rat) powi (floor_log b y - int p + 1)"
    have u: "0 < u" using b by (simp add: u_def)
    have "x / u \<le> y / u" using x(2) u by (simp add: divide_right_mono)
    then have "of_int (round_half_even (x / u)) * u \<le> of_int (round_half_even (y / u)) * u"
      using u by (intro mult_right_mono) (simp_all add: round_half_even_mono)
    then show ?thesis using x(1) y 1 by (simp add: round_sig_def Let_def u_def)
  next
    case 2
    have "round_sig b p x \<le> of_nat b powi (floor_log b x + 1)" by (rule round_sig_in_binade(2) [OF b p x(1)])
    also have "\<dots> \<le> of_nat b powi floor_log b y" using 2 b by (intro power_int_increasing) auto
    also have "\<dots> \<le> round_sig b p y" by (rule round_sig_in_binade(1) [OF b p y])
    finally show ?thesis .
  qed
qed

lemma round_sig_mono:
  assumes b: "1 < b" and p: "0 < p" and xy: "x \<le> y"
  shows "round_sig b p x \<le> round_sig b p y"
proof -
  consider "0 < x" | "x \<le> 0" "0 \<le> y" | "y < 0" using xy by linarith
  then show ?thesis
  proof cases
    case 1
    then show ?thesis using round_sig_mono_pos [OF b p _ xy] by blast
  next
    case 2
    have "0 \<le> round_sig b p y" using round_sig_pos [OF b p, of y] 2 by (cases "y = 0") auto
    moreover have "0 \<le> round_sig b p (- x)" using round_sig_pos [OF b p, of "- x"] 2 by (cases "x = 0") auto
    ultimately show ?thesis by (simp add: round_sig_neg)
  next
    case 3
    then show ?thesis using round_sig_mono_pos [OF b p, of "- y" "- x"] xy by (simp add: round_sig_neg)
  qed
qed

lemma round_sig_rel_err:
  assumes b: "1 < b" and p: "0 < p"
  shows "\<bar>round_sig b p x - x\<bar> \<le> of_nat b powi (1 - int p) / 2 * \<bar>x\<bar>"
proof (cases "x = 0")
  case True
  then show ?thesis by simp
next
  case False
  define u where "u = (of_nat b :: rat) powi (floor_log b \<bar>x\<bar> - int p + 1)"
  have u: "0 < u" using b by (simp add: u_def)
  have "round_sig b p x - x = (of_int (round_half_even (x / u)) - x / u) * u"
    using False u b by (simp add: round_sig_def Let_def u_def left_diff_distrib)
  then have "\<bar>round_sig b p x - x\<bar> = \<bar>of_int (round_half_even (x / u)) - x / u\<bar> * u"
    using u by (simp add: abs_mult)
  also have "\<dots> \<le> 1 / 2 * u" using u by (intro mult_right_mono round_half_even_err) simp
  also have "u = of_nat b powi (1 - int p) * of_nat b powi floor_log b \<bar>x\<bar>"
    using b unfolding u_def by (subst power_int_add [symmetric]) (auto simp: algebra_simps)
  also have "1 / 2 * \<dots> \<le> of_nat b powi (1 - int p) / 2 * \<bar>x\<bar>"
    using floor_log_bounds(1) [OF b, of "\<bar>x\<bar>"] False b by simp
  finally show ?thesis .
qed


section \<open>The rounding contract\<close>

locale rounding =
  fixes r :: "rat \<Rightarrow> rat"
  assumes r_mono: "x \<le> y \<Longrightarrow> r x \<le> r y"
    and r_neg: "r (- x) = - r x"
    and r_idem: "r (r x) = r x"
begin

lemma r_0: "r 0 = 0"
  using r_neg [of 0] by simp

lemma r_nonneg: "0 \<le> x \<Longrightarrow> 0 \<le> r x"
  using r_mono [of 0 x] r_0 by simp

lemma r_nonpos: "x \<le> 0 \<Longrightarrow> r x \<le> 0"
  using r_mono [of x 0] r_0 by simp

lemma r_sub_nonneg: "y \<le> x \<Longrightarrow> 0 \<le> r (x - y)"
  by (rule r_nonneg) simp

lemma r_le_fixed: "x \<le> y \<Longrightarrow> r y = y \<Longrightarrow> r x \<le> y"
  using r_mono [of x y] by simp

lemma r_ge_fixed: "y \<le> x \<Longrightarrow> r y = y \<Longrightarrow> y \<le> r x"
  using r_mono [of y x] by simp

end

locale rounding_bounded = rounding +
  fixes eps :: rat
  assumes r_err: "\<bar>r x - x\<bar> \<le> eps * \<bar>x\<bar>"
begin

lemma r_le_err: "0 \<le> x \<Longrightarrow> r x \<le> (1 + eps) * x"
  using r_err [of x] by (simp add: algebra_simps abs_if split: if_splits)

lemma r_ge_err: "0 \<le> x \<Longrightarrow> (1 - eps) * x \<le> r x"
  using r_err [of x] by (simp add: algebra_simps abs_if split: if_splits)

end

lemma rounding_round_sig:
  assumes b: "1 < b" and p: "0 < p"
  shows "rounding (round_sig b p)"
proof
  show "round_sig b p x \<le> round_sig b p y" if "x \<le> y" for x y
    by (rule round_sig_mono [OF b p that])
  show "round_sig b p (- x) = - round_sig b p x" for x
    by (rule round_sig_neg)
  show "round_sig b p (round_sig b p x) = round_sig b p x" for x
  proof (cases "x = 0")
    case True
    then show ?thesis by simp
  next
    case False
    define k where "k = floor_log b \<bar>x\<bar> - int p + 1"
    define u where "u = (of_nat b :: rat) powi k"
    have u: "0 < u" using b by (simp add: u_def)
    have r: "round_sig b p x = of_int (round_half_even (x / u)) * u"
      using False by (simp add: round_sig_def Let_def u_def k_def)
    have "\<bar>round_sig b p x\<bar> \<le> of_nat b powi (floor_log b \<bar>x\<bar> + 1)"
    proof (cases "0 < x")
      case True
      then show ?thesis
        using round_sig_in_binade(2) [OF b p True] round_sig_pos [OF b p True] by simp
    next
      case False
      with \<open>x \<noteq> 0\<close> have "0 < - x" by simp
      then show ?thesis
        using round_sig_in_binade(2) [OF b p, of "- x"] round_sig_pos [OF b p, of "- x"]
        by (simp add: round_sig_neg)
    qed
    also have "\<dots> = of_int (int b ^ p) * u"
    proof -
      have "(of_nat b :: rat) powi (floor_log b \<bar>x\<bar> + 1) = of_nat b powi (int p + k)"
        by (simp add: k_def)
      then show ?thesis using b by (subst (asm) power_int_add) (auto simp: u_def)
    qed
    finally have "\<bar>of_int (round_half_even (x / u))\<bar> * u \<le> of_int (int b ^ p) * u"
      using u unfolding r by (simp add: abs_mult)
    then have "\<bar>of_int (round_half_even (x / u))\<bar> \<le> (of_int (int b ^ p) :: rat)"
      using u by simp
    then have "\<bar>round_half_even (x / u)\<bar> \<le> int b ^ p"
      by (metis of_int_abs of_int_le_iff)
    then show ?thesis unfolding r u_def by (rule round_sig_exact [OF b p])
  qed
qed


named_theorems f64_eval \<open>evaluation of rounding on numerals\<close>

section \<open>float64 and the decimal text of a number\<close>

definition f64 :: "rat \<Rightarrow> rat" where
  "f64 = round_sig 2 53"

definition dec14 :: "rat \<Rightarrow> rat" where
  "dec14 = round_sig 10 14"

lemma rounding_f64: "rounding f64"
  unfolding f64_def by (rule rounding_round_sig) simp_all

lemma rounding_dec14: "rounding dec14"
  unfolding dec14_def by (rule rounding_round_sig) simp_all

interpretation f64: rounding_bounded f64 "1 / 2 ^ 53"
proof (intro rounding_bounded.intro rounding_f64 rounding_bounded_axioms.intro)
  show "\<bar>f64 x - x\<bar> \<le> 1 / 2 ^ 53 * \<bar>x\<bar>" for x
    using round_sig_rel_err [of 2 53 x] by (simp add: f64_def power_int_def power_divide)
qed

interpretation dec14: rounding_bounded dec14 "5 / 10 ^ 14"
proof (intro rounding_bounded.intro rounding_dec14 rounding_bounded_axioms.intro)
  show "\<bar>dec14 x - x\<bar> \<le> 5 / 10 ^ 14 * \<bar>x\<bar>" for x
    using round_sig_rel_err [of 10 14 x] by (simp add: dec14_def power_int_def power_divide)
qed

lemma f64_short_int: "\<bar>m\<bar> \<le> 2 ^ 53 \<Longrightarrow> f64 (of_int m) = of_int m"
  unfolding f64_def by (rule round_sig_of_int) simp_all

lemma dec14_of_int: "\<bar>m\<bar> \<le> 10 ^ 14 \<Longrightarrow> dec14 (of_int m) = of_int m"
  unfolding dec14_def by (rule round_sig_of_int) simp_all

lemma f64_numeral [simp]: "(numeral k :: int) \<le> 2 ^ 53 \<Longrightarrow> f64 (numeral k) = numeral k"
  using f64_short_int [of "numeral k"] by simp

lemma f64_01 [simp]: "f64 0 = 0" "f64 1 = 1"
  using f64_short_int [of 0] f64_short_int [of 1] by simp_all

lemma f64_minus [simp]: "f64 (- x) = - f64 x"
  by (rule f64.r_neg)

lemma dec14_numeral [simp]: "(numeral k :: int) \<le> 10 ^ 14 \<Longrightarrow> dec14 (numeral k) = numeral k"
  using dec14_of_int [of "numeral k"] by simp

lemma dec14_01 [simp]: "dec14 0 = 0" "dec14 1 = 1"
  using dec14_of_int [of 0] dec14_of_int [of 1] by simp_all

lemma dec14_minus [simp]: "dec14 (- x) = - dec14 x"
  by (rule dec14.r_neg)

text \<open>Evaluation of \<open>f64\<close> and \<open>dec14\<close> on numerals, for closed instances.\<close>

lemma floor_rat_numeral_div [f64_eval]:
  "\<lfloor>(numeral a :: rat) / numeral b\<rfloor> = numeral a div numeral b"
  "\<lfloor>(1 :: rat) / numeral b\<rfloor> = 1 div numeral b"
  using floor_divide_of_int_eq [of "numeral a" "numeral b", where 'a = rat]
    floor_divide_of_int_eq [of 1 "numeral b", where 'a = rat]
  by simp_all

lemma ceiling_rat_numeral_div [f64_eval]:
  "\<lceil>(numeral a :: rat) / numeral b\<rceil> = - (- numeral a div numeral b)"
  "\<lceil>(1 :: rat) / numeral b\<rceil> = - (- 1 div numeral b)"
  using ceiling_divide_eq_div [of "numeral a" "numeral b", where 'a = rat]
    ceiling_divide_eq_div [of 1 "numeral b", where 'a = rat]
  by simp_all

lemma floorlog_numeral [f64_eval]:
  "floorlog (numeral b) (numeral n) =
     (if (1::nat) < numeral b then Suc (floorlog (numeral b) (numeral n div numeral b)) else 0)"
  "floorlog (numeral b) (Suc 0) = (if (1::nat) < numeral b then 1 else 0)"
  "floorlog c 0 = 0"
proof -
  show "floorlog c 0 = 0" for c by (simp add: compute_floorlog [of _ 0])
  then show "floorlog (numeral b) (Suc 0) = (if (1::nat) < numeral b then 1 else 0)"
    by (simp add: compute_floorlog [of _ "Suc 0"])
qed (simp add: compute_floorlog [of _ "numeral n"])

lemmas f64_unfold [f64_eval] =
  f64_def dec14_def round_sig_def floor_log_def round_half_even_def
  power_int_def Let_def power_divide

section \<open>The operations of Go and Lua on these numbers\<close>

definition f64_add :: "rat \<Rightarrow> rat \<Rightarrow> rat" where
  "f64_add x y = f64 (x + y)"

definition f64_sub :: "rat \<Rightarrow> rat \<Rightarrow> rat" where
  "f64_sub x y = f64 (x - y)"

definition f64_mul :: "rat \<Rightarrow> rat \<Rightarrow> rat" where
  "f64_mul x y = f64 (x * y)"

definition f64_div :: "rat \<Rightarrow> rat \<Rightarrow> rat" where
  "f64_div x y = f64 (x / y)"

text \<open>Go's conversions \<open>float64(n)\<close> and \<open>int64(x)\<close>: the second one truncates towards zero; out
  of range its result is left to the processor, here amd64's, the least integer.\<close>

definition f64_of_int :: "int \<Rightarrow> rat" where
  "f64_of_int n = f64 (of_int n)"

definition trunc_rat :: "rat \<Rightarrow> int" where
  "trunc_rat x = (if x < 0 then - \<lfloor>- x\<rfloor> else \<lfloor>x\<rfloor>)"

definition int64_of_f64 :: "rat \<Rightarrow> int" where
  "int64_of_f64 x = (let n = trunc_rat x in if in_int64 n then n else min_int64)"

lemmas f64_ops = f64_add_def f64_sub_def f64_mul_def f64_div_def f64_of_int_def

lemma f64_of_int_exact [simp]: "\<bar>n\<bar> \<le> 2 ^ 53 \<Longrightarrow> f64_of_int n = of_int n"
  by (simp add: f64_of_int_def f64_short_int)

lemma f64_of_int_mono: "m \<le> n \<Longrightarrow> f64_of_int m \<le> f64_of_int n"
  by (simp add: f64_of_int_def f64.r_mono)

lemma f64_of_int_nonneg: "0 \<le> n \<Longrightarrow> 0 \<le> f64_of_int n"
  by (simp add: f64_of_int_def f64.r_nonneg)

lemma f64_of_int_neg_iff: "f64_of_int n < 0 \<longleftrightarrow> n < 0"
proof
  assume "f64_of_int n < 0"
  then show "n < 0" using f64_of_int_nonneg [of n] by linarith
next
  assume "n < 0"
  then have "f64_of_int n \<le> f64_of_int (- 1)" by (intro f64_of_int_mono) simp
  also have "f64_of_int (- 1) = - 1" using f64_of_int_exact [of "- 1"] by simp
  finally show "f64_of_int n < 0" by simp
qed

lemma f64_of_int_f64 [simp]: "f64 (f64_of_int n) = f64_of_int n"
  by (simp add: f64_of_int_def f64.r_idem)

lemma trunc_rat_of_int [simp]: "trunc_rat (of_int n) = n"
  by (simp add: trunc_rat_def flip: of_int_minus)

lemma trunc_rat_nonneg: "0 \<le> x \<Longrightarrow> of_int (trunc_rat x) \<le> x \<and> x < of_int (trunc_rat x) + 1"
  by (simp add: trunc_rat_def) linarith

lemma trunc_rat_lower_unit: "0 \<le> x \<Longrightarrow> x < 1 \<Longrightarrow> trunc_rat x = 0"
  by (simp add: trunc_rat_def floor_eq_iff)

end
