(* ===== verification/Scopes.thy ===== *)
theory Scopes
  imports Floats
begin

text \<open>
  The vocabulary of \<open>gateway/internal/budget/bucket.go\<close> that the policy engine shares with
  the enforcer: scopes, reject reasons, limits, bucket references, decisions and the
  canonical Redis key of a bucket. The lemmas give the exact condition under which two
  buckets share a key.
\<close>

datatype scope = NoScope | ScopeTask | ScopeAgent | ScopeTenant

text \<open>The order of the declarations in the code, most specific first.\<close>

fun breadth :: "scope \<Rightarrow> nat" where
  "breadth NoScope = 0"
| "breadth ScopeTask = 1"
| "breadth ScopeAgent = 2"
| "breadth ScopeTenant = 3"

instantiation scope :: linorder
begin

definition less_eq_scope :: "scope \<Rightarrow> scope \<Rightarrow> bool" where
  "less_eq_scope s s' \<longleftrightarrow> breadth s \<le> breadth s'"

definition less_scope :: "scope \<Rightarrow> scope \<Rightarrow> bool" where
  "less_scope s s' \<longleftrightarrow> breadth s < breadth s'"

instance
proof
  fix s s' :: scope
  show "s \<le> s' \<Longrightarrow> s' \<le> s \<Longrightarrow> s = s'" by (cases s; cases s') (simp_all add: less_eq_scope_def)
qed (auto simp: less_eq_scope_def less_scope_def)

end

datatype reject_reason =
  ReasonNone | ReasonOverTaskBudget | ReasonOverAgentBudget | ReasonOverTenantBudget | ReasonInvalidRequest

text \<open>The map \<open>scopeReason\<close>: a missing scope reads as the empty reason.\<close>

fun scopeReason :: "scope \<Rightarrow> reject_reason" where
  "scopeReason ScopeTask = ReasonOverTaskBudget"
| "scopeReason ScopeAgent = ReasonOverAgentBudget"
| "scopeReason ScopeTenant = ReasonOverTenantBudget"
| "scopeReason NoScope = ReasonNone"

fun scope_string :: "scope \<Rightarrow> string" where
  "scope_string ScopeTask = ''task''"
| "scope_string ScopeAgent = ''agent''"
| "scope_string ScopeTenant = ''tenant''"
| "scope_string NoScope = []"

fun reason_string :: "reject_reason \<Rightarrow> string" where
  "reason_string ReasonNone = []"
| "reason_string ReasonOverTaskBudget = ''over_task_budget''"
| "reason_string ReasonOverAgentBudget = ''over_agent_budget''"
| "reason_string ReasonOverTenantBudget = ''over_tenant_budget''"
| "reason_string ReasonInvalidRequest = ''invalid_request''"

record limits =
  TokenLimit :: int
  DollarLimit :: rat
  RefillTokensPerSec :: rat
  RefillUSDPerSec :: rat

text \<open>Go's zero value of \<open>Limits\<close>.\<close>

definition zero_limits :: limits where
  "zero_limits = \<lparr>TokenLimit = 0, DollarLimit = 0, RefillTokensPerSec = 0, RefillUSDPerSec = 0\<rparr>"

record bucket_ref =
  Scope :: scope
  RefKey :: string
  Limits :: limits

record decision =
  Allowed :: bool
  Reason :: reject_reason
  FailedScope :: scope
  RemainingTokens :: rat
  RemainingUSD :: rat

definition zero_decision :: decision where
  "zero_decision = \<lparr>Allowed = False, Reason = ReasonNone, FailedScope = NoScope,
                    RemainingTokens = 0, RemainingUSD = 0\<rparr>"

definition Key :: "string \<Rightarrow> string \<Rightarrow> string \<Rightarrow> scope \<Rightarrow> string" where
  "Key tenantID agentID taskID scope =
     (case scope of
        ScopeTask \<Rightarrow> ''budget:'' @ tenantID @ '':'' @ agentID @ '':'' @ taskID
      | ScopeAgent \<Rightarrow> ''budget:'' @ tenantID @ '':'' @ agentID @ '':-''
      | _ \<Rightarrow> ''budget:'' @ tenantID @ '':-:-'')"

lemma scopeReason_eq_None_iff [simp]: "scopeReason s = ReasonNone \<longleftrightarrow> s = NoScope"
  by (cases s) simp_all

lemma reason_string_inject: "reason_string r = reason_string r' \<longleftrightarrow> r = r'"
  by (cases r; cases r'; simp)

lemma reason_string_eq_Nil_iff [simp]: "reason_string r = [] \<longleftrightarrow> r = ReasonNone"
  by (cases r) simp_all

section \<open>Which buckets share a key\<close>

text \<open>The agent and task part of a bucket's key, with \<open>-\<close> for a level that does not apply.\<close>

definition key_agent :: "string \<Rightarrow> scope \<Rightarrow> string" where
  "key_agent a s = (if s = ScopeTask \<or> s = ScopeAgent then a else ''-'')"

definition key_task :: "string \<Rightarrow> scope \<Rightarrow> string" where
  "key_task k s = (if s = ScopeTask then k else ''-'')"

lemma Key_alt: "Key t a k s = ''budget:'' @ t @ '':'' @ key_agent a s @ '':'' @ key_task k s"
  by (cases s) (simp_all add: Key_def key_agent_def key_task_def)

lemma colon_split:
  assumes "CHR '':'' \<notin> set xs" "CHR '':'' \<notin> set xs'"
    and "xs @ CHR '':'' # ys = xs' @ CHR '':'' # ys'"
  shows "xs = xs' \<and> ys = ys'"
  using assms
proof (induction xs arbitrary: xs')
  case Nil
  then show ?case by (cases xs') auto
next
  case (Cons x xs)
  then show ?case by (cases xs') auto
qed

text \<open>An identifier without a colon; the control plane issues only such identifiers.\<close>

definition plain_id :: "string \<Rightarrow> bool" where
  "plain_id s \<longleftrightarrow> CHR '':'' \<notin> set s"

lemma Key_eq_iff:
  assumes "plain_id t" "plain_id t'" "plain_id a" "plain_id a'"
  shows "Key t a k s = Key t' a' k' s' \<longleftrightarrow>
    t = t' \<and> key_agent a s = key_agent a' s' \<and> key_task k s = key_task k' s'"
proof
  assume "Key t a k s = Key t' a' k' s'"
  then have "t @ CHR '':'' # (key_agent a s @ CHR '':'' # key_task k s) =
             t' @ CHR '':'' # (key_agent a' s' @ CHR '':'' # key_task k' s')"
    by (simp add: Key_alt)
  then have t: "t = t'" and
    rest: "key_agent a s @ CHR '':'' # key_task k s = key_agent a' s' @ CHR '':'' # key_task k' s'"
    using colon_split assms(1,2) unfolding plain_id_def by blast+
  have "CHR '':'' \<notin> set (key_agent a s)" "CHR '':'' \<notin> set (key_agent a' s')"
    using assms(3,4) by (auto simp: plain_id_def key_agent_def)
  with rest t show "t = t' \<and> key_agent a s = key_agent a' s' \<and> key_task k s = key_task k' s'"
    using colon_split by blast
qed (simp add: Key_alt)

end
