(* ===== verification/ConfigCache.thy ===== *)
theory ConfigCache
  imports Scopes
begin

text \<open>
  The budget configuration cache of \<open>gateway/internal/budget/configcache.go\<close>: the rows of the
  \<open>budgets\<close> table, the limits a row stands for, \<open>Refresh\<close>, \<open>Seed\<close>, the refresh loop and
  \<open>Resolve\<close>. What Postgres answers to the query is an input. The lock around \<open>data\<close> makes each
  operation one step; the logger is not modelled. A nil map reads as an empty one.
\<close>

section \<open>State and operations\<close>

record row =
  TenantID :: string
  AgentID :: "string option"
  TaskID :: "string option"
  RowTokenLimit :: "int option"
  RowDollarLimit :: "rat option"
  RefillPerMinute :: "rat option"

record configKey =
  KeyTenant :: string
  KeyAgent :: string
  KeyTask :: string

record config_cache =
  data :: "configKey \<rightharpoonup> limits"

definition NewConfigCache :: config_cache where
  "NewConfigCache = \<lparr>data = Map.empty\<rparr>"

text \<open>The answer of the database: the query fails, or rows arrive, each of which may fail to scan,
  and the iteration may end with an error.\<close>

datatype query_result = QueryError string | Rows "(string + row) list" "string option"

definition row_key :: "row \<Rightarrow> configKey" where
  "row_key r =
     \<lparr>KeyTenant = TenantID r,
      KeyAgent = (case AgentID r of Some a \<Rightarrow> a | None \<Rightarrow> []),
      KeyTask = (case TaskID r of Some k \<Rightarrow> k | None \<Rightarrow> [])\<rparr>"

definition row_limits :: "row \<Rightarrow> limits" where
  "row_limits r =
     (let refillPerSec = (case RefillPerMinute r of Some x \<Rightarrow> f64_div x 60 | None \<Rightarrow> 0);
          limits = zero_limits;
          limits = (case RowTokenLimit r of
                      Some n \<Rightarrow> limits\<lparr>TokenLimit := n, RefillTokensPerSec := refillPerSec\<rparr>
                    | None \<Rightarrow> limits)
      in case RowDollarLimit r of
           None \<Rightarrow> limits
         | Some d \<Rightarrow>
             (let limits = limits\<lparr>DollarLimit := d\<rparr>
              in case RowTokenLimit r of
                   Some n \<Rightarrow>
                     (if n > 0 then limits\<lparr>RefillUSDPerSec := f64_mul refillPerSec (f64_div d (f64_of_int n))\<rparr>
                      else limits\<lparr>RefillUSDPerSec := f64_div d 60\<rparr>)
                 | None \<Rightarrow> limits\<lparr>RefillUSDPerSec := f64_div d 60\<rparr>))"

fun scan_rows :: "(string + row) list \<Rightarrow> (configKey \<rightharpoonup> limits) \<Rightarrow> string + (configKey \<rightharpoonup> limits)" where
  "scan_rows [] m = Inr m"
| "scan_rows (Inl err # rows) m = Inl err"
| "scan_rows (Inr r # rows) m = scan_rows rows (m(row_key r \<mapsto> row_limits r))"

definition Refresh :: "query_result \<Rightarrow> config_cache \<Rightarrow> string option \<times> config_cache" where
  "Refresh q c =
     (case q of
        QueryError err \<Rightarrow> (Some err, c)
      | Rows rows rows_err \<Rightarrow>
          (case scan_rows rows Map.empty of
             Inl err \<Rightarrow> (Some err, c)
           | Inr m \<Rightarrow> (case rows_err of Some err \<Rightarrow> (Some err, c) | None \<Rightarrow> (None, c\<lparr>data := m\<rparr>))))"

text \<open>The loop consumes the events its \<open>select\<close> picks, up to the cancellation.\<close>

datatype loop_event = Tick query_result | Cancelled

fun RunRefreshLoop :: "loop_event list \<Rightarrow> config_cache \<Rightarrow> config_cache" where
  "RunRefreshLoop [] c = c"
| "RunRefreshLoop (Cancelled # evs) c = c"
| "RunRefreshLoop (Tick q # evs) c = RunRefreshLoop evs (snd (Refresh q c))"

definition Seed :: "string \<Rightarrow> string \<Rightarrow> string \<Rightarrow> limits \<Rightarrow> config_cache \<Rightarrow> config_cache" where
  "Seed tenantID agentID taskID l c =
     c\<lparr>data := (data c)(\<lparr>KeyTenant = tenantID, KeyAgent = agentID, KeyTask = taskID\<rparr> \<mapsto> l)\<rparr>"

definition Resolve :: "config_cache \<Rightarrow> string \<Rightarrow> string \<Rightarrow> string \<Rightarrow> bucket_ref list" where
  "Resolve c tenantID agentID taskID =
     (let refs = [];
          refs = (if taskID \<noteq> [] then
                    (case data c \<lparr>KeyTenant = tenantID, KeyAgent = agentID, KeyTask = taskID\<rparr> of
                       Some l \<Rightarrow> refs @ [\<lparr>Scope = ScopeTask, RefKey = Key tenantID agentID taskID ScopeTask, Limits = l\<rparr>]
                     | None \<Rightarrow> refs)
                  else refs);
          refs = (if agentID \<noteq> [] then
                    (case data c \<lparr>KeyTenant = tenantID, KeyAgent = agentID, KeyTask = []\<rparr> of
                       Some l \<Rightarrow> refs @ [\<lparr>Scope = ScopeAgent, RefKey = Key tenantID agentID [] ScopeAgent, Limits = l\<rparr>]
                     | None \<Rightarrow> refs)
                  else refs)
      in case data c \<lparr>KeyTenant = tenantID, KeyAgent = [], KeyTask = []\<rparr> of
           Some l \<Rightarrow> refs @ [\<lparr>Scope = ScopeTenant, RefKey = Key tenantID [] [] ScopeTenant, Limits = l\<rparr>]
         | None \<Rightarrow> refs)"

section \<open>Resolution\<close>

text \<open>The reference of one scope, if it applies and has a budget.\<close>

definition scope_ref :: "config_cache \<Rightarrow> string \<Rightarrow> string \<Rightarrow> string \<Rightarrow> scope \<Rightarrow> bucket_ref option" where
  "scope_ref c t a k s =
     (case s of
        ScopeTask \<Rightarrow>
          if k = [] then None
          else map_option (\<lambda>l. \<lparr>Scope = s, RefKey = Key t a k s, Limits = l\<rparr>)
                 (data c \<lparr>KeyTenant = t, KeyAgent = a, KeyTask = k\<rparr>)
      | ScopeAgent \<Rightarrow>
          if a = [] then None
          else map_option (\<lambda>l. \<lparr>Scope = s, RefKey = Key t a [] s, Limits = l\<rparr>)
                 (data c \<lparr>KeyTenant = t, KeyAgent = a, KeyTask = []\<rparr>)
      | _ \<Rightarrow> map_option (\<lambda>l. \<lparr>Scope = ScopeTenant, RefKey = Key t [] [] ScopeTenant, Limits = l\<rparr>)
               (data c \<lparr>KeyTenant = t, KeyAgent = [], KeyTask = []\<rparr>))"

lemma Resolve_eq:
  "Resolve c t a k = List.map_filter (scope_ref c t a k) [ScopeTask, ScopeAgent, ScopeTenant]"
  by (simp add: Resolve_def scope_ref_def List.map_filter_simps Let_def split: option.split)

lemma scope_ref_Some:
  "scope_ref c t a k s = Some r \<Longrightarrow> s \<noteq> NoScope \<Longrightarrow> Scope r = s \<and>
     RefKey r = Key t (if s = ScopeTenant then [] else a) (if s = ScopeTask then k else []) s"
  by (cases s) (auto simp: scope_ref_def split: if_splits)

lemma Resolve_scopes: "map Scope (Resolve c t a k) = filter (\<lambda>s. scope_ref c t a k s \<noteq> None) [ScopeTask, ScopeAgent, ScopeTenant]"
  using scope_ref_Some [of c t a k ScopeTask] scope_ref_Some [of c t a k ScopeAgent] scope_ref_Some [of c t a k ScopeTenant]
  by (auto simp: Resolve_eq List.map_filter_simps split: option.split)

lemma Resolve_sorted: "sorted_wrt (<) (map Scope (Resolve c t a k))"
  unfolding Resolve_scopes by (rule sorted_wrt_filter) (simp add: less_scope_def)

lemma Resolve_mem:
  "r \<in> set (Resolve c t a k) \<longleftrightarrow> (\<exists>s. s \<noteq> NoScope \<and> scope_ref c t a k s = Some r)"
proof -
  have "set (List.map_filter f xs) = {y. \<exists>x\<in>set xs. f x = Some y}" for f :: "scope \<Rightarrow> bucket_ref option" and xs
    by (force simp: List.map_filter_def image_iff)
  then have "set (Resolve c t a k) = {r. \<exists>s\<in>set [ScopeTask, ScopeAgent, ScopeTenant]. scope_ref c t a k s = Some r}"
    unfolding Resolve_eq by blast
  then have "r \<in> set (Resolve c t a k) \<longleftrightarrow> (\<exists>s\<in>{ScopeTask, ScopeAgent, ScopeTenant}. scope_ref c t a k s = Some r)"
    by simp
  moreover have "s \<in> {ScopeTask, ScopeAgent, ScopeTenant} \<longleftrightarrow> s \<noteq> NoScope" for s by (cases s) simp_all
  ultimately show ?thesis unfolding Bex_def by (simp only:)
qed

lemma Resolve_keys_distinct:
  assumes "a \<noteq> ''-''" "k \<noteq> ''-''"
  shows "distinct (map RefKey (Resolve c t a k))"
proof -
  have "a @ CHR '':'' # k \<noteq> ''-:-''"
    using assms by (cases a) (auto simp: Cons_eq_append_conv append_eq_Cons_conv)
  with assms show ?thesis
    by (auto simp: Resolve_def Key_def Let_def split: option.split)
qed

section \<open>Refresh\<close>

lemma scan_rows_append: "scan_rows (xs @ ys) m = (case scan_rows xs m of Inl e \<Rightarrow> Inl e | Inr m' \<Rightarrow> scan_rows ys m')"
proof (induction xs m rule: scan_rows.induct)
  case (3 r rows m)
  then show ?case unfolding append_Cons scan_rows.simps .
qed simp_all

text \<open>The last row of a key decides; the others of that key have no effect.\<close>

definition last_row :: "row list \<Rightarrow> configKey \<Rightarrow> row option" where
  "last_row rows key = List.find (\<lambda>r. row_key r = key) (rev rows)"

lemma scan_rows_map:
  "scan_rows (map Inr rows) m = Inr (\<lambda>key. case last_row rows key of Some r \<Rightarrow> Some (row_limits r) | None \<Rightarrow> m key)"
proof (induction rows rule: rev_induct)
  case (snoc r rows)
  then show ?case by (auto simp: scan_rows_append last_row_def fun_eq_iff)
qed (simp add: last_row_def)

lemma scan_rows_InrD: "scan_rows xs m = Inr m' \<Longrightarrow> \<exists>rows. xs = map Inr rows"
proof (induction xs m rule: scan_rows.induct)
  case (3 r rows m)
  from 3(1) [OF 3(2) [unfolded scan_rows.simps]] obtain rs where "rows = map Inr rs" by blast
  then show ?case by (intro exI [of _ "r # rs"]) simp
qed auto

lemma Refresh_cases:
  obtains (Failed) err where "Refresh q c = (Some err, c)" "\<nexists>rows. q = Rows (map Inr rows) None"
  | (Loaded) rows where "q = Rows (map Inr rows) None"
      "Refresh q c = (None, c\<lparr>data := (\<lambda>key. map_option row_limits (last_row rows key))\<rparr>)"
proof (cases q)
  case (QueryError err)
  then show ?thesis by (intro Failed) (auto simp: Refresh_def)
next
  case (Rows xs rows_err)
  show ?thesis
  proof (cases "\<exists>rows. q = Rows (map Inr rows) None")
    case True
    then obtain rows where q: "q = Rows (map Inr rows) None" by blast
    have "scan_rows (map Inr rows) Map.empty = Inr (\<lambda>key. map_option row_limits (last_row rows key))"
      by (auto simp: scan_rows_map fun_eq_iff split: option.split)
    with q show ?thesis by (intro Loaded) (simp_all add: Refresh_def)
  next
    case False
    then have "\<exists>err. Refresh q c = (Some err, c)"
      using scan_rows_InrD [of xs Map.empty] Rows by (auto simp: Refresh_def split: sum.split option.split)
    with False that(1) show ?thesis by blast
  qed
qed

text \<open>The rows a query delivers when it succeeds as a whole.\<close>

fun loaded_rows :: "query_result \<Rightarrow> row list option" where
  "loaded_rows (Rows xs None) = (if list_ex isl xs then None else Some (map projr xs))"
| "loaded_rows _ = None"

definition cache_of :: "row list \<Rightarrow> configKey \<rightharpoonup> limits" where
  "cache_of rows = (\<lambda>key. map_option row_limits (last_row rows key))"

lemma loaded_rows_Some: "loaded_rows q = Some rows \<longleftrightarrow> q = Rows (map Inr rows) None"
proof
  assume "loaded_rows q = Some rows"
  then obtain xs where xs: "q = Rows xs None" "\<not> list_ex isl xs" "rows = map projr xs"
    by (cases q rule: loaded_rows.cases) (auto split: if_splits)
  have "map Inr (map projr xs) = xs" using xs(2) by (induction xs) auto
  with xs show "q = Rows (map Inr rows) None" by simp
next
  have "\<not> list_ex isl (map Inr rows :: (string + row) list)" "map projr (map Inr rows :: (string + row) list) = rows"
    by (induction rows) simp_all
  then show "q = Rows (map Inr rows) None \<Longrightarrow> loaded_rows q = Some rows" by simp
qed

lemma Refresh_data:
  "data (snd (Refresh q c)) = (case loaded_rows q of Some rows \<Rightarrow> cache_of rows | None \<Rightarrow> data c)"
proof (cases rule: Refresh_cases [of q c])
  case (Failed err)
  then have "loaded_rows q = None" using loaded_rows_Some [of q] by (cases "loaded_rows q") auto
  with Failed show ?thesis by simp
next
  case (Loaded rows)
  then have "loaded_rows q = Some rows" by (simp only: loaded_rows_Some)
  with Loaded(2) show ?thesis by (simp add: cache_of_def)
qed

text \<open>The rows of the last reload before the cancellation that succeeded.\<close>

fun last_good :: "loop_event list \<Rightarrow> row list option" where
  "last_good [] = None"
| "last_good (Cancelled # evs) = None"
| "last_good (Tick q # evs) = (case last_good evs of Some rows \<Rightarrow> Some rows | None \<Rightarrow> loaded_rows q)"

lemma RunRefreshLoop_data:
  "data (RunRefreshLoop evs c) = (case last_good evs of Some rows \<Rightarrow> cache_of rows | None \<Rightarrow> data c)"
proof (induction evs c rule: RunRefreshLoop.induct)
  case (3 q evs c)
  then show ?case by (auto simp: Refresh_data split: option.split)
qed simp_all

section \<open>Properties\<close>

text \<open>C20: the buckets of a request. \<open>Resolve\<close> returns exactly the buckets of the request's task,
  agent and tenant that have a budget, most specific first, with the cached limits. As long as
  neither identifier is a bare dash, their Redis keys are pairwise different, as the atomic
  script needs them.\<close>

theorem Resolve_buckets:
  assumes "a \<noteq> ''-''" "k \<noteq> ''-''"
  shows "map Scope (Resolve c t a k) = filter (\<lambda>s. scope_ref c t a k s \<noteq> None) [ScopeTask, ScopeAgent, ScopeTenant] \<and>
    sorted_wrt (<) (map Scope (Resolve c t a k)) \<and>
    (\<forall>r. r \<in> set (Resolve c t a k) \<longleftrightarrow> (\<exists>s. s \<noteq> NoScope \<and> scope_ref c t a k s = Some r)) \<and>
    distinct (map RefKey (Resolve c t a k))"
  using Resolve_sorted Resolve_scopes Resolve_mem Resolve_keys_distinct [OF assms] by blast

lemma Resolve_buckets_witness:
  "map Scope (Resolve (Seed ''t'' [] [] zero_limits (Seed ''t'' ''a'' ''k'' zero_limits NewConfigCache)) ''t'' ''a'' ''k'')
     = [ScopeTask, ScopeTenant] \<and>
   distinct (map RefKey (Resolve (Seed ''t'' [] [] zero_limits (Seed ''t'' ''a'' ''k'' zero_limits NewConfigCache)) ''t'' ''a'' ''k''))"
  using Resolve_buckets [of "''a''" "''k''" "Seed ''t'' [] [] zero_limits (Seed ''t'' ''a'' ''k'' zero_limits NewConfigCache)" "''t''"]
  by (simp add: scope_ref_def Seed_def NewConfigCache_def)

text \<open>C21: tenants do not share buckets. Two requests of different tenants never resolve to a common
  Redis key, when tenant and agent identifiers contain no colon.\<close>

theorem Resolve_tenant_isolation:
  assumes "t \<noteq> t'" "plain_id t" "plain_id t'" "plain_id a" "plain_id a'"
  shows "RefKey ` set (Resolve c t a k) \<inter> RefKey ` set (Resolve c' t' a' k') = {}"
proof -
  have "\<exists>a1 k1 s. RefKey r = Key t a1 k1 s \<and> plain_id a1" if "r \<in> set (Resolve c t a k)" "plain_id a" for r c t a k
    using that scope_ref_Some [of c t a k _ r] by (fastforce simp: Resolve_mem plain_id_def)
  from this [OF _ assms(4), of _ c t k] this [OF _ assms(5), of _ c' t' k'] show ?thesis
    using Key_eq_iff [OF assms(2,3)] assms(1) by (fastforce simp: disjoint_iff)
qed

lemma Resolve_tenant_isolation_witness:
  "RefKey ` set (Resolve (Seed ''t1'' [] [] zero_limits NewConfigCache) ''t1'' ''a'' [])
   \<inter> RefKey ` set (Resolve (Seed ''t2'' [] [] zero_limits NewConfigCache) ''t2'' ''a'' []) = {}"
  by (rule Resolve_tenant_isolation) (simp_all add: plain_id_def)

text \<open>C24: the cache keeps the last known good configuration. Whatever the reloads of the refresh
  loop meet (failing queries, failing rows, errors at the end), the cache holds the rows of the
  last reload that succeeded as a whole before the loop was cancelled, or what it held before the
  loop if none did; within one reload the last row of a key counts.\<close>

theorem RunRefreshLoop_last_known_good:
  "data (RunRefreshLoop evs c) =
     (case last_good evs of Some rows \<Rightarrow> (\<lambda>key. map_option row_limits (last_row rows key)) | None \<Rightarrow> data c)"
  by (simp add: RunRefreshLoop_data cache_of_def cong: option.case_cong)

text \<open>The refill rate of a dollar budget without a token limit is not the configured one. Such a
  row refills a sixtieth of its dollar limit per second, the whole limit every minute, whatever
  its \<open>refill_rate_per_min\<close> says, also when it says 0.\<close>

theorem dollar_only_refill_ignores_rate:
  assumes "RowTokenLimit r = None" "RowDollarLimit r = Some d"
  shows "row_limits (r\<lparr>RefillPerMinute := rate\<rparr>) =
    \<lparr>TokenLimit = 0, DollarLimit = d, RefillTokensPerSec = 0, RefillUSDPerSec = f64_div d 60\<rparr>"
  using assms by (simp add: row_limits_def zero_limits_def Let_def)

lemma dollar_only_refill_ignores_rate_witness:
  "row_limits \<lparr>TenantID = ''t'', AgentID = None, TaskID = None, RowTokenLimit = None, RowDollarLimit = Some 60,
     RefillPerMinute = Some 0\<rparr> =
   \<lparr>TokenLimit = 0, DollarLimit = 60, RefillTokensPerSec = 0, RefillUSDPerSec = 1\<rparr>"
  using dollar_only_refill_ignores_rate [of "\<lparr>TenantID = ''t'', AgentID = None, TaskID = None, RowTokenLimit = None,
     RowDollarLimit = Some 60, RefillPerMinute = Some 0\<rparr>" 60 "Some 0"]
  by (simp add: f64_div_def)

end
