(* ===== verification/Json.thy ===== *)
theory Json
  imports Floats
begin

text \<open>
  JSON values, as \<open>encoding/json\<close> of Go's standard library exchanges them with the rest of the
  program. Text and value are not distinguished: a body that does not parse is \<open>None\<close>. The
  decoders follow the rules of \<open>json.Unmarshal\<close> for the types the gateway decodes into: a
  \<open>null\<close> leaves the zero value, an absent field too, a value of another kind is an error.
\<close>

datatype json =
  JNull
| JBool bool
| JInt int
| JNum rat
| JStr string
| JArr "json list"
| JObj "(string \<times> json) list"

text \<open>The field of an object: names match without regard to (ASCII) case, with several matches the
  last one counts.\<close>

definition lower_char :: "char \<Rightarrow> char" where
  "lower_char c = (let n = of_char c :: nat in if 65 \<le> n \<and> n \<le> 90 then char_of (n + 32) else c)"

definition field :: "string \<Rightarrow> (string \<times> json) list \<Rightarrow> json option" where
  "field name fs = map_of (rev (map (\<lambda>(k, v). (map lower_char k, v)) fs)) name"

fun as_string :: "json \<Rightarrow> string option" where
  "as_string JNull = Some []"
| "as_string (JStr s) = Some s"
| "as_string _ = None"

fun as_int :: "json \<Rightarrow> int option" where
  "as_int JNull = Some 0"
| "as_int (JInt n) = (if in_int64 n then Some n else None)"
| "as_int _ = None"

fun as_bool :: "json \<Rightarrow> bool option" where
  "as_bool JNull = Some False"
| "as_bool (JBool b) = Some b"
| "as_bool _ = None"

fun as_rat :: "json \<Rightarrow> rat option" where
  "as_rat JNull = Some 0"
| "as_rat (JNum x) = Some (f64 x)"
| "as_rat (JInt n) = Some (f64 (of_int n))"
| "as_rat _ = None"

text \<open>All elements of an array, or an error.\<close>

fun decode_all :: "('a \<Rightarrow> 'b option) \<Rightarrow> 'a list \<Rightarrow> 'b list option" where
  "decode_all f [] = Some []"
| "decode_all f (x # xs) =
     (case f x of None \<Rightarrow> None
      | Some y \<Rightarrow> (case decode_all f xs of None \<Rightarrow> None | Some ys \<Rightarrow> Some (y # ys)))"

fun as_list :: "(json \<Rightarrow> 'a option) \<Rightarrow> json \<Rightarrow> 'a list option" where
  "as_list f JNull = Some []"
| "as_list f (JArr xs) = decode_all f xs"
| "as_list f _ = None"

text \<open>A field of a struct: absent means the zero value.\<close>

definition get :: "(json \<Rightarrow> 'a option) \<Rightarrow> 'a \<Rightarrow> string \<Rightarrow> (string \<times> json) list \<Rightarrow> 'a option" where
  "get f zero name fs = (case field name fs of None \<Rightarrow> Some zero | Some v \<Rightarrow> f v)"

text \<open>What is left in a field when the decoding error is ignored: the zero value.\<close>

definition get_lax :: "(json \<Rightarrow> 'a option) \<Rightarrow> 'a \<Rightarrow> string \<Rightarrow> (string \<times> json) list \<Rightarrow> 'a" where
  "get_lax f zero name fs = (case get f zero name fs of None \<Rightarrow> zero | Some v \<Rightarrow> v)"

fun as_fields :: "json \<Rightarrow> (string \<times> json) list option" where
  "as_fields JNull = Some []"
| "as_fields (JObj fs) = Some fs"
| "as_fields _ = None"

text \<open>\<open>omitempty\<close>: the field is left out when its value is the zero value.\<close>

definition opt_field :: "bool \<Rightarrow> string \<Rightarrow> json \<Rightarrow> (string \<times> json) list" where
  "opt_field present name v = (if present then [(name, v)] else [])"

lemma decode_all_Some_iff: "decode_all f xs = Some ys \<longleftrightarrow> map f xs = map Some ys"
proof (induction xs arbitrary: ys)
  case (Cons x xs)
  show ?case
    by (cases ys) (auto simp flip: Cons.IH split: option.split)
qed auto

lemma decode_all_map [simp]: "(\<And>x. f (g x) = Some x) \<Longrightarrow> decode_all f (map g xs) = Some xs"
  by (simp add: decode_all_Some_iff)

lemma as_list_strings [simp]: "as_list as_string (JArr (map JStr xs)) = Some xs"
  by simp

end
