(* ===== verification/Auth.thy ===== *)
theory Auth
  imports Json
begin

text \<open>
  API-key authentication, \<open>gateway/internal/auth/auth.go\<close>: identities and scopes, the store
  with its cache, \<open>Authenticate\<close>, \<open>lookupAndVerify\<close>, \<open>parseScopes\<close> and the eviction. SHA-256 and
  bcrypt are parameters, as is the table of keys the database holds; times are nanoseconds.
\<close>

section \<open>Data\<close>

definition ScopeAdmin :: string where
  "ScopeAdmin = ''admin''"

definition AuthScopeAgent :: string where
  "AuthScopeAgent = ''agent''"

definition ScopeViewer :: string where
  "ScopeViewer = ''viewer''"

record identity =
  IdTenantID :: string
  KeyID :: string
  IdScopes :: "string set"

definition HasScope :: "identity \<Rightarrow> string \<Rightarrow> bool" where
  "HasScope i s \<longleftrightarrow> s \<in> IdScopes i"

datatype auth_error = ErrKeyNotFound | ErrKeyRevoked | ErrKeyInvalid | AuthFailure string

record keyRecord =
  RecID :: string
  RecTenantID :: string
  KeyPrefix :: string
  HashedKey :: string
  ScopesRaw :: "json option"
  RevokedAt :: "int option"

record cacheEntry =
  identity :: identity
  expiresAt :: int

record crypto =
  sha256_hex :: "string \<Rightarrow> string"
  bcrypt_matches :: "string \<Rightarrow> string \<Rightarrow> bool"

record store =
  ttl :: int
  cache :: "string \<rightharpoonup> cacheEntry"

definition NewStore :: "int \<Rightarrow> store" where
  "NewStore t = \<lparr>ttl = t, cache = Map.empty\<rparr>"

definition cacheKey :: "crypto \<Rightarrow> string \<Rightarrow> string" where
  "cacheKey c rawKey = sha256_hex c rawKey"

section \<open>Verification against the database\<close>

definition parseScopes :: "json option \<Rightarrow> string set option" where
  "parseScopes raw =
     (case raw of
        None \<Rightarrow> None
      | Some j \<Rightarrow> (case as_list as_string j of None \<Rightarrow> None | Some xs \<Rightarrow> Some (fold insert xs {})))"

definition keyPrefixLen :: nat where
  "keyPrefixLen = 12"

text \<open>What the query for a prefix delivers: an error, or rows that may fail to scan. The iteration
  may end early; the code does not ask why it ended.\<close>

datatype key_query = KeyQueryError string | KeyRows "(string + keyRecord) list"

definition select_keys :: "keyRecord list \<Rightarrow> string \<Rightarrow> keyRecord list" where
  "select_keys table prefix = filter (\<lambda>r. KeyPrefix r = prefix \<and> RevokedAt r = None) table"

fun verify_rows :: "crypto \<Rightarrow> string \<Rightarrow> (string + keyRecord) list \<Rightarrow> auth_error + identity" where
  "verify_rows c rawKey [] = Inl ErrKeyNotFound"
| "verify_rows c rawKey (Inl err # rows) = Inl (AuthFailure err)"
| "verify_rows c rawKey (Inr rec # rows) =
     (if bcrypt_matches c (HashedKey rec) rawKey then
        (case parseScopes (ScopesRaw rec) of
           None \<Rightarrow> Inl (AuthFailure ''json'')
         | Some scopes \<Rightarrow> Inr \<lparr>IdTenantID = RecTenantID rec, KeyID = RecID rec, IdScopes = scopes\<rparr>)
      else verify_rows c rawKey rows)"

definition lookupAndVerify :: "crypto \<Rightarrow> (string \<Rightarrow> key_query) \<Rightarrow> string \<Rightarrow> auth_error + identity" where
  "lookupAndVerify c query rawKey =
     (if length rawKey < keyPrefixLen then Inl ErrKeyInvalid
      else
        (case query (take keyPrefixLen rawKey) of
           KeyQueryError err \<Rightarrow> Inl (AuthFailure err)
         | KeyRows rows \<Rightarrow> verify_rows c rawKey rows))"

section \<open>The cache\<close>

definition cache_hit :: "crypto \<Rightarrow> int \<Rightarrow> string \<Rightarrow> store \<Rightarrow> identity option" where
  "cache_hit c now rawKey s =
     (case cache s (cacheKey c rawKey) of
        None \<Rightarrow> None
      | Some entry \<Rightarrow> (if now < expiresAt entry then Some (identity entry) else None))"

definition cache_store :: "crypto \<Rightarrow> int \<Rightarrow> string \<Rightarrow> identity \<Rightarrow> store \<Rightarrow> store" where
  "cache_store c now rawKey i s =
     s\<lparr>cache := (cache s)(cacheKey c rawKey \<mapsto> \<lparr>identity = i, expiresAt = now + ttl s\<rparr>)\<rparr>"

text \<open>\<open>t1\<close> and \<open>t2\<close> are what the two calls of the clock return.\<close>

definition Authenticate ::
  "crypto \<Rightarrow> int \<Rightarrow> (string \<Rightarrow> key_query) \<Rightarrow> int \<Rightarrow> string \<Rightarrow> store \<Rightarrow> (auth_error + identity) \<times> store" where
  "Authenticate c t1 query t2 rawKey s =
     (case cache_hit c t1 rawKey s of
        Some i \<Rightarrow> (Inr i, s)
      | None \<Rightarrow>
          (case lookupAndVerify c query rawKey of
             Inl err \<Rightarrow> (Inl err, s)
           | Inr i \<Rightarrow> (Inr i, cache_store c t2 rawKey i s)))"

definition evictExpired :: "int \<Rightarrow> store \<Rightarrow> store" where
  "evictExpired now s =
     s\<lparr>cache := (\<lambda>k. case cache s k of
                      None \<Rightarrow> None
                    | Some v \<Rightarrow> (if now > expiresAt v then None else Some v))\<rparr>"

text \<open>The eviction loop: its \<open>select\<close> picks a tick or the cancellation. Named apart from the loop of the
  budget cache.\<close>

datatype evict_event = EvictTick int | EvictCancelled

fun Auth_RunRefreshLoop :: "evict_event list \<Rightarrow> store \<Rightarrow> store" where
  "Auth_RunRefreshLoop [] s = s"
| "Auth_RunRefreshLoop (EvictCancelled # evs) s = s"
| "Auth_RunRefreshLoop (EvictTick now # evs) s = Auth_RunRefreshLoop evs (evictExpired now s)"

definition HashKey :: "(string \<Rightarrow> string option) \<Rightarrow> string \<Rightarrow> string + string" where
  "HashKey bcrypt_generate rawKey =
     (case bcrypt_generate rawKey of None \<Rightarrow> Inl ''bcrypt'' | Some h \<Rightarrow> Inr h)"

section \<open>Verification\<close>

fun_cases verify_rows_InrE: "verify_rows c rawKey (rec # rows) = Inr i"

definition identity_of :: "keyRecord \<Rightarrow> string set \<Rightarrow> identity" where
  "identity_of rec scopes = \<lparr>IdTenantID = RecTenantID rec, KeyID = RecID rec, IdScopes = scopes\<rparr>"

lemma verify_rows_Inr:
  "verify_rows c rawKey rows = Inr i \<Longrightarrow>
     \<exists>rec scopes. Inr rec \<in> set rows \<and> bcrypt_matches c (HashedKey rec) rawKey \<and>
       parseScopes (ScopesRaw rec) = Some scopes \<and> i = identity_of rec scopes"
proof (induction c rawKey rows rule: verify_rows.induct)
  case (3 c rawKey rec rows)
  then show ?case by (auto simp: identity_of_def split: if_splits option.splits)
qed simp_all

lemma lookupAndVerify_Inr:
  assumes "lookupAndVerify c query rawKey = Inr i"
  obtains rows rec scopes where "keyPrefixLen \<le> length rawKey"
    "query (take keyPrefixLen rawKey) = KeyRows rows" "Inr rec \<in> set rows"
    "bcrypt_matches c (HashedKey rec) rawKey" "parseScopes (ScopesRaw rec) = Some scopes" "i = identity_of rec scopes"
  using assms verify_rows_Inr [of c rawKey _ i]
  by (auto simp: lookupAndVerify_def split: if_splits key_query.splits)

lemma parseScopes_strings: "parseScopes (Some (JArr (map JStr xs))) = Some (set xs)"
  by (simp add: parseScopes_def union_set_fold [symmetric])

lemma cache_hit_evict:
  "now \<le> t \<Longrightarrow> cache_hit c t rawKey (evictExpired now s) = cache_hit c t rawKey s"
  by (auto simp: cache_hit_def evictExpired_def split: option.split)

lemma cache_hit_loop:
  "(\<And>now. EvictTick now \<in> set evs \<Longrightarrow> now \<le> t) \<Longrightarrow> cache_hit c t rawKey (Auth_RunRefreshLoop evs s) = cache_hit c t rawKey s"
  by (induction evs s rule: Auth_RunRefreshLoop.induct) (simp_all add: cache_hit_evict)

end
