(* ===== verification/Redis.thy ===== *)
theory Redis
  imports Floats
begin

text \<open>
  The Redis server is not part of the repository: its commands are a parameter of the model,
  a record of functions on an unspecified store \<open>'s\<close>. A hash field is read as the number its
  text denotes. \<open>redis_laws\<close> states the documented behaviour the gateway relies on:

  \<^item> \<open>HSET key f1 v1 f2 v2 ...\<close> sets exactly these fields of this key;
  \<^item> \<open>HINCRBYFLOAT key f d\<close> adds \<open>d\<close> to the field, which counts as 0 when it is absent. The server
    adds extended-precision numbers and prints 17 decimals: the sum of two integers is exact,
    any other is within an error of that order (\<open>incr_sum\<close>);
  \<^item> \<open>EXPIRE key ttl\<close> with a positive \<open>ttl\<close> changes no field now; when the time has come the server
    removes the key with all its fields, which is the transition \<open>drop_key\<close>;
  \<^item> a number a script returns becomes an integer reply, its fractional part cut off.

  \<open>scan_float\<close> is not the server's: the number the client reads off a text reply with \<open>fmt.Sscanf\<close>,
  of which nothing is assumed.

  \<open>mem_redis\<close> is a store that satisfies the laws, for closed instances.
\<close>

type_synonym field = string

record 's redis =
  hget :: "'s \<Rightarrow> string \<Rightarrow> field \<Rightarrow> rat option"
  hset :: "'s \<Rightarrow> string \<Rightarrow> (field \<times> rat) list \<Rightarrow> 's"
  hincrbyfloat :: "'s \<Rightarrow> string \<Rightarrow> field \<Rightarrow> rat \<Rightarrow> 's"
  expire :: "'s \<Rightarrow> string \<Rightarrow> rat \<Rightarrow> 's"
  drop_key :: "'s \<Rightarrow> string \<Rightarrow> 's"
  incr_sum :: "rat \<Rightarrow> rat \<Rightarrow> rat"
  int_reply :: "rat \<Rightarrow> int"
  scan_float :: "string \<Rightarrow> rat"

definition redis_laws :: "'s redis \<Rightarrow> bool" where
  "redis_laws rd \<longleftrightarrow>
     (\<forall>st k fvs k' f. distinct (map fst fvs) \<longrightarrow>
        hget rd (hset rd st k fvs) k' f =
          (if k' = k then case map_of fvs f of Some v \<Rightarrow> Some v | None \<Rightarrow> hget rd st k' f
           else hget rd st k' f)) \<and>
     (\<forall>st k f d k' f'.
        hget rd (hincrbyfloat rd st k f d) k' f' =
          (if k' = k \<and> f' = f
           then Some (incr_sum rd (case hget rd st k f of Some v \<Rightarrow> v | None \<Rightarrow> 0) d)
           else hget rd st k' f')) \<and>
     (\<forall>st k ttl k' f. 0 < ttl \<longrightarrow> hget rd (expire rd st k ttl) k' f = hget rd st k' f) \<and>
     (\<forall>st k k' f. hget rd (drop_key rd st k) k' f = (if k' = k then None else hget rd st k' f)) \<and>
     (\<forall>m n. \<bar>m\<bar> \<le> 2 ^ 62 \<longrightarrow> \<bar>n\<bar> \<le> 2 ^ 62 \<longrightarrow> incr_sum rd (of_int m) (of_int n) = of_int (m + n)) \<and>
     (\<forall>x y. \<bar>incr_sum rd x y - (x + y)\<bar> \<le> 1 / 10 ^ 17 + (\<bar>x\<bar> + \<bar>y\<bar>) / 2 ^ 52) \<and>
     (\<forall>x. int_reply rd x = trunc_rat x)"

lemma hget_hset:
  "redis_laws rd \<Longrightarrow> distinct (map fst fvs) \<Longrightarrow>
   hget rd (hset rd st k fvs) k' f =
     (if k' = k then case map_of fvs f of Some v \<Rightarrow> Some v | None \<Rightarrow> hget rd st k' f
      else hget rd st k' f)"
  by (simp add: redis_laws_def)

lemma hget_hincrbyfloat:
  "redis_laws rd \<Longrightarrow>
   hget rd (hincrbyfloat rd st k f d) k' f' =
     (if k' = k \<and> f' = f then Some (incr_sum rd (case hget rd st k f of Some v \<Rightarrow> v | None \<Rightarrow> 0) d)
      else hget rd st k' f')"
  by (simp add: redis_laws_def)

lemma hget_expire: "redis_laws rd \<Longrightarrow> 0 < ttl \<Longrightarrow> hget rd (expire rd st k ttl) k' f = hget rd st k' f"
  by (simp add: redis_laws_def)

lemma hget_drop_key:
  "redis_laws rd \<Longrightarrow> hget rd (drop_key rd st k) k' f = (if k' = k then None else hget rd st k' f)"
  by (simp add: redis_laws_def)

lemma incr_sum_of_int:
  "redis_laws rd \<Longrightarrow> \<bar>m\<bar> \<le> 2 ^ 62 \<Longrightarrow> \<bar>n\<bar> \<le> 2 ^ 62 \<Longrightarrow> incr_sum rd (of_int m) (of_int n) = of_int (m + n)"
  unfolding redis_laws_def by blast

lemma incr_sum_err:
  "redis_laws rd \<Longrightarrow> \<bar>incr_sum rd x y - (x + y)\<bar> \<le> 1 / 10 ^ 17 + (\<bar>x\<bar> + \<bar>y\<bar>) / 2 ^ 52"
  unfolding redis_laws_def by blast

lemma int_reply_trunc: "redis_laws rd \<Longrightarrow> int_reply rd x = trunc_rat x"
  by (simp add: redis_laws_def)

section \<open>A store for closed instances\<close>

type_synonym mem = "string \<Rightarrow> field \<Rightarrow> rat option"

definition mem_redis :: "mem redis" where
  "mem_redis =
     \<lparr>hget = (\<lambda>st k f. st k f),
      hset = (\<lambda>st k fvs. st(k := (\<lambda>f. case map_of fvs f of Some v \<Rightarrow> Some v | None \<Rightarrow> st k f))),
      hincrbyfloat = (\<lambda>st k f d. st(k := (st k)(f := Some ((case st k f of Some v \<Rightarrow> v | None \<Rightarrow> 0) + d)))),
      expire = (\<lambda>st k ttl. st),
      drop_key = (\<lambda>st k. st(k := (\<lambda>_. None))),
      incr_sum = (+),
      int_reply = trunc_rat,
      scan_float = (\<lambda>_. 0)\<rparr>"

definition mem_empty :: mem where
  "mem_empty = (\<lambda>_ _. None)"

lemma redis_laws_mem [simp]: "redis_laws mem_redis"
  by (simp add: redis_laws_def mem_redis_def split: option.split)

end
