(* ===== verification/Bucket.thy ===== *)
theory Bucket
  imports Scopes Redis
begin

text \<open>
  The budget enforcer: \<open>checkAndDecrement.lua\<close> phase by phase, and around it
  \<open>CheckAndDecrement\<close>, \<open>eval\<close> and \<open>Reconcile\<close> of \<open>gateway/internal/budget/bucket.go\<close>. The
  Redis server is the parameter \<open>rd\<close> (theory \<open>Redis\<close>); the two numbers of its \<open>TIME\<close> reply
  and the faults of the connection are inputs of a call.
\<close>

section \<open>The script\<close>

text \<open>\<open>TIME\<close> replies with Unix seconds and microseconds.\<close>

type_synonym redis_time = "int \<times> int"

definition lua_now :: "redis_time \<Rightarrow> rat" where
  "lua_now tm = f64_add (f64_of_int (fst tm)) (f64_div (f64_of_int (snd tm)) 1000000)"

record computed =
  token_limit :: rat
  usd_limit :: rat
  computed_tokens :: rat
  computed_usd :: rat

definition lua_refill :: "rat \<Rightarrow> rat \<Rightarrow> rat \<Rightarrow> rat \<Rightarrow> rat" where
  "lua_refill limit rate elapsed remaining =
     (if limit > 0 then
        (let new = f64_add remaining (f64_mul elapsed rate)
         in if new > limit then limit else new)
      else remaining)"

text \<open>
  Phase 1 for one key. \<open>base\<close> is the number of arguments before this key's four; a field that
  is absent reads as \<open>nil\<close>. \<open>tonumber\<close> rounds the text of a field to binary64.
\<close>

definition phase1_key :: "'s redis \<Rightarrow> 's \<Rightarrow> rat \<Rightarrow> rat list \<Rightarrow> nat \<Rightarrow> string \<Rightarrow> computed" where
  "phase1_key rd st now argv base key =
     (let token_limit = argv ! base;
          usd_limit = argv ! (base + 1);
          refill_tokens_per_sec = argv ! (base + 2);
          refill_usd_per_sec = argv ! (base + 3);
          tonumber = map_option f64;
          tokens_remaining = (case tonumber (hget rd st key ''tokens_remaining'') of
                                None \<Rightarrow> token_limit | Some v \<Rightarrow> v);
          usd_remaining = (case tonumber (hget rd st key ''usd_remaining'') of
                             None \<Rightarrow> usd_limit | Some v \<Rightarrow> v);
          last_refill_ts = (case tonumber (hget rd st key ''last_refill_ts'') of
                              None \<Rightarrow> now | Some v \<Rightarrow> v);
          elapsed = f64_sub now last_refill_ts;
          elapsed = (if elapsed < 0 then 0 else elapsed)
      in \<lparr>token_limit = token_limit, usd_limit = usd_limit,
          computed_tokens = lua_refill token_limit refill_tokens_per_sec elapsed tokens_remaining,
          computed_usd = lua_refill usd_limit refill_usd_per_sec elapsed usd_remaining\<rparr>)"

fun phase1 :: "'s redis \<Rightarrow> 's \<Rightarrow> rat \<Rightarrow> rat list \<Rightarrow> nat \<Rightarrow> string list \<Rightarrow> computed list" where
  "phase1 rd st now argv base [] = []"
| "phase1 rd st now argv base (key # keys) =
     phase1_key rd st now argv base key # phase1 rd st now argv (base + 4) keys"

text \<open>Phase 2: the first bucket that is short, with its 1-based index.\<close>

fun phase2 :: "rat \<Rightarrow> rat \<Rightarrow> nat \<Rightarrow> computed list \<Rightarrow> (nat \<times> rat \<times> rat) option" where
  "phase2 requested_tokens requested_usd i [] = None"
| "phase2 requested_tokens requested_usd i (c # cs) =
     (if token_limit c > 0 \<and> computed_tokens c < requested_tokens
      then Some (i, computed_tokens c, computed_usd c)
      else if usd_limit c > 0 \<and> computed_usd c < requested_usd
      then Some (i, computed_tokens c, computed_usd c)
      else phase2 requested_tokens requested_usd (Suc i) cs)"

text \<open>Phase 3: write every bucket and keep the least balances of the enforced dimensions.\<close>

definition keep_min :: "bool \<Rightarrow> rat option \<Rightarrow> rat \<Rightarrow> rat option" where
  "keep_min enforced m x =
     (if enforced \<and> (m = None \<or> x < the m) then Some x else m)"

fun phase3 ::
  "'s redis \<Rightarrow> rat \<Rightarrow> rat \<Rightarrow> rat \<Rightarrow> rat \<Rightarrow> (string \<times> computed) list \<Rightarrow> 's \<Rightarrow> rat option \<Rightarrow> rat option
    \<Rightarrow> 's \<times> rat option \<times> rat option"
where
  "phase3 rd now state_ttl requested_tokens requested_usd [] st min_tokens min_usd =
     (st, min_tokens, min_usd)"
| "phase3 rd now state_ttl requested_tokens requested_usd ((key, c) # rest) st min_tokens min_usd =
     (let final_tokens = f64_sub (computed_tokens c) requested_tokens;
          final_usd = f64_sub (computed_usd c) requested_usd;
          st = hset rd st key
                 [(''tokens_remaining'', dec14 final_tokens),
                  (''usd_remaining'', dec14 final_usd),
                  (''last_refill_ts'', dec14 now)];
          st = (if state_ttl > 0 then expire rd st key state_ttl else st)
      in phase3 rd now state_ttl requested_tokens requested_usd rest st
           (keep_min (token_limit c > 0) min_tokens final_tokens)
           (keep_min (usd_limit c > 0) min_usd final_usd))"

text \<open>
  The whole script. Too few arguments make \<open>tonumber\<close> yield \<open>nil\<close> and the arithmetic on it
  raises, before any write. The reply is the array of four integers Redis makes of the four
  Lua numbers.
\<close>

definition lua_script ::
  "'s redis \<Rightarrow> redis_time \<Rightarrow> string list \<Rightarrow> rat list \<Rightarrow> 's \<Rightarrow> (string + int list) \<times> 's" where
  "lua_script rd tm keys argv st =
     (if length argv < 3 + 4 * length keys then (Inl ''ERR Error running script'', st)
      else
        (let requested_tokens = argv ! 0;
             requested_usd = argv ! 1;
             state_ttl = argv ! 2
         in if requested_tokens < 0 \<or> requested_usd < 0 then (Inr [0, - 1, 0, 0], st)
            else
              (let now = lua_now tm;
                   cs = phase1 rd st now argv 3 keys
               in case phase2 requested_tokens requested_usd 1 cs of
                    Some (i, t, u) \<Rightarrow> (Inr [0, int i, int_reply rd t, int_reply rd u], st)
                  | None \<Rightarrow>
                      (case phase3 rd now state_ttl requested_tokens requested_usd (zip keys cs) st None None of
                         (st', mt, mu) \<Rightarrow>
                           (Inr [1, 0,
                                 int_reply rd (case mt of None \<Rightarrow> 0 | Some x \<Rightarrow> x),
                                 int_reply rd (case mu of None \<Rightarrow> 0 | Some x \<Rightarrow> x)], st')))))"

section \<open>The connection\<close>

text \<open>
  A fault of a command is the error text the client reports and whether the server had run
  the command before the reply was lost. \<open>load_result\<close> is the digest \<open>SCRIPT LOAD\<close> returns,
  \<open>None\<close> if it fails. The client library sends a command again when the connection fails
  (\<open>MaxRetries\<close> of go-redis is 3 unless it is set, and \<open>main\<close> does not set it): \<open>resent\<close> are the times at
  which the server ran the script for a command whose reply did not arrive and that was sent again.
\<close>

record net =
  resent :: "redis_time list"
  evalsha_fault :: "(string \<times> bool) option"
  eval_fault :: "(string \<times> bool) option"
  load_result :: "string option"

record enforcer =
  sha :: string
  stateTTL :: int

definition NewEnforcer :: "int \<Rightarrow> enforcer" where
  "NewEnforcer stateTTLSeconds = \<lparr>sha = [], stateTTL = stateTTLSeconds\<rparr>"

definition LoadScript :: "net \<Rightarrow> enforcer \<Rightarrow> bool \<times> enforcer" where
  "LoadScript net e =
     (case load_result net of None \<Rightarrow> (False, e) | Some s \<Rightarrow> (True, e\<lparr>sha := s\<rparr>))"

definition isNoScriptErr :: "string \<Rightarrow> bool" where
  "isNoScriptErr err \<longleftrightarrow> length err \<ge> 8 \<and> take 8 err = ''NOSCRIPT''"

text \<open>One command that runs the script, under a possible fault of the connection.\<close>

definition run_cmd ::
  "(string \<times> bool) option \<Rightarrow> ('s \<Rightarrow> (string + int list) \<times> 's) \<Rightarrow> 's \<Rightarrow> (string + int list) \<times> 's" where
  "run_cmd fault script st =
     (case fault of
        None \<Rightarrow> script st
      | Some (err, executed) \<Rightarrow> (Inl err, if executed then snd (script st) else st))"

definition eval_fallback ::
  "net \<Rightarrow> enforcer \<Rightarrow> ('s \<Rightarrow> (string + int list) \<times> 's) \<Rightarrow> 's \<Rightarrow> (string + int list) \<times> enforcer \<times> 's" where
  "eval_fallback net e script st =
     (case run_cmd (eval_fault net) script st of
        (Inl err, st') \<Rightarrow> (Inl err, e, st')
      | (Inr res, st') \<Rightarrow> (Inr res, snd (LoadScript net e), st'))"

definition eval ::
  "net \<Rightarrow> enforcer \<Rightarrow> ('s \<Rightarrow> (string + int list) \<times> 's) \<Rightarrow> 's \<Rightarrow> (string + int list) \<times> enforcer \<times> 's" where
  "eval net e script st =
     (if sha e \<noteq> [] then
        (case run_cmd (evalsha_fault net) script st of
           (Inr res, st') \<Rightarrow> (Inr res, e, st')
         | (Inl err, st') \<Rightarrow>
             (if \<not> isNoScriptErr err then (Inl err, e, st') else eval_fallback net e script st'))
      else eval_fallback net e script st)"

definition rerun :: "('t \<Rightarrow> 's \<Rightarrow> 'r \<times> 's) \<Rightarrow> 't list \<Rightarrow> 's \<Rightarrow> 's" where
  "rerun script tms st = fold (\<lambda>tm st. snd (script tm st)) tms st"

lemma rerun_Nil [simp]: "rerun script [] st = st"
  by (simp add: rerun_def)

lemma rerun_Cons [simp]: "rerun script (tm # tms) st = rerun script tms (snd (script tm st))"
  by (simp add: rerun_def)

section \<open>CheckAndDecrement\<close>

datatype budget_error =
  ErrNoBucketRefs
| ErrBackendUnavailable string
| ErrUnexpectedShape

definition script_argv :: "enforcer \<Rightarrow> bucket_ref list \<Rightarrow> int \<Rightarrow> rat \<Rightarrow> rat list" where
  "script_argv e refs requestedTokens requestedUSD =
     [f64_of_int requestedTokens, requestedUSD, f64_of_int (stateTTL e)] @
     concat (map (\<lambda>r. [f64_of_int (TokenLimit (Limits r)), DollarLimit (Limits r),
                       RefillTokensPerSec (Limits r), RefillUSDPerSec (Limits r)]) refs)"

text \<open>
  What the client library makes of a reply: an integer, a float, a text, an array, or nothing. The
  number at the start of a text is what \<open>fmt.Sscanf\<close> reads, a parameter (\<open>scan_float\<close>).
\<close>

datatype redis_value = VInt int | VFloat rat | VStr string | VArr "redis_value list" | VNil

fun toInt64 :: "redis_value \<Rightarrow> int" where
  "toInt64 (VInt n) = n"
| "toInt64 v = 0"

fun toFloat64 :: "(string \<Rightarrow> rat) \<Rightarrow> redis_value \<Rightarrow> rat" where
  "toFloat64 scan (VInt n) = f64_of_int n"
| "toFloat64 scan (VFloat x) = x"
| "toFloat64 scan (VStr s) = scan s"
| "toFloat64 scan v = 0"

definition decode_reply :: "(string \<Rightarrow> rat) \<Rightarrow> bucket_ref list \<Rightarrow> redis_value \<Rightarrow> budget_error + decision" where
  "decode_reply scan refs res =
     (case res of VArr arr \<Rightarrow>
       (if length arr \<noteq> 4 then Inl ErrUnexpectedShape
        else
        (let allowed = (toInt64 (arr ! 0) = 1);
             failedIdx = toInt64 (arr ! 1);
             d = \<lparr>Allowed = allowed, Reason = ReasonNone, FailedScope = NoScope,
                  RemainingTokens = toFloat64 scan (arr ! 2), RemainingUSD = toFloat64 scan (arr ! 3)\<rparr>
         in if \<not> allowed then
              (if failedIdx = - 1 then Inr (d\<lparr>Reason := ReasonInvalidRequest\<rparr>)
               else if 1 \<le> failedIdx \<and> failedIdx \<le> int (length refs) then
                 (let scope = Scope (refs ! nat (failedIdx - 1))
                  in Inr (d\<lparr>FailedScope := scope, Reason := scopeReason scope\<rparr>))
               else Inr d)
            else Inr d))
      | _ \<Rightarrow> Inl ErrUnexpectedShape)"

definition CheckAndDecrement ::
  "'s redis \<Rightarrow> net \<Rightarrow> redis_time \<Rightarrow> enforcer \<Rightarrow> bucket_ref list \<Rightarrow> int \<Rightarrow> rat \<Rightarrow> 's
    \<Rightarrow> (budget_error + decision) \<times> enforcer \<times> 's" where
  "CheckAndDecrement rd net tm e refs requestedTokens requestedUSD st =
     (if refs = [] then (Inl ErrNoBucketRefs, e, st)
      else
        (let script = (\<lambda>tm. lua_script rd tm (map RefKey refs) (script_argv e refs requestedTokens requestedUSD))
         in case eval net e (script tm) (rerun script (resent net) st) of
              (Inl err, e', st') \<Rightarrow> (Inl (ErrBackendUnavailable err), e', st')
            | (Inr res, e', st') \<Rightarrow> (decode_reply (scan_float rd) refs (VArr (map VInt res)), e', st')))"

section \<open>Reconcile\<close>

text \<open>The commands of the pipeline, in order.\<close>

type_synonym incr = "string \<times> field \<times> rat"

definition reconcile_cmds :: "rat \<Rightarrow> rat \<Rightarrow> bucket_ref \<Rightarrow> incr list" where
  "reconcile_cmds deltaTokens deltaUSD r =
     (if TokenLimit (Limits r) > 0 \<and> deltaTokens \<noteq> 0
      then [(RefKey r, ''tokens_remaining'', deltaTokens)] else []) @
     (if DollarLimit (Limits r) > 0 \<and> deltaUSD \<noteq> 0
      then [(RefKey r, ''usd_remaining'', deltaUSD)] else [])"

definition run_incr :: "'s redis \<Rightarrow> incr \<Rightarrow> 's \<Rightarrow> 's" where
  "run_incr rd c st = hincrbyfloat rd st (fst c) (fst (snd c)) (snd (snd c))"

text \<open>
  \<open>Exec\<close> sends the commands one after the other. \<open>fault = (lost, last)\<close> is what the connection does: for
  each \<open>n\<close> in \<open>lost\<close> it breaks after the server has run \<open>n\<close> commands, and the library sends the whole
  pipeline again; the last attempt completes, or breaks after \<open>n\<close> commands (\<open>last = Some n\<close>) and the
  error is reported.
\<close>

type_synonym pipe_fault = "nat list \<times> nat option"

definition no_fault :: pipe_fault where
  "no_fault = ([], None)"

definition pipe_attempts :: "pipe_fault \<Rightarrow> incr list \<Rightarrow> incr list" where
  "pipe_attempts fault cmds =
     concat (map (\<lambda>n. take n cmds) (fst fault)) @ (case snd fault of None \<Rightarrow> cmds | Some n \<Rightarrow> take n cmds)"

definition pipe_exec :: "'s redis \<Rightarrow> pipe_fault \<Rightarrow> incr list \<Rightarrow> 's \<Rightarrow> bool \<times> 's" where
  "pipe_exec rd fault cmds st = (snd fault \<noteq> None, fold (run_incr rd) (pipe_attempts fault cmds) st)"

definition Reconcile ::
  "'s redis \<Rightarrow> pipe_fault \<Rightarrow> bucket_ref list \<Rightarrow> int \<Rightarrow> rat \<Rightarrow> int \<Rightarrow> rat \<Rightarrow> 's \<Rightarrow> bool \<times> 's" where
  "Reconcile rd fault refs estimatedTokens estimatedUSD actualTokens actualUSD st =
     (let deltaTokens = f64_of_int (wrap64 (estimatedTokens - actualTokens));
          deltaUSD = f64_sub estimatedUSD actualUSD
      in if deltaTokens = 0 \<and> deltaUSD = 0 then (False, st)
         else pipe_exec rd fault (concat (map (reconcile_cmds deltaTokens deltaUSD) refs)) st)"

text \<open>A pipeline that was not sent again.\<close>

definition sent_once :: "pipe_fault \<Rightarrow> bool" where
  "sent_once fault \<longleftrightarrow> fst fault = []"

lemma sent_once_no_fault [simp]: "sent_once no_fault"
  by (simp add: sent_once_def no_fault_def)

lemma snd_no_fault [simp]: "snd no_fault = None"
  by (simp add: no_fault_def)

lemma attempts_no_fault [simp]: "pipe_attempts no_fault cmds = cmds"
  by (simp add: pipe_attempts_def no_fault_def)

lemma attempts_Nil [simp]: "pipe_attempts fault [] = []"
  by (cases "snd fault") (simp_all add: pipe_attempts_def)

lemma attempts_once: "sent_once fault \<Longrightarrow> \<exists>n. pipe_attempts fault cmds = take n cmds \<and> (snd fault = None \<longrightarrow> take n cmds = cmds)"
  by (cases "snd fault") (auto simp: pipe_attempts_def sent_once_def intro: exI [of _ "length cmds"])

lemma set_attempts: "set (pipe_attempts fault cmds) \<subseteq> set cmds"
  by (cases "snd fault") (auto simp: pipe_attempts_def dest: in_set_takeD)

section \<open>Phase 1 computes the balance of each reference\<close>

definition ref_args :: "bucket_ref \<Rightarrow> rat list" where
  "ref_args r = [f64_of_int (TokenLimit (Limits r)), DollarLimit (Limits r),
                 RefillTokensPerSec (Limits r), RefillUSDPerSec (Limits r)]"

text \<open>The refilled balances of a reference at time \<open>now\<close>.\<close>

definition view :: "'s redis \<Rightarrow> rat \<Rightarrow> 's \<Rightarrow> bucket_ref \<Rightarrow> computed" where
  "view rd now st r = phase1_key rd st now (ref_args r) 0 (RefKey r)"

lemma length_ref_args [simp]: "length (ref_args r) = 4"
  by (simp add: ref_args_def)

lemma script_argv_alt:
  "script_argv e refs t u = [f64_of_int t, u, f64_of_int (stateTTL e)] @ concat (map ref_args refs)"
  by (simp add: script_argv_def ref_args_def [abs_def])

lemma length_concat_ref_args [simp]: "length (concat (map ref_args refs)) = 4 * length refs"
  by (induction refs) simp_all

lemma script_argv_nth [simp]:
  "script_argv e refs t u ! 0 = f64_of_int t"
  "script_argv e refs t u ! Suc 0 = u"
  "script_argv e refs t u ! 2 = f64_of_int (stateTTL e)"
  by (simp_all add: script_argv_alt)

lemma length_script_argv [simp]: "length (script_argv e refs t u) = 3 + 4 * length refs"
  by (simp add: script_argv_alt)

lemma phase1_key_shift:
  assumes "base = length pre"
  shows "phase1_key rd st now (pre @ ref_args r @ post) base key = phase1_key rd st now (ref_args r) 0 key"
proof -
  have "(pre @ ref_args r @ post) ! (length pre + j) = ref_args r ! j" if "j < 4" for j
    using that by (simp add: nth_append)
  from this [of 0] this [of 1] this [of 2] this [of 3] show ?thesis
    unfolding phase1_key_def assms by (simp add: numeral_2_eq_2)
qed

lemma phase1_view:
  "base = length pre \<Longrightarrow>
   phase1 rd st now (pre @ concat (map ref_args refs)) base (map RefKey refs) = map (view rd now st) refs"
proof (induction refs arbitrary: pre base)
  case (Cons r refs)
  from Cons.prems have "phase1 rd st now ((pre @ ref_args r) @ concat (map ref_args refs)) (base + 4)
      (map RefKey refs) = map (view rd now st) refs"
    by (intro Cons.IH) simp
  with Cons.prems show ?case by (simp add: phase1_key_shift view_def)
qed simp

lemma phase1_script_argv:
  "phase1 rd st now (script_argv e refs t u) 3 (map RefKey refs) = map (view rd now st) refs"
  unfolding script_argv_alt by (rule phase1_view) simp

text \<open>The limits and the balances of a view.\<close>

lemma view_limits [simp]:
  "token_limit (view rd now st r) = f64_of_int (TokenLimit (Limits r))"
  "usd_limit (view rd now st r) = DollarLimit (Limits r)"
  by (simp_all add: view_def phase1_key_def ref_args_def Let_def)

lemma f64_of_int_pos_iff [simp]: "0 < f64_of_int n \<longleftrightarrow> 0 < n"
proof
  assume "0 < f64_of_int n"
  then show "0 < n" using f64_of_int_mono [of n 0] by (auto simp: f64_of_int_def not_less [symmetric])
next
  assume "0 < n"
  then have "f64_of_int 1 \<le> f64_of_int n" by (intro f64_of_int_mono) simp
  then show "0 < f64_of_int n" using f64_of_int_exact [of 1] by simp
qed

lemma lua_refill_le_limit: "0 < limit \<Longrightarrow> lua_refill limit rate elapsed b \<le> limit"
  by (simp add: lua_refill_def Let_def)

lemma lua_refill_ge:
  assumes "0 \<le> elapsed" "0 \<le> rate" "f64 b = b" "b \<le> limit"
  shows "b \<le> lua_refill limit rate elapsed b"
proof -
  have "0 \<le> f64_mul elapsed rate"
    unfolding f64_mul_def using assms(1,2) by (intro f64.r_nonneg) simp
  then have "b \<le> f64_add b (f64_mul elapsed rate)"
    unfolding f64_add_def using assms(3) by (intro f64.r_ge_fixed) auto
  with assms(4) show ?thesis by (simp add: lua_refill_def Let_def)
qed

lemma view_tokens_le: "0 < TokenLimit (Limits r) \<Longrightarrow>
    computed_tokens (view rd now st r) \<le> f64_of_int (TokenLimit (Limits r))"
  by (simp add: view_def phase1_key_def ref_args_def Let_def lua_refill_le_limit)

lemma view_usd_le: "0 < DollarLimit (Limits r) \<Longrightarrow>
    computed_usd (view rd now st r) \<le> DollarLimit (Limits r)"
  by (simp add: view_def phase1_key_def ref_args_def Let_def lua_refill_le_limit)

section \<open>Phase 2 finds the first short bucket\<close>

definition short :: "rat \<Rightarrow> rat \<Rightarrow> computed \<Rightarrow> bool" where
  "short t u c \<longleftrightarrow>
     (0 < token_limit c \<and> computed_tokens c < t) \<or> (0 < usd_limit c \<and> computed_usd c < u)"

lemma phase2_find:
  "phase2 t u i cs =
     (case find_index (short t u) cs of
        None \<Rightarrow> None
      | Some j \<Rightarrow> Some (i + j, computed_tokens (cs ! j), computed_usd (cs ! j)))"
  by (induction cs arbitrary: i) (auto simp: short_def split: option.splits)

lemma phase2_None_iff: "phase2 t u i cs = None \<longleftrightarrow> (\<forall>c\<in>set cs. \<not> short t u c)"
  using find_index_None_iff [of "short t u" cs] by (auto simp: phase2_find split: option.splits)

section \<open>Phase 3 writes every bucket\<close>

definition written :: "'s redis \<Rightarrow> rat \<Rightarrow> rat \<Rightarrow> rat \<Rightarrow> computed \<Rightarrow> field \<Rightarrow> rat option" where
  "written rd now t u c f =
     (if f = ''tokens_remaining'' then Some (dec14 (f64_sub (computed_tokens c) t))
      else if f = ''usd_remaining'' then Some (dec14 (f64_sub (computed_usd c) u))
      else if f = ''last_refill_ts'' then Some (dec14 now) else None)"

lemma hget_write:
  assumes "redis_laws rd"
  shows "hget rd (hset rd st key
      [(''tokens_remaining'', dec14 (f64_sub (computed_tokens c) t)),
       (''usd_remaining'', dec14 (f64_sub (computed_usd c) u)),
       (''last_refill_ts'', dec14 now)]) k f =
    (if k = key then case written rd now t u c f of None \<Rightarrow> hget rd st k f | Some v \<Rightarrow> Some v
     else hget rd st k f)"
  by (simp add: hget_hset [OF assms] written_def)

lemma phase3_hget:
  assumes "redis_laws rd" "distinct (map fst kcs)"
  shows "hget rd (fst (phase3 rd now ttl t u kcs st mt mu)) k f =
    (case map_of kcs k of
       None \<Rightarrow> hget rd st k f
     | Some c \<Rightarrow> (case written rd now t u c f of None \<Rightarrow> hget rd st k f | Some v \<Rightarrow> Some v))"
  using assms(2)
proof (induction kcs arbitrary: st mt mu)
  case (Cons kc kcs)
  obtain k0 c0 where kc: "kc = (k0, c0)" by fastforce
  have notin: "map_of kcs k0 = None" using Cons.prems kc by (simp add: map_of_eq_None_iff)
  show ?case
    using Cons notin
    by (simp add: kc Let_def hget_expire [OF assms(1)] hget_write [OF assms(1)] split: option.split)
qed simp

lemma phase3_mins:
  "snd (phase3 rd now ttl t u kcs st mt mu) =
     (fold (\<lambda>kc m. keep_min (0 < token_limit (snd kc)) m (f64_sub (computed_tokens (snd kc)) t)) kcs mt,
      fold (\<lambda>kc m. keep_min (0 < usd_limit (snd kc)) m (f64_sub (computed_usd (snd kc)) u)) kcs mu)"
  by (induction kcs arbitrary: st mt mu) (auto simp: Let_def)

lemma keep_min_fold:
  "fold (\<lambda>x m. keep_min (P x) m (v x)) xs m0 = Some y \<Longrightarrow>
     (\<forall>x\<in>set xs. P x \<longrightarrow> y \<le> v x) \<and> (\<forall>z. m0 = Some z \<longrightarrow> y \<le> z) \<and>
     (m0 = Some y \<or> (\<exists>x\<in>set xs. P x \<and> y = v x))"
proof (induction xs arbitrary: m0)
  case (Cons x xs)
  from Cons.IH [of "keep_min (P x) m0 (v x)"] Cons.prems show ?case
    by (cases m0) (fastforce simp: keep_min_def split: if_splits)+
qed simp

lemma keep_min_fold_None:
  "fold (\<lambda>x m. keep_min (P x) m (v x)) xs m0 = None \<longleftrightarrow> m0 = None \<and> (\<forall>x\<in>set xs. \<not> P x)"
  by (induction xs arbitrary: m0) (auto simp: keep_min_def split: if_splits)


section \<open>The script and the client on a list of references\<close>

definition enough :: "'s redis \<Rightarrow> rat \<Rightarrow> 's \<Rightarrow> bucket_ref list \<Rightarrow> rat \<Rightarrow> rat \<Rightarrow> bool" where
  "enough rd now st refs t u \<longleftrightarrow> (\<forall>r\<in>set refs. \<not> short t u (view rd now st r))"

lemma enough_iff:
  "enough rd now st refs t u \<longleftrightarrow>
     (\<forall>r\<in>set refs.
        (0 < TokenLimit (Limits r) \<longrightarrow> t \<le> computed_tokens (view rd now st r)) \<and>
        (0 < DollarLimit (Limits r) \<longrightarrow> u \<le> computed_usd (view rd now st r)))"
  by (auto simp: enough_def short_def not_less)

text \<open>The balances phase 3 leaves: what the view had, less the request.\<close>

abbreviation left_tokens :: "'s redis \<Rightarrow> rat \<Rightarrow> 's \<Rightarrow> rat \<Rightarrow> bucket_ref \<Rightarrow> rat" where
  "left_tokens rd now st t r \<equiv> f64_sub (computed_tokens (view rd now st r)) t"

abbreviation left_usd :: "'s redis \<Rightarrow> rat \<Rightarrow> 's \<Rightarrow> rat \<Rightarrow> bucket_ref \<Rightarrow> rat" where
  "left_usd rd now st u r \<equiv> f64_sub (computed_usd (view rd now st r)) u"

definition committed ::
  "'s redis \<Rightarrow> rat \<Rightarrow> enforcer \<Rightarrow> bucket_ref list \<Rightarrow> rat \<Rightarrow> rat \<Rightarrow> 's \<Rightarrow> 's" where
  "committed rd now e refs t u st =
     fst (phase3 rd now (f64_of_int (stateTTL e)) t u (zip (map RefKey refs) (map (view rd now st) refs))
            st None None)"

definition min_left :: "(bucket_ref \<Rightarrow> bool) \<Rightarrow> (bucket_ref \<Rightarrow> rat) \<Rightarrow> bucket_ref list \<Rightarrow> rat" where
  "min_left P v refs =
     (case fold (\<lambda>r m. keep_min (P r) m (v r)) refs None of None \<Rightarrow> 0 | Some x \<Rightarrow> x)"

lemma fold_zip_map:
  "fold (\<lambda>kc. F (snd kc)) (zip (map f xs) (map g xs)) m = fold (\<lambda>x. F (g x)) xs m"
  by (induction xs arbitrary: m) simp_all

lemma lua_script_refs:
  "lua_script rd tm (map RefKey refs) (script_argv e refs t u) st =
    (let now = lua_now tm; cs = map (view rd now st) refs in
     if t < 0 \<or> u < 0 then (Inr [0, - 1, 0, 0], st)
     else case find_index (short (f64_of_int t) u) cs of
       Some j \<Rightarrow> (Inr [0, int (Suc j), int_reply rd (computed_tokens (cs ! j)),
                       int_reply rd (computed_usd (cs ! j))], st)
     | None \<Rightarrow> (Inr [1, 0,
           int_reply rd (min_left (\<lambda>r. 0 < TokenLimit (Limits r)) (left_tokens rd now st (f64_of_int t)) refs),
           int_reply rd (min_left (\<lambda>r. 0 < DollarLimit (Limits r)) (left_usd rd now st u) refs)],
         committed rd now e refs (f64_of_int t) u st))"
proof -
  define now where "now = lua_now tm"
  define kcs where "kcs = zip (map RefKey refs) (map (view rd now st) refs)"
  obtain st' mt mu where p3:
    "phase3 rd now (f64_of_int (stateTTL e)) (f64_of_int t) u kcs st None None = (st', mt, mu)"
    using prod_cases3 by blast
  have st': "st' = committed rd now e refs (f64_of_int t) u st"
    using p3 by (simp add: committed_def kcs_def)
  have mins: "(mt, mu) =
      (fold (\<lambda>r m. keep_min (0 < TokenLimit (Limits r)) m (left_tokens rd now st (f64_of_int t) r)) refs None,
       fold (\<lambda>r m. keep_min (0 < DollarLimit (Limits r)) m (left_usd rd now st u r)) refs None)"
    using phase3_mins [of rd now "f64_of_int (stateTTL e)" "f64_of_int t" u kcs st None None]
    by (simp add: p3 [unfolded kcs_def] kcs_def
        fold_zip_map [where F = "\<lambda>c m. keep_min (0 < token_limit c) m (f64_sub (computed_tokens c) (f64_of_int t))"]
        fold_zip_map [where F = "\<lambda>c m. keep_min (0 < usd_limit c) m (f64_sub (computed_usd c) u)"])
  show ?thesis
    using p3 mins
    by (simp add: lua_script_def Let_def phase1_script_argv phase2_find f64_of_int_neg_iff min_left_def
        st' kcs_def flip: now_def split: option.split)
qed

text \<open>Connections on which the script runs: the digest is known or \<open>NOSCRIPT\<close> sends the client to \<open>EVAL\<close>.\<close>

definition reachable_backend :: "net \<Rightarrow> enforcer \<Rightarrow> bool" where
  "reachable_backend net e \<longleftrightarrow> resent net = [] \<and>
     (if sha e \<noteq> [] then
        (case evalsha_fault net of
           None \<Rightarrow> True
         | Some (err, executed) \<Rightarrow> isNoScriptErr err \<and> \<not> executed \<and> eval_fault net = None)
      else eval_fault net = None)"

lemma eval_reachable:
  assumes "reachable_backend net e" "script st = (Inr res, st')"
  shows "\<exists>e'. eval net e script st = (Inr res, e', st') \<and> stateTTL e' = stateTTL e"
  using assms
  by (auto simp: reachable_backend_def eval_def run_cmd_def eval_fallback_def LoadScript_def
      split: if_splits option.splits)

lemma lua_script_Inr: "\<exists>res st'. lua_script rd tm (map RefKey refs) (script_argv e refs t u) st = (Inr res, st')"
  by (simp add: lua_script_refs Let_def split: option.split)

text \<open>The three outcomes of a call that reaches the server.\<close>

lemma CheckAndDecrement_cases:
  assumes "refs \<noteq> []" "reachable_backend net e"
  obtains (Invalid) e' where "t < 0 \<or> u < 0"
      "CheckAndDecrement rd net tm e refs t u st =
         (Inr \<lparr>Allowed = False, Reason = ReasonInvalidRequest, FailedScope = NoScope,
               RemainingTokens = 0, RemainingUSD = 0\<rparr>, e', st)"
  | (Short) e' j where "0 \<le> t" "0 \<le> u" "j < length refs"
      "short (f64_of_int t) u (view rd (lua_now tm) st (refs ! j))"
      "\<forall>i<j. \<not> short (f64_of_int t) u (view rd (lua_now tm) st (refs ! i))"
      "CheckAndDecrement rd net tm e refs t u st =
         (Inr \<lparr>Allowed = False, Reason = scopeReason (Scope (refs ! j)), FailedScope = Scope (refs ! j),
               RemainingTokens = f64_of_int (int_reply rd (computed_tokens (view rd (lua_now tm) st (refs ! j)))),
               RemainingUSD = f64_of_int (int_reply rd (computed_usd (view rd (lua_now tm) st (refs ! j))))\<rparr>,
          e', st)"
  | (Enough) e' where "0 \<le> t" "0 \<le> u" "enough rd (lua_now tm) st refs (f64_of_int t) u"
      "CheckAndDecrement rd net tm e refs t u st =
         (Inr \<lparr>Allowed = True, Reason = ReasonNone, FailedScope = NoScope,
               RemainingTokens = f64_of_int (int_reply rd
                 (min_left (\<lambda>r. 0 < TokenLimit (Limits r)) (left_tokens rd (lua_now tm) st (f64_of_int t)) refs)),
               RemainingUSD = f64_of_int (int_reply rd
                 (min_left (\<lambda>r. 0 < DollarLimit (Limits r)) (left_usd rd (lua_now tm) st u) refs))\<rparr>,
          e', committed rd (lua_now tm) e refs (f64_of_int t) u st)"
proof -
  let ?script = "lua_script rd tm (map RefKey refs) (script_argv e refs t u)"
  define cs where "cs = map (view rd (lua_now tm) st) refs"
  obtain res st' where run: "?script st = (Inr res, st')" using lua_script_Inr [of rd tm refs e t u st] by blast
  then obtain e' where call: "CheckAndDecrement rd net tm e refs t u st = (decode_reply (scan_float rd) refs (VArr (map VInt res)), e', st')"
    using eval_reachable [OF assms(2), where script = ?script and st = st and res = res and st' = st'] assms
    by (auto simp: CheckAndDecrement_def reachable_backend_def)
  note res = lua_script_refs [of rd tm refs e t u st, unfolded run Let_def, folded cs_def]
  consider "t < 0 \<or> u < 0" | j where "0 \<le> t" "0 \<le> u" "find_index (short (f64_of_int t) u) cs = Some j"
    | "0 \<le> t" "0 \<le> u" "find_index (short (f64_of_int t) u) cs = None"
    by (meson not_le option.exhaust)
  then show ?thesis
  proof cases
    case 1
    then show ?thesis using res call by (intro Invalid [of e']) (auto simp: decode_reply_def Let_def)
  next
    case (2 j)
    note j = find_index_SomeD [OF 2(3)]
    then have "j < length refs" by (simp add: cs_def)
    with 2 j show ?thesis using res call
      by (intro Short [of j e']) (auto simp: decode_reply_def cs_def Let_def)
  next
    case 3
    then have "enough rd (lua_now tm) st refs (f64_of_int t) u"
      using find_index_None_iff [of "short (f64_of_int t) u" cs] by (simp add: enough_def cs_def)
    with 3 show ?thesis using res call
      by (intro Enough [of e']) (auto simp: decode_reply_def Let_def)
  qed
qed


text \<open>Connections on which a call runs the script at most once: the client has not sent a command again,
  and Redis answers \<open>NOSCRIPT\<close> instead of running a script, never after running it.\<close>

definition runs_once :: "net \<Rightarrow> bool" where
  "runs_once net \<longleftrightarrow> resent net = [] \<and>
     (case evalsha_fault net of None \<Rightarrow> True | Some (err, executed) \<Rightarrow> isNoScriptErr err \<longrightarrow> \<not> executed)"

lemma unreachable_call:
  assumes "runs_once net" "\<not> reachable_backend net e" "refs \<noteq> []"
  shows "\<exists>err e' st'. CheckAndDecrement rd net tm e refs t u st = (Inl (ErrBackendUnavailable err), e', st') \<and>
    (st' = st \<or> st' = snd (lua_script rd tm (map RefKey refs) (script_argv e refs t u) st))"
  using assms
  by (auto simp: runs_once_def reachable_backend_def CheckAndDecrement_def eval_def run_cmd_def
      eval_fallback_def split: if_splits option.splits)

text \<open>What a call can do to the store, whatever the connection does.\<close>

lemma check_effect:
  assumes "runs_once net" "CheckAndDecrement rd net tm e refs t u st = (res, e', st')"
  shows "st' = st \<and> (\<forall>d. res = Inr d \<longrightarrow> \<not> Allowed d) \<or>
    0 \<le> t \<and> 0 \<le> u \<and> enough rd (lua_now tm) st refs (f64_of_int t) u \<and>
    st' = committed rd (lua_now tm) e refs (f64_of_int t) u st"
proof -
  consider "refs = []" | "refs \<noteq> []" "reachable_backend net e" | "refs \<noteq> []" "\<not> reachable_backend net e"
    by blast
  then show ?thesis
  proof cases
    case 1
    then show ?thesis using assms(2) by (auto simp: CheckAndDecrement_def)
  next
    case 2
    show ?thesis
      by (rule CheckAndDecrement_cases [OF 2, of t u rd tm st]) (simp_all add: assms(2))
  next
    case 3
    from unreachable_call [OF assms(1) 3(2,1), of rd tm t u st] assms(2) obtain err where
      res: "res = Inl (ErrBackendUnavailable err)"
      and st': "st' = st \<or> st' = snd (lua_script rd tm (map RefKey refs) (script_argv e refs t u) st)" by auto
    from find_index_None_iff [of "short (f64_of_int t) u" "map (view rd (lua_now tm) st) refs"] st' res
    show ?thesis
      by (auto simp: lua_script_refs Let_def enough_def split: if_splits option.splits)
  qed
qed


section \<open>What a committed check leaves behind\<close>

lemma map_of_zip_refs:
  assumes "distinct (map RefKey refs)" "r \<in> set refs"
  shows "map_of (zip (map RefKey refs) (map g refs)) (RefKey r) = Some (g r)"
  using assms
proof (induction refs)
  case (Cons a refs)
  show ?case
  proof (cases "r = a")
    case False
    then have "r \<in> set refs" "RefKey a \<noteq> RefKey r" using Cons.prems by auto
    with Cons show ?thesis by simp
  qed simp
qed simp

lemma committed_hget:
  assumes "redis_laws rd" "distinct (map RefKey refs)"
  shows "hget rd (committed rd now e refs t u st) k f =
    (case map_of (zip (map RefKey refs) (map (view rd now st) refs)) k of
       None \<Rightarrow> hget rd st k f
     | Some c \<Rightarrow> (case written rd now t u c f of None \<Rightarrow> hget rd st k f | Some v \<Rightarrow> Some v))"
  unfolding committed_def using assms by (intro phase3_hget) (simp_all add: map_fst_zip)

lemma committed_bucket:
  assumes "redis_laws rd" "distinct (map RefKey refs)" "r \<in> set refs"
  shows "hget rd (committed rd now e refs t u st) (RefKey r) ''tokens_remaining'' =
           Some (dec14 (left_tokens rd now st t r))"
    and "hget rd (committed rd now e refs t u st) (RefKey r) ''usd_remaining'' =
           Some (dec14 (left_usd rd now st u r))"
    and "hget rd (committed rd now e refs t u st) (RefKey r) ''last_refill_ts'' = Some (dec14 now)"
  by (simp_all add: committed_hget [OF assms(1,2)] map_of_zip_refs [OF assms(2,3)] written_def)

lemma committed_other:
  assumes "redis_laws rd" "distinct (map RefKey refs)" "k \<notin> RefKey ` set refs"
  shows "hget rd (committed rd now e refs t u st) k f = hget rd st k f"
proof -
  have "map_of (zip (map RefKey refs) (map (view rd now st) refs)) k = None"
    using assms(3) unfolding map_of_eq_None_iff by (simp flip: set_map add: map_fst_zip)
  then show ?thesis unfolding committed_hget [OF assms(1,2)] by (simp only: option.case)
qed

text \<open>A view reads only its own key.\<close>

lemma view_cong:
  "(\<And>f. hget rd st' (RefKey r) f = hget rd st (RefKey r) f) \<Longrightarrow> view rd now st' r = view rd now st r"
  by (simp add: view_def phase1_key_def)

lemma left_tokens_bounds:
  assumes "0 \<le> t" "t \<le> computed_tokens (view rd now st r)" "0 < TokenLimit (Limits r)"
  shows "0 \<le> left_tokens rd now st t r" and "left_tokens rd now st t r \<le> f64_of_int (TokenLimit (Limits r))"
proof -
  show "0 \<le> left_tokens rd now st t r"
    unfolding f64_sub_def by (rule f64.r_sub_nonneg [OF assms(2)])
  have "computed_tokens (view rd now st r) - t \<le> f64_of_int (TokenLimit (Limits r))"
    using view_tokens_le [OF assms(3), of rd now st] assms(1) by linarith
  then show "left_tokens rd now st t r \<le> f64_of_int (TokenLimit (Limits r))"
    unfolding f64_sub_def by (rule f64.r_le_fixed) simp
qed

lemma left_usd_bounds:
  assumes "0 \<le> u" "u \<le> computed_usd (view rd now st r)" "0 < DollarLimit (Limits r)"
    "f64 (DollarLimit (Limits r)) = DollarLimit (Limits r)"
  shows "0 \<le> left_usd rd now st u r" and "left_usd rd now st u r \<le> DollarLimit (Limits r)"
proof -
  show "0 \<le> left_usd rd now st u r"
    unfolding f64_sub_def by (rule f64.r_sub_nonneg [OF assms(2)])
  have "computed_usd (view rd now st r) - u \<le> DollarLimit (Limits r)"
    using view_usd_le [OF assms(3), of rd now st] assms(1) by linarith
  then show "left_usd rd now st u r \<le> DollarLimit (Limits r)"
    unfolding f64_sub_def by (rule f64.r_le_fixed [OF _ assms(4)])
qed

section \<open>What a reconciliation changes\<close>

lemma hget_run_incr:
  assumes "redis_laws rd"
  shows "hget rd (run_incr rd c st) k f =
    (if k = fst c \<and> f = fst (snd c)
     then Some (incr_sum rd (case hget rd st k f of Some v \<Rightarrow> v | None \<Rightarrow> 0) (snd (snd c)))
     else hget rd st k f)"
  by (auto simp: run_incr_def hget_hincrbyfloat [OF assms])

lemma hget_run_incrs_other:
  assumes "redis_laws rd" "\<forall>c\<in>set cmds. \<not> (fst c = k \<and> fst (snd c) = f)"
  shows "hget rd (fold (run_incr rd) cmds st) k f = hget rd st k f"
  using assms(2) by (induction cmds arbitrary: st) (auto simp: hget_run_incr [OF assms(1)])

text \<open>The increment a reconciliation makes to one field of a reference.\<close>

definition delta_of :: "rat \<Rightarrow> rat \<Rightarrow> bucket_ref \<Rightarrow> field \<Rightarrow> rat" where
  "delta_of dt du r f =
     (if f = ''tokens_remaining'' \<and> 0 < TokenLimit (Limits r) then dt
      else if f = ''usd_remaining'' \<and> 0 < DollarLimit (Limits r) then du else 0)"

lemma hget_reconcile_cmds:
  assumes "redis_laws rd"
  shows "hget rd (fold (run_incr rd) (reconcile_cmds dt du r) st) k f =
    (if k = RefKey r \<and> delta_of dt du r f \<noteq> 0
     then Some (incr_sum rd (case hget rd st k f of Some v \<Rightarrow> v | None \<Rightarrow> 0) (delta_of dt du r f))
     else hget rd st k f)"
  by (auto simp: reconcile_cmds_def hget_run_incr [OF assms] delta_of_def)

lemma hget_reconcile_all:
  assumes "redis_laws rd" "distinct (map RefKey refs)"
  shows "hget rd (fold (run_incr rd) (concat (map (reconcile_cmds dt du) refs)) st) k f =
    (case find (\<lambda>r. RefKey r = k) refs of
       None \<Rightarrow> hget rd st k f
     | Some r \<Rightarrow>
         (if delta_of dt du r f \<noteq> 0
          then Some (incr_sum rd (case hget rd st k f of Some v \<Rightarrow> v | None \<Rightarrow> 0) (delta_of dt du r f))
          else hget rd st k f))"
  using assms(2)
proof (induction refs arbitrary: st)
  case (Cons r refs)
  have "find (\<lambda>r'. RefKey r' = RefKey r) refs = None"
    using Cons.prems by (auto simp: find_None_iff image_iff)
  with Cons show ?case
    by (cases "k = RefKey r") (auto simp: hget_reconcile_cmds [OF assms(1)] split: option.split)
qed simp

lemma find_ref:
  "distinct (map RefKey refs) \<Longrightarrow> r \<in> set refs \<Longrightarrow> find (\<lambda>r'. RefKey r' = RefKey r) refs = Some r"
  by (induction refs) (auto simp: image_iff)

lemma Reconcile_ok_hget:
  assumes "redis_laws rd" "distinct (map RefKey refs)" "r \<in> set refs"
    and "Reconcile rd no_fault refs et eu act au st = (err, st')"
  defines "dt \<equiv> f64_of_int (wrap64 (et - act))" and "du \<equiv> f64_sub eu au"
  shows "\<not> err" and
    "hget rd st' (RefKey r) f =
       (if delta_of dt du r f \<noteq> 0
        then Some (incr_sum rd (case hget rd st (RefKey r) f of Some v \<Rightarrow> v | None \<Rightarrow> 0) (delta_of dt du r f))
        else hget rd st (RefKey r) f)"
proof -
  show "\<not> err"
    using assms(4) by (auto simp: Reconcile_def pipe_exec_def no_fault_def Let_def split: if_splits)
  show "hget rd st' (RefKey r) f =
       (if delta_of dt du r f \<noteq> 0
        then Some (incr_sum rd (case hget rd st (RefKey r) f of Some v \<Rightarrow> v | None \<Rightarrow> 0) (delta_of dt du r f))
        else hget rd st (RefKey r) f)"
  proof (cases "dt = 0 \<and> du = 0")
    case True
    then have "st' = st" using assms(4) by (simp add: Reconcile_def Let_def dt_def du_def)
    with True show ?thesis by (simp add: delta_of_def)
  next
    case False
    then have "st' = fold (run_incr rd) (concat (map (reconcile_cmds dt du) refs)) st"
      using assms(4) by (auto simp: Reconcile_def Let_def pipe_exec_def dt_def du_def)
    then show ?thesis
      by (simp add: hget_reconcile_all [OF assms(1,2)] find_ref [OF assms(2,3)])
  qed
qed

end
