(* ===== verification/Tokenizer.thy ===== *)
theory Tokenizer
  imports Prelude
begin

text \<open>
  The pre-flight token estimate of \<open>gateway/internal/provider/tokenizer.go\<close> and the message
  type it reads (\<open>types.go\<close>): decoding a byte string into runes, the run-counting loop of
  \<open>EstimateTokens\<close>, the per-message framing of \<open>EstimateMessagesTokens\<close>, and
  \<open>NormalizeModel\<close>. The lemmas bound the estimate from both sides, say when it is zero and
  show that it is additive over white space; the counters are sums bounded by the number of
  bytes, so they never reach the 64-bit limit and are kept as \<open>nat\<close>.
\<close>

section \<open>Runes\<close>

text \<open>
  \<open>[]rune(s)\<close> decodes UTF-8; an invalid sequence gives U+FFFD and consumes one byte.
  \<open>decode_rune\<close> is the standard library's decoder: the rune and the number of bytes read.
\<close>

definition cont_byte :: "nat \<Rightarrow> bool" where
  "cont_byte b \<longleftrightarrow> 128 \<le> b \<and> b \<le> 191"

definition second_ok :: "nat \<Rightarrow> nat \<Rightarrow> bool" where
  "second_ok b0 b1 \<longleftrightarrow>
     (if b0 = 224 then 160 \<le> b1 \<and> b1 \<le> 191
      else if b0 = 237 then 128 \<le> b1 \<and> b1 \<le> 159
      else if b0 = 240 then 144 \<le> b1 \<and> b1 \<le> 191
      else if b0 = 244 then 128 \<le> b1 \<and> b1 \<le> 143
      else cont_byte b1)"

fun decode_rune :: "nat list \<Rightarrow> nat \<times> nat" where
  "decode_rune [] = (65533, 0)"
| "decode_rune (b0 # bs) =
     (if b0 < 128 then (b0, 1)
      else if 194 \<le> b0 \<and> b0 \<le> 223 then
        (case bs of
           b1 # _ \<Rightarrow> if second_ok b0 b1 then (b0 mod 32 * 64 + b1 mod 64, 2) else (65533, 1)
         | _ \<Rightarrow> (65533, 1))
      else if 224 \<le> b0 \<and> b0 \<le> 239 then
        (case bs of
           b1 # b2 # _ \<Rightarrow>
             if second_ok b0 b1 \<and> cont_byte b2
             then (b0 mod 16 * 4096 + b1 mod 64 * 64 + b2 mod 64, 3) else (65533, 1)
         | _ \<Rightarrow> (65533, 1))
      else if 240 \<le> b0 \<and> b0 \<le> 244 then
        (case bs of
           b1 # b2 # b3 # _ \<Rightarrow>
             if second_ok b0 b1 \<and> cont_byte b2 \<and> cont_byte b3
             then (b0 mod 8 * 262144 + b1 mod 64 * 4096 + b2 mod 64 * 64 + b3 mod 64, 4)
             else (65533, 1)
         | _ \<Rightarrow> (65533, 1))
      else (65533, 1))"

fun decode_bytes :: "nat list \<Rightarrow> nat list" where
  "decode_bytes [] = []"
| "decode_bytes (b # bs) = (case decode_rune (b # bs) of (r, w) \<Rightarrow> r # decode_bytes (drop (w - 1) bs))"

definition runes_of :: "string \<Rightarrow> nat list" where
  "runes_of s = decode_bytes (map of_char s)"

lemma length_decode_bytes: "length (decode_bytes bs) \<le> length bs"
proof (induction bs rule: length_induct)
  case (1 bs)
  show ?case
  proof (cases bs)
    case Nil
    then show ?thesis by simp
  next
    case (Cons b bs')
    obtain r w where rw: "decode_rune bs = (r, w)" by fastforce
    have "length (drop (w - 1) bs') < length bs" using Cons by simp
    with 1 have "length (decode_bytes (drop (w - 1) bs')) \<le> length (drop (w - 1) bs')" by blast
    then show ?thesis using Cons rw by simp
  qed
qed

lemma length_runes_of: "length (runes_of s) \<le> length s"
  using length_decode_bytes [of "map of_char s"] by (simp add: runes_of_def)

lemma decode_bytes_ascii: "\<forall>b\<in>set bs. b < 128 \<Longrightarrow> decode_bytes bs = bs"
  by (induction bs) simp_all

lemma runes_of_Nil [simp]: "runes_of [] = []"
  by (simp add: runes_of_def)

lemma decode_bytes_eq_Nil_iff [simp]: "decode_bytes bs = [] \<longleftrightarrow> bs = []"
  by (cases bs) (auto split: prod.splits)

lemma runes_of_eq_Nil_iff [simp]: "runes_of s = [] \<longleftrightarrow> s = []"
  by (simp add: runes_of_def)

section \<open>Classes of runes\<close>

text \<open>
  \<open>unicode.IsLetter\<close> and \<open>unicode.IsDigit\<close> are tables of the Unicode version the compiler ships
  and are parameters here; \<open>unicode.IsSpace\<close> is the fixed set of its documentation.
\<close>

record unicode =
  is_letter :: "nat \<Rightarrow> bool"
  is_digit :: "nat \<Rightarrow> bool"

definition is_space :: "nat \<Rightarrow> bool" where
  "is_space r \<longleftrightarrow>
     (9 \<le> r \<and> r \<le> 13) \<or> r = 32 \<or> r = 133 \<or> r = 160 \<or> r = 5760 \<or> (8192 \<le> r \<and> r \<le> 8202) \<or>
     r = 8232 \<or> r = 8233 \<or> r = 8239 \<or> r = 8287 \<or> r = 12288"

definition is_word :: "unicode \<Rightarrow> nat \<Rightarrow> bool" where
  "is_word u r \<longleftrightarrow> is_letter u r \<or> is_digit u r"

definition is_punct :: "unicode \<Rightarrow> nat \<Rightarrow> bool" where
  "is_punct u r \<longleftrightarrow> \<not> is_space r \<and> \<not> is_letter u r \<and> \<not> is_digit u r"

section \<open>EstimateTokens\<close>

text \<open>
  The loop over the runes: \<open>i\<close> and \<open>runes\<close> are the remaining list, \<open>tokens\<close> the accumulator.
  A word run counts one token per four runes and at least one, a punctuation run one per two
  runes rounded up.
\<close>

function est_loop :: "unicode \<Rightarrow> nat \<Rightarrow> nat list \<Rightarrow> nat" where
  "est_loop u tokens [] = tokens"
| "est_loop u tokens (r # rs) =
     (if is_space r then est_loop u tokens rs
      else if is_word u r then
        (let wordLen = length (takeWhile (is_word u) (r # rs));
             t = wordLen div 4;
             t = (if t < 1 then 1 else t)
         in est_loop u (tokens + t) (dropWhile (is_word u) (r # rs)))
      else
        (let runLen = length (takeWhile (is_punct u) (r # rs));
             t = (runLen + 1) div 2;
             t = (if t < 1 then 1 else t)
         in est_loop u (tokens + t) (dropWhile (is_punct u) (r # rs))))"
  by pat_completeness auto
termination
  by (relation "measure (\<lambda>(u, t, rs). length rs)")
    (auto simp: is_word_def is_punct_def less_Suc_eq_le length_dropWhile_le)

definition EstimateTokens :: "unicode \<Rightarrow> string \<Rightarrow> nat" where
  "EstimateTokens u s = (if s = [] then 0 else est_loop u 0 (runes_of s))"

text \<open>The tokens one run is worth, and the estimate without the accumulator.\<close>

definition word_tokens :: "nat \<Rightarrow> nat" where
  "word_tokens n = max 1 (n div 4)"

definition punct_tokens :: "nat \<Rightarrow> nat" where
  "punct_tokens n = max 1 ((n + 1) div 2)"

declare est_loop.simps [simp del]

lemma est_loop_Nil [simp]: "est_loop u t [] = t"
  by (simp add: est_loop.simps)

lemma est_loop_space [simp]: "is_space r \<Longrightarrow> est_loop u t (r # rs) = est_loop u t rs"
  by (simp add: est_loop.simps)

lemma est_loop_word:
  "\<not> is_space r \<Longrightarrow> is_word u r \<Longrightarrow> est_loop u t (r # rs) =
     est_loop u (t + word_tokens (Suc (length (takeWhile (is_word u) rs)))) (dropWhile (is_word u) rs)"
  by (simp add: est_loop.simps word_tokens_def Let_def max_def)

lemma est_loop_punct:
  "\<not> is_space r \<Longrightarrow> \<not> is_word u r \<Longrightarrow> est_loop u t (r # rs) =
     est_loop u (t + punct_tokens (Suc (length (takeWhile (is_punct u) rs)))) (dropWhile (is_punct u) rs)"
  by (simp add: est_loop.simps punct_tokens_def is_word_def is_punct_def Let_def max_def)


text \<open>
  Induction over the runs of the text: a white-space rune, a maximal word run or a maximal
  punctuation run, then the rest.
\<close>

lemma run_induct [case_names Nil space word punct]:
  assumes "P []"
    and "\<And>r rs. is_space r \<Longrightarrow> P rs \<Longrightarrow> P (r # rs)"
    and "\<And>r rs. \<not> is_space r \<Longrightarrow> is_word u r \<Longrightarrow> P (dropWhile (is_word u) rs) \<Longrightarrow> P (r # rs)"
    and "\<And>r rs. \<not> is_space r \<Longrightarrow> \<not> is_word u r \<Longrightarrow> P (dropWhile (is_punct u) rs) \<Longrightarrow> P (r # rs)"
  shows "P rs"
proof (induction rs rule: length_induct)
  case (1 rs)
  have less: "length (dropWhile Q xs) < Suc (length xs)" for Q and xs :: "nat list"
    by (simp add: less_Suc_eq_le length_dropWhile_le)
  show ?case
  proof (cases rs)
    case Nil
    then show ?thesis using assms(1) by simp
  next
    case (Cons r rs')
    then show ?thesis using assms(2-4) [of r rs'] 1 less by auto
  qed
qed

lemma est_loop_add: "est_loop u (t + k) rs = t + est_loop u k rs"
  by (induction rs arbitrary: t k rule: run_induct [of _ u])
    (simp_all add: est_loop_word est_loop_punct add.assoc)

lemma est_loop_acc: "est_loop u t rs = t + est_loop u 0 rs"
  using est_loop_add [of u t 0 rs] by simp

lemma word_tokens_bounds: "1 \<le> word_tokens n \<and> n \<le> 7 * word_tokens n \<and> (0 < n \<longrightarrow> word_tokens n \<le> n)"
  by (auto simp: word_tokens_def max_def)

lemma punct_tokens_bounds: "1 \<le> punct_tokens n \<and> n \<le> 2 * punct_tokens n \<and> (0 < n \<longrightarrow> punct_tokens n \<le> n)"
  by (auto simp: punct_tokens_def max_def)

lemma length_takeWhile_dropWhile: "length (takeWhile P xs) + length (dropWhile P xs) = length xs"
  by (metis length_append takeWhile_dropWhile_id)

lemma est_loop_le: "est_loop u 0 rs \<le> length rs"
proof (induction rs rule: run_induct [of _ u])
  case (word r rs)
  have "word_tokens (Suc (length (takeWhile (is_word u) rs))) \<le> Suc (length (takeWhile (is_word u) rs))"
    using word_tokens_bounds by blast
  with word length_takeWhile_dropWhile [of "is_word u" rs] show ?case
    by (simp add: est_loop_word est_loop_acc [of _ "word_tokens _"])
next
  case (punct r rs)
  have "punct_tokens (Suc (length (takeWhile (is_punct u) rs))) \<le> Suc (length (takeWhile (is_punct u) rs))"
    using punct_tokens_bounds by blast
  with punct length_takeWhile_dropWhile [of "is_punct u" rs] show ?case
    by (simp add: est_loop_punct est_loop_acc [of _ "punct_tokens _"])
qed simp_all

text \<open>The runes that are not white space, which the estimate covers at no more than seven per token.\<close>

definition solid :: "nat list \<Rightarrow> nat" where
  "solid rs = length (filter (\<lambda>r. \<not> is_space r) rs)"

lemma solid_simps [simp]:
  "solid [] = 0" "is_space r \<Longrightarrow> solid (r # rs) = solid rs"
  "\<not> is_space r \<Longrightarrow> solid (r # rs) = Suc (solid rs)"
  by (simp_all add: solid_def)

lemma solid_run: "solid rs \<le> length (takeWhile P rs) + solid (dropWhile P rs)"
proof -
  have "solid rs = solid (takeWhile P rs) + solid (dropWhile P rs)"
    by (simp add: solid_def flip: length_append filter_append)
  moreover have "solid (takeWhile P rs) \<le> length (takeWhile P rs)"
    by (simp add: solid_def)
  ultimately show ?thesis by simp
qed

lemma est_loop_ge: "solid rs \<le> 7 * est_loop u 0 rs"
proof (induction rs rule: run_induct [of _ u])
  case (word r rs)
  have "Suc (length (takeWhile (is_word u) rs)) \<le> 7 * word_tokens (Suc (length (takeWhile (is_word u) rs)))"
    using word_tokens_bounds by blast
  with word solid_run [of rs "is_word u"] show ?case
    by (simp add: est_loop_word est_loop_acc [of _ "word_tokens _"])
next
  case (punct r rs)
  have "Suc (length (takeWhile (is_punct u) rs)) \<le> 2 * punct_tokens (Suc (length (takeWhile (is_punct u) rs)))"
    using punct_tokens_bounds by blast
  with punct solid_run [of rs "is_punct u"] show ?case
    by (simp add: est_loop_punct est_loop_acc [of _ "punct_tokens _"])
qed simp_all

lemma dropWhile_append_stop: "\<not> P y \<Longrightarrow> dropWhile P (xs @ y # ys) = dropWhile P xs @ y # ys"
  by (induction xs) auto

lemma takeWhile_append_stop: "\<not> P y \<Longrightarrow> takeWhile P (xs @ y # ys) = takeWhile P xs"
  by (induction xs) auto

lemma est_loop_space_split:
  assumes "is_space sp" "\<not> is_word u sp"
  shows "est_loop u 0 (xs @ sp # ys) = est_loop u 0 xs + est_loop u 0 ys"
proof (induction xs rule: run_induct [of _ u])
  case (word r rs)
  then show ?case using assms
    by (simp add: est_loop_word takeWhile_append_stop dropWhile_append_stop est_loop_acc [of _ "word_tokens _"])
next
  case (punct r rs)
  then show ?case using assms
    by (simp add: est_loop_punct takeWhile_append_stop dropWhile_append_stop is_punct_def
        est_loop_acc [of _ "punct_tokens _"])
qed (use assms in simp_all)

lemma decode_rune_before_ascii:
  assumes "sp < 128"
  shows "decode_rune (x # a @ sp # b) = decode_rune (x # a) \<and> snd (decode_rune (x # a)) \<le> Suc (length a)
    \<and> 1 \<le> snd (decode_rune (x # a))"
proof -
  have no: "\<not> second_ok b0 sp" "\<not> cont_byte sp" for b0
    using assms by (auto simp: second_ok_def cont_byte_def)
  consider "a = []" | y where "a = [y]" | y z where "a = [y, z]" | y z v a' where "a = y # z # v # a'"
    by (metis list.exhaust)
  then show ?thesis by cases (simp_all add: no split: list.split)
qed

lemma decode_bytes_ascii_split:
  assumes "sp < 128"
  shows "decode_bytes (a @ sp # b) = decode_bytes a @ sp # decode_bytes b"
proof (induction a rule: length_induct)
  case (1 a)
  show ?case
  proof (cases a)
    case Nil
    then show ?thesis using assms by simp
  next
    case (Cons x a')
    obtain r w where rw: "decode_rune (x # a') = (r, w)" by fastforce
    with decode_rune_before_ascii [OF assms, of x a' b]
    have "decode_rune (x # a' @ sp # b) = (r, w)" and w: "w - 1 \<le> length a'" by auto
    moreover have "length (drop (w - 1) a') < length a" using Cons by simp
    with 1 have "decode_bytes (drop (w - 1) a' @ sp # b) = decode_bytes (drop (w - 1) a') @ sp # decode_bytes b"
      by blast
    ultimately show ?thesis using Cons rw by simp
  qed
qed


section \<open>Messages\<close>

record message =
  Role :: string
  Content :: string

definition message_tokens :: "unicode \<Rightarrow> message \<Rightarrow> nat" where
  "message_tokens u m = EstimateTokens u (Content m) + 4"

definition EstimateMessagesTokens :: "unicode \<Rightarrow> string \<Rightarrow> message list \<Rightarrow> nat" where
  "EstimateMessagesTokens u system messages =
     (let total = (if system \<noteq> [] then EstimateTokens u system + 4 else 0);
          total = fold (\<lambda>m total. total + (EstimateTokens u (Content m) + 4)) messages total
      in total + 3)"

lemma EstimateTokens_alt: "EstimateTokens u s = est_loop u 0 (runes_of s)"
  by (simp add: EstimateTokens_def)

lemma EstimateTokens_le: "EstimateTokens u s \<le> length s"
  using est_loop_le [of u "runes_of s"] length_runes_of [of s] by (simp add: EstimateTokens_alt)

lemma EstimateTokens_ge: "solid (runes_of s) \<le> 7 * EstimateTokens u s"
  using est_loop_ge by (simp add: EstimateTokens_alt)

lemma est_loop_all_space: "solid rs = 0 \<Longrightarrow> est_loop u t rs = t"
  by (induction rs) (auto simp: solid_def split: if_splits)

lemma EstimateTokens_0_iff: "EstimateTokens u s = 0 \<longleftrightarrow> (\<forall>r\<in>set (runes_of s). is_space r)"
proof
  assume "EstimateTokens u s = 0"
  then have "solid (runes_of s) = 0" using EstimateTokens_ge [of s u] by simp
  then show "\<forall>r\<in>set (runes_of s). is_space r" by (simp add: solid_def filter_empty_conv)
next
  assume "\<forall>r\<in>set (runes_of s). is_space r"
  then have "solid (runes_of s) = 0" by (simp add: solid_def filter_empty_conv)
  then show "EstimateTokens u s = 0" by (simp add: EstimateTokens_alt est_loop_all_space)
qed

lemma EstimateTokens_space_split:
  assumes "\<not> is_word u 32"
  shows "EstimateTokens u (a @ CHR '' '' # b) = EstimateTokens u a + EstimateTokens u b"
proof -
  have "runes_of (a @ CHR '' '' # b) = runes_of a @ 32 # runes_of b"
    using decode_bytes_ascii_split [of 32] by (simp add: runes_of_def)
  moreover have "is_space 32" by (simp add: is_space_def)
  ultimately show ?thesis using est_loop_space_split [OF _ assms] by (simp add: EstimateTokens_alt)
qed

lemma EstimateMessagesTokens_eq:
  "EstimateMessagesTokens u system messages =
     (if system \<noteq> [] then EstimateTokens u system + 4 else 0) + (\<Sum>m\<leftarrow>messages. message_tokens u m) + 3"
  by (simp add: EstimateMessagesTokens_def Let_def message_tokens_def
      fold_add_sum_list [where f = "\<lambda>m. EstimateTokens u (Content m) + 4"])

lemma EstimateMessagesTokens_ge_3: "3 \<le> EstimateMessagesTokens u system messages"
  by (simp add: EstimateMessagesTokens_eq)

lemma sum_message_tokens_le:
  "(\<Sum>m\<leftarrow>messages. message_tokens u m) \<le> (\<Sum>m\<leftarrow>messages. length (Content m) + 4)"
  by (intro sum_list_mono) (simp add: message_tokens_def EstimateTokens_le)

lemma EstimateMessagesTokens_le:
  "EstimateMessagesTokens u system messages \<le>
     length system + 4 + (\<Sum>m\<leftarrow>messages. length (Content m) + 4) + 3"
  using sum_message_tokens_le [of u messages] EstimateTokens_le [of u system]
  by (simp add: EstimateMessagesTokens_eq)

section \<open>NormalizeModel\<close>

text \<open>Everything after the first slash, or the whole name.\<close>

fun NormalizeModel_from :: "string \<Rightarrow> string option" where
  "NormalizeModel_from [] = None"
| "NormalizeModel_from (c # cs) = (if c = CHR ''/'' then Some cs else NormalizeModel_from cs)"

definition NormalizeModel :: "string \<Rightarrow> string" where
  "NormalizeModel model = (case NormalizeModel_from model of Some rest \<Rightarrow> rest | None \<Rightarrow> model)"

lemma NormalizeModel_from_None_iff: "NormalizeModel_from m = None \<longleftrightarrow> CHR ''/'' \<notin> set m"
  by (induction m) auto

lemma NormalizeModel_bare: "CHR ''/'' \<notin> set m \<Longrightarrow> NormalizeModel m = m"
  by (simp add: NormalizeModel_def flip: NormalizeModel_from_None_iff)

lemma NormalizeModel_from_prefix:
  "CHR ''/'' \<notin> set p \<Longrightarrow> NormalizeModel_from (p @ CHR ''/'' # m) = Some m"
  by (induction p) auto

lemma NormalizeModel_prefix: "CHR ''/'' \<notin> set p \<Longrightarrow> NormalizeModel (p @ CHR ''/'' # m) = m"
  by (simp add: NormalizeModel_def NormalizeModel_from_prefix)

section \<open>Properties\<close>

text \<open>C32: the estimate of a prompt's tokens is bounded from both sides. It is never more than the
  bytes of the contents and the fixed overhead per message, and every seven characters that are
  not white space count for at least one token, so a prompt cannot be made to look free.\<close>

theorem prompt_estimate_bounds:
  "EstimateMessagesTokens u system messages
      \<le> length system + 4 + (\<Sum>m\<leftarrow>messages. length (Content m) + 4) + 3 \<and>
   solid (runes_of system) + (\<Sum>m\<leftarrow>messages. solid (runes_of (Content m)))
      \<le> 7 * EstimateMessagesTokens u system messages"
proof -
  have "(\<Sum>m\<leftarrow>messages. solid (runes_of (Content m))) \<le> (\<Sum>m\<leftarrow>messages. 7 * message_tokens u m)"
    by (intro sum_list_mono) (use EstimateTokens_ge [of _ u] in \<open>simp add: message_tokens_def trans_le_add1\<close>)
  then have "(\<Sum>m\<leftarrow>messages. solid (runes_of (Content m))) \<le> 7 * (\<Sum>m\<leftarrow>messages. message_tokens u m)"
    by (simp add: sum_list_const_mult)
  moreover have "solid (runes_of system) \<le> 7 * (if system \<noteq> [] then EstimateTokens u system + 4 else 0)"
    using EstimateTokens_ge [of system u] by auto
  ultimately show ?thesis
    using EstimateMessagesTokens_le [of u system messages] by (simp add: EstimateMessagesTokens_eq)
qed

text \<open>The token estimate is additive over blanks. Joining two texts with a space costs exactly
  the sum of their estimates, so splitting or joining messages at blanks cannot lower it.\<close>

theorem estimate_additive:
  assumes "\<not> is_word u 32"
  shows "EstimateTokens u (a @ CHR '' '' # b) = EstimateTokens u a + EstimateTokens u b"
  by (rule EstimateTokens_space_split [OF assms])

definition ascii_unicode :: unicode where
  "ascii_unicode = \<lparr>is_letter = (\<lambda>r. 65 \<le> r \<and> r \<le> 90 \<or> 97 \<le> r \<and> r \<le> 122), is_digit = (\<lambda>r. 48 \<le> r \<and> r \<le> 57)\<rparr>"

lemma estimate_additive_witness:
  "EstimateTokens ascii_unicode (''hello'' @ CHR '' '' # ''world'') =
     EstimateTokens ascii_unicode ''hello'' + EstimateTokens ascii_unicode ''world''"
  by (rule estimate_additive) (simp add: ascii_unicode_def is_word_def)

end
