(* ===== verification/Pricing.thy ===== *)
theory Pricing
  imports Floats Tokenizer
begin

text \<open>
  The pricing table and the cost functions of \<open>gateway/internal/provider/pricing.go\<close>. Prices
  are the binary64 values of the literals in the source. A Go map has no order of iteration,
  so \<open>CheaperAlternatives\<close> takes the order its loop happens to see as an argument.
\<close>

section \<open>The table\<close>

record price_per_million =
  Input :: rat
  CachedInput :: rat
  Output :: rat

definition price :: "rat \<Rightarrow> rat \<Rightarrow> rat \<Rightarrow> price_per_million" where
  "price i c out = \<lparr>Input = f64 i, CachedInput = f64 c, Output = f64 out\<rparr>"

definition pricingTable :: "(string \<times> price_per_million) list" where
  "pricingTable =
    [(''gpt-5.4'', price 2.50 0.25 15.00),
     (''gpt-5.4-mini'', price 0.75 0.075 4.50),
     (''gpt-5.4-nano'', price 0.20 0.02 1.25),
     (''gpt-5'', price 1.25 0.125 10.00),
     (''gpt-5-mini'', price 0.25 0.025 2.00),
     (''gpt-5-nano'', price 0.05 0.005 0.40),
     (''gpt-4.1'', price 2.00 0.50 8.00),
     (''gpt-4.1-mini'', price 0.40 0.10 1.60),
     (''gpt-4.1-nano'', price 0.10 0.025 0.40),
     (''gpt-4o'', price 2.50 1.25 10.00),
     (''gpt-4o-mini'', price 0.15 0.075 0.60),
     (''o1'', price 15.00 7.50 60.00),
     (''o3'', price 2.00 0.50 8.00),
     (''o3-mini'', price 1.10 0.55 4.40),
     (''o4-mini'', price 1.10 0.275 4.40),
     (''claude-fable-5-1'', price 10.00 0.25 50.00),
     (''claude-opus-5'', price 5.00 0.50 25.00),
     (''claude-sonnet-5'', price 2.00 0.20 10.00),
     (''claude-haiku-4-5'', price 1.00 0.10 5.00),
     (''mock-large'', price 5.00 0.50 25.00),
     (''mock-medium'', price 1.00 0.10 5.00),
     (''mock-small'', price 0.15 0.015 0.60)]"

definition Price :: "string \<Rightarrow> price_per_million option" where
  "Price model = map_of pricingTable (NormalizeModel model)"

section \<open>CostUSD\<close>

definition CostUSD :: "string \<Rightarrow> int \<Rightarrow> int \<Rightarrow> int \<Rightarrow> rat" where
  "CostUSD model tokensIn cachedInputTokens tokensOut =
     (case Price model of
        None \<Rightarrow> 0
      | Some p \<Rightarrow>
          (let uncached = wrap64 (tokensIn - cachedInputTokens);
               uncached = (if uncached < 0 then 0 else uncached)
           in f64_add
                (f64_add (f64_mul (f64_div (f64_of_int uncached) 1000000) (Input p))
                   (f64_mul (f64_div (f64_of_int cachedInputTokens) 1000000) (CachedInput p)))
                (f64_mul (f64_div (f64_of_int tokensOut) 1000000) (Output p))))"

section \<open>Model families and cheaper alternatives\<close>

definition modelFamily :: "string \<Rightarrow> string" where
  "modelFamily model =
     (let m = NormalizeModel model in
      if has_prefix m ''gpt-'' \<or> has_prefix m ''o1'' \<or> has_prefix m ''o3'' \<or> has_prefix m ''o4''
      then ''openai''
      else if has_prefix m ''claude-'' then ''anthropic''
      else if has_prefix m ''mock-'' then ''mock''
      else ''unknown'')"

fun cheaper_loop ::
  "string \<Rightarrow> string \<Rightarrow> price_per_million \<Rightarrow> (string \<times> price_per_million) list \<Rightarrow> string list \<Rightarrow> string list"
where
  "cheaper_loop model family base [] out = out"
| "cheaper_loop model family base ((name, p) # rest) out =
     (if name = model then cheaper_loop model family base rest out
      else if modelFamily name \<noteq> family then cheaper_loop model family base rest out
      else if Output p < Output base then cheaper_loop model family base rest (out @ [name])
      else cheaper_loop model family base rest out)"

definition CheaperAlternatives :: "(string \<times> price_per_million) list \<Rightarrow> string \<Rightarrow> string list" where
  "CheaperAlternatives order model =
     (case Price model of
        None \<Rightarrow> []
      | Some base \<Rightarrow> cheaper_loop model (modelFamily model) base order [])"

text \<open>What an order of iteration may be: any arrangement of the table's entries.\<close>

definition iteration_order :: "(string \<times> price_per_million) list \<Rightarrow> bool" where
  "iteration_order order \<longleftrightarrow> distinct order \<and> set order = set pricingTable"

lemma distinct_pricingTable: "distinct (map fst pricingTable)"
  by (simp add: pricingTable_def)

lemma iteration_order_pricingTable [simp]: "iteration_order pricingTable"
  using distinct_pricingTable by (simp add: iteration_order_def distinct_map)

lemma set_cheaper_loop:
  "set (cheaper_loop model family base order out) =
     set out \<union> {name. \<exists>p. (name, p) \<in> set order \<and> name \<noteq> model \<and> modelFamily name = family
                      \<and> Output p < Output base}"
  by (induction model family base order out rule: cheaper_loop.induct) auto

lemma set_CheaperAlternatives:
  assumes "iteration_order order"
  shows "x \<in> set (CheaperAlternatives order model) \<longleftrightarrow>
    (\<exists>base p. Price model = Some base \<and> map_of pricingTable x = Some p \<and> x \<noteq> model
       \<and> modelFamily x = modelFamily model \<and> Output p < Output base)"
proof -
  have "set order = set pricingTable" using assms by (simp add: iteration_order_def)
  moreover have "(x, p) \<in> set pricingTable \<longleftrightarrow> map_of pricingTable x = Some p" for p
    by (rule map_of_eq_Some_iff [OF distinct_pricingTable, symmetric])
  ultimately show ?thesis
    by (cases "Price model") (auto simp: CheaperAlternatives_def set_cheaper_loop)
qed

section \<open>Cost lemmas\<close>

lemma price_sel [simp]:
  "Input (price i c out) = f64 i" "CachedInput (price i c out) = f64 c" "Output (price i c out) = f64 out"
  by (simp_all add: price_def)

lemma prices_nonneg:
  "\<forall>e\<in>set pricingTable. 0 \<le> Input (snd e) \<and> 0 \<le> CachedInput (snd e) \<and> 0 \<le> Output (snd e)"
  unfolding pricingTable_def by (simp add: f64.r_nonneg)

lemma Price_nonneg:
  "Price m = Some p \<Longrightarrow> 0 \<le> Input p \<and> 0 \<le> CachedInput p \<and> 0 \<le> Output p"
  using prices_nonneg by (force simp: Price_def dest: map_of_SomeD)

text \<open>One product of the sum: tokens over a million, times a price.\<close>

definition cost_term :: "int \<Rightarrow> rat \<Rightarrow> rat" where
  "cost_term n q = f64_mul (f64_div (f64_of_int n) 1000000) q"

lemma cost_term_mono: "0 \<le> q \<Longrightarrow> m \<le> n \<Longrightarrow> cost_term m q \<le> cost_term n q"
  unfolding cost_term_def f64_mul_def f64_div_def
  by (intro f64.r_mono mult_right_mono divide_right_mono f64_of_int_mono) auto

lemma cost_term_nonneg: "0 \<le> q \<Longrightarrow> 0 \<le> n \<Longrightarrow> 0 \<le> cost_term n q"
  unfolding cost_term_def f64_mul_def f64_div_def
  by (intro f64.r_nonneg mult_nonneg_nonneg divide_nonneg_pos f64_of_int_nonneg) auto

lemma cost_term_0 [simp]: "cost_term 0 q = 0"
  by (simp add: cost_term_def f64_mul_def f64_div_def)

lemma CostUSD_Some:
  assumes "Price m = Some p"
  shows "CostUSD m i c n =
    f64_add (f64_add (cost_term (max 0 (wrap64 (i - c))) (Input p)) (cost_term c (CachedInput p)))
      (cost_term n (Output p))"
  using assms by (simp add: CostUSD_def cost_term_def Let_def max_def)

lemma CostUSD_None [simp]: "Price m = None \<Longrightarrow> CostUSD m i c n = 0"
  by (simp add: CostUSD_def)

lemma CostUSD_nonneg: "0 \<le> c \<Longrightarrow> 0 \<le> n \<Longrightarrow> 0 \<le> CostUSD m i c n"
proof (cases "Price m")
  case (Some p)
  assume "0 \<le> c" "0 \<le> n"
  with Some Price_nonneg [OF Some] show ?thesis
    unfolding CostUSD_Some [OF Some] f64_add_def
    by (intro f64.r_nonneg add_nonneg_nonneg cost_term_nonneg) auto
qed simp

lemma CostUSD_mono:
  assumes "i \<le> i'" "n \<le> n'" "in_int64 (i - c)" "in_int64 (i' - c)"
  shows "CostUSD m i c n \<le> CostUSD m i' c n'"
proof (cases "Price m")
  case (Some p)
  have "max 0 (wrap64 (i - c)) \<le> max 0 (wrap64 (i' - c))"
    using assms by (simp add: wrap64_id)
  with Some assms Price_nonneg [OF Some] show ?thesis
    unfolding CostUSD_Some [OF Some] f64_add_def
    by (intro f64.r_mono add_mono cost_term_mono) auto
qed simp


text \<open>Closed prices, for instances.\<close>

lemmas pricing_eval = Price_def NormalizeModel_def pricingTable_def modelFamily_def

section \<open>Properties\<close>

text \<open>A pre-flight cost is an upper bound of the actual cost whenever its token counts are.
  The computed dollar amount is never negative and, with all roundings, it is monotone in the
  uncached input and in the output tokens.\<close>

theorem CostUSD_upper_bound:
  assumes "in_tokens \<le> est_in" "out_tokens \<le> est_out" "0 \<le> cached" "0 \<le> out_tokens"
    and "in_int64 (in_tokens - cached)" "in_int64 (est_in - cached)"
  shows "0 \<le> CostUSD m in_tokens cached out_tokens \<and>
    CostUSD m in_tokens cached out_tokens \<le> CostUSD m est_in cached est_out"
  using CostUSD_nonneg [OF assms(3,4)] CostUSD_mono [OF assms(1,2,5,6)] by simp

lemma CostUSD_upper_bound_witness:
  "0 \<le> CostUSD ''gpt-5'' 10 0 5 \<and> CostUSD ''gpt-5'' 10 0 5 \<le> CostUSD ''gpt-5'' 12 0 512"
  by (rule CostUSD_upper_bound) (simp_all add: in_int64_small)

end
