(* ===== verification/Provider.thy ===== *)
theory Provider
  imports Pricing Json
begin

text \<open>
  The provider interface of \<open>gateway/internal/provider/types.go\<close>: requests, usage, responses,
  stream chunks, provider errors, and the two calls \<open>Complete\<close> and \<open>Stream\<close>. A \<open>StreamWriter\<close> is
  a function on the state of its owner. \<open>stream_provider\<close> is the contract every adapter keeps
  towards a writer; the three adapters interpret it. The HTTP transport and the JSON text of the
  lines of an event stream are parameters of the two network adapters.
\<close>

record request =
  ReqModel :: string
  Messages :: "message list"
  ReqSystem :: string
  ReqMaxTokens :: int
  Temperature :: rat
  ReqStream :: bool
  ReqTenantID :: string
  ReqAgentID :: string
  ReqTaskID :: string
  TraceID :: string

record usage =
  TokensIn :: int
  TokensOut :: int

definition no_usage :: usage where
  "no_usage = \<lparr>TokensIn = 0, TokensOut = 0\<rparr>"

record response =
  RespID :: string
  RespModel :: string
  RespContent :: string
  FinishReason :: string
  RespUsage :: usage
  RespCostUSD :: rat
  RespLatencyMs :: int

record chunk =
  DeltaContent :: string
  Done :: bool
  ChunkFinish :: string
  ChunkUsage :: usage

definition delta_chunk :: "string \<Rightarrow> string \<Rightarrow> chunk" where
  "delta_chunk s finish = \<lparr>DeltaContent = s, Done = False, ChunkFinish = finish, ChunkUsage = no_usage\<rparr>"

definition done_chunk :: "string \<Rightarrow> usage \<Rightarrow> chunk" where
  "done_chunk finish u = \<lparr>DeltaContent = [], Done = True, ChunkFinish = finish, ChunkUsage = u\<rparr>"

record provider_error =
  StatusCode :: int
  ErrType :: string
  ErrMessage :: string
  RetryAfter :: int

text \<open>An error value: a \<open>ProviderError\<close>, or any other error with its text.\<close>

datatype go_error = ProviderErr provider_error | OtherErr string

fun error_text :: "go_error \<Rightarrow> string" where
  "error_text (ProviderErr e) = ErrType e @ '': '' @ ErrMessage e"
| "error_text (OtherErr s) = s"

section \<open>Writing a stream\<close>

type_synonym 'w stream_writer = "chunk \<Rightarrow> 'w \<Rightarrow> go_error option \<times> 'w"

text \<open>Write chunks until a write fails, whose error is returned; \<open>final\<close> is the result after the
  last chunk.\<close>

fun write_all :: "'w stream_writer \<Rightarrow> chunk list \<Rightarrow> go_error option \<Rightarrow> 'w \<Rightarrow> go_error option \<times> 'w" where
  "write_all w [] final s = (final, s)"
| "write_all w (c # cs) final s =
     (case w c s of
        (Some err, s') \<Rightarrow> (Some err, s')
      | (None, s') \<Rightarrow> write_all w cs final s')"

abbreviation written_to :: "'w stream_writer \<Rightarrow> chunk list \<Rightarrow> 'w \<Rightarrow> 'w" where
  "written_to w cs s \<equiv> fold (\<lambda>c s. snd (w c s)) cs s"

lemma write_all_append:
  "write_all w (xs @ ys) final s =
     (case write_all w xs None s of (Some err, s') \<Rightarrow> (Some err, s') | (None, s') \<Rightarrow> write_all w ys final s')"
  by (induction xs arbitrary: s) (auto split: prod.split option.split)

lemma write_all_prefix:
  "\<exists>n. snd (write_all w cs final s) = written_to w (take n cs) s \<and>
     (fst (write_all w cs final s) = None \<longrightarrow> take n cs = cs)"
proof (induction cs arbitrary: s)
  case (Cons c cs)
  obtain r s' where w: "w c s = (r, s')" by fastforce
  show ?case
  proof (cases r)
    case None
    obtain n where "snd (write_all w cs final s') = written_to w (take n cs) s'"
      "fst (write_all w cs final s') = None \<longrightarrow> take n cs = cs" using Cons by blast
    then show ?thesis using w None by (intro exI [of _ "Suc n"]) simp
  next
    case (Some err)
    then show ?thesis using w by (intro exI [of _ 1]) simp
  qed
qed simp

lemma write_all_ok:
  "(\<And>c s. fst (w c s) = None) \<Longrightarrow> write_all w cs final s = (final, written_to w cs s)"
proof (induction cs arbitrary: s)
  case (Cons c cs)
  obtain s' where "w c s = (None, s')" using Cons.prems [of c s] by (cases "w c s") simp
  with Cons show ?case by simp
qed simp

text \<open>
  The contract: on a given environment (the transport's answer, cancellations) the calls a
  provider makes to the writer are a fixed list of chunks, cut off at the first failing write,
  and \<open>Stream\<close> returns that error or the provider's own result.
\<close>

locale stream_provider =
  fixes Stream :: "'i \<Rightarrow> request \<Rightarrow> 'w stream_writer \<Rightarrow> 'w \<Rightarrow> go_error option \<times> 'w"
    and chunks :: "'i \<Rightarrow> request \<Rightarrow> chunk list"
    and final :: "'i \<Rightarrow> request \<Rightarrow> go_error option"
  assumes Stream_writes: "Stream i req w s = write_all w (chunks i req) (final i req) s"
begin

lemma Stream_prefix:
  "\<exists>n. snd (Stream i req w s) = written_to w (take n (chunks i req)) s \<and>
     (fst (Stream i req w s) = None \<longrightarrow> take n (chunks i req) = chunks i req \<and> final i req = None)"
proof -
  have "fst (write_all w cs f s) = None \<Longrightarrow> f = None" for cs f s
    by (induction cs arbitrary: s) (auto split: prod.splits option.splits)
  then show ?thesis unfolding Stream_writes using write_all_prefix by metis
qed

lemma Stream_complete:
  "(\<And>c s. fst (w c s) = None) \<Longrightarrow> Stream i req w s = (final i req, written_to w (chunks i req) s)"
  unfolding Stream_writes by (rule write_all_ok)

end

section \<open>The HTTP exchange of the network adapters\<close>

record http_request =
  URL :: string
  Headers :: "(string \<times> string) list"
  Body :: json

text \<open>A response: the status, the \<open>Retry-After\<close> header, the body decoded as one JSON value, the
  lines the scanner delivers and how the scan ends.\<close>

record http_response =
  HttpStatus :: int
  RetryAfterHeader :: string
  JsonBody :: "json option"
  BodyLines :: "string list"
  ScanErr :: "string option"

type_synonym transport = "http_request \<Rightarrow> string + http_response"

text \<open>\<open>strconv.Atoi\<close>: an optional sign and decimal digits, within 64 bits.\<close>

definition is_digit_char :: "char \<Rightarrow> bool" where
  "is_digit_char c \<longleftrightarrow> 48 \<le> (of_char c :: nat) \<and> (of_char c :: nat) \<le> 57"

definition digits_value :: "string \<Rightarrow> int" where
  "digits_value s = fold (\<lambda>c n. 10 * n + (of_char c - 48)) s 0"

definition Atoi :: "string \<Rightarrow> int option" where
  "Atoi s =
     (let (neg, ds) = (if has_prefix s ''-'' then (True, tl s)
                       else if has_prefix s ''+'' then (False, tl s) else (False, s));
          n = (if neg then - digits_value ds else digits_value ds)
      in if ds \<noteq> [] \<and> list_all is_digit_char ds \<and> in_int64 n then Some n else None)"

text \<open>\<open>strings.TrimRight(s, "/")\<close>.\<close>

definition trim_right_slash :: "string \<Rightarrow> string" where
  "trim_right_slash s = rev (dropWhile (\<lambda>c. c = CHR ''/'') (rev s))"

definition retry_after :: "string \<Rightarrow> int" where
  "retry_after ra = (if ra \<noteq> [] then (case Atoi ra of Some n \<Rightarrow> n | None \<Rightarrow> 0) else 0)"

definition provider_error :: "string \<Rightarrow> string \<Rightarrow> string \<Rightarrow> http_response \<Rightarrow> go_error" where
  "provider_error unknown msg typ resp =
     (let msg = (if msg = [] then unknown else msg);
          typ = (if typ = [] then ''unknown_error'' else typ)
      in ProviderErr \<lparr>StatusCode = HttpStatus resp, ErrType = typ, ErrMessage = msg,
                      RetryAfter = retry_after (RetryAfterHeader resp)\<rparr>)"

text \<open>Reading an event stream: lines without the prefix \<open>data: \<close> are skipped.\<close>

definition data_payload :: "string \<Rightarrow> string option" where
  "data_payload line = (if has_prefix line ''data: '' then Some (trim_prefix line ''data: '') else None)"

end
