(* ===== verification/Sse.thy ===== *)
theory Sse
  imports Provider
begin

text \<open>
  The stream writer of \<open>gateway/internal/proxy/stream.go\<close>, which turns the chunks of a provider
  into the events a client reads. The connection is a sequence of writes, each of which may fail
  (\<open>fails\<close>); \<open>marshal\<close> prints a JSON value. The lemmas say which usage the writer ends with,
  whatever the provider and whatever fails.
\<close>

section \<open>The connection\<close>

record connection =
  http_status :: int
  http_headers :: "(string \<times> string) list"
  sent :: "string list"
  writes :: nat
  flushes :: nat

definition new_connection :: connection where
  "new_connection = \<lparr>http_status = 0, http_headers = [], sent = [], writes = 0, flushes = 0\<rparr>"

definition set_header :: "string \<Rightarrow> string \<Rightarrow> connection \<Rightarrow> connection" where
  "set_header k v c = c\<lparr>http_headers := http_headers c @ [(k, v)]\<rparr>"

definition send :: "(nat \<Rightarrow> string option) \<Rightarrow> string \<Rightarrow> connection \<Rightarrow> go_error option \<times> connection" where
  "send fails b c =
     (case fails (writes c) of
        Some err \<Rightarrow> (Some (OtherErr err), c\<lparr>writes := writes c + 1\<rparr>)
      | None \<Rightarrow> (None, c\<lparr>writes := writes c + 1, sent := sent c @ [b]\<rparr>))"

section \<open>sseChunkWriter\<close>

record sseChunkWriter =
  conn :: connection
  sse_id :: string
  sse_model :: string
  wroteHeaders :: bool
  finalUsage :: usage

definition ensureHeaders :: "sseChunkWriter \<Rightarrow> sseChunkWriter" where
  "ensureHeaders w =
     (if wroteHeaders w then w
      else w\<lparr>conn := (set_header ''Connection'' ''keep-alive''
                       (set_header ''Cache-Control'' ''no-cache''
                         (set_header ''Content-Type'' ''text/event-stream'' (conn w))))\<lparr>http_status := 200\<rparr>,
             wroteHeaders := True\<rparr>)"

definition sse_payload :: "sseChunkWriter \<Rightarrow> chunk \<Rightarrow> json" where
  "sse_payload w c =
     JObj [(''id'', JStr (sse_id w)), (''object'', JStr ''chat.completion.chunk''), (''model'', JStr (sse_model w)),
           (''choices'', JArr [JObj
              [(''index'', JInt 0),
               (''delta'', JObj (opt_field (DeltaContent c \<noteq> []) ''content'' (JStr (DeltaContent c)))),
               (''finish_reason'', (if ChunkFinish c \<noteq> [] then JStr (ChunkFinish c) else JNull))]])]"

definition newlines :: string where
  "newlines = [char_of (10::nat), char_of (10::nat)]"

text \<open>Writing the pieces of one event; the first failing write ends it.\<close>

fun send_all :: "(nat \<Rightarrow> string option) \<Rightarrow> string list \<Rightarrow> connection \<Rightarrow> go_error option \<times> connection" where
  "send_all fails [] c = (None, c)"
| "send_all fails (b # bs) c =
     (case send fails b c of
        (Some err, c') \<Rightarrow> (Some err, c')
      | (None, c') \<Rightarrow> send_all fails bs c')"

definition flush_conn :: "connection \<Rightarrow> connection" where
  "flush_conn c = c\<lparr>flushes := flushes c + 1\<rparr>"

definition sse_Write :: "(json \<Rightarrow> string) \<Rightarrow> (nat \<Rightarrow> string option) \<Rightarrow> sseChunkWriter stream_writer" where
  "sse_Write marshal fails chunk w =
     (let w = ensureHeaders w in
      if Done chunk then
        (let w = w\<lparr>finalUsage := ChunkUsage chunk\<rparr>
         in case send fails (''data: [DONE]'' @ newlines) (conn w) of
              (err, c) \<Rightarrow> (err, w\<lparr>conn := flush_conn c\<rparr>))
      else
        (case send_all fails [''data: '', marshal (sse_payload w chunk), newlines] (conn w) of
           (Some err, c) \<Rightarrow> (Some err, w\<lparr>conn := c\<rparr>)
         | (None, c) \<Rightarrow> (None, w\<lparr>conn := flush_conn c\<rparr>)))"

section \<open>What the writer ends with\<close>

definition last_usage :: "chunk list \<Rightarrow> usage \<Rightarrow> usage" where
  "last_usage cs u = fold (\<lambda>c u. if Done c then ChunkUsage c else u) cs u"

lemma ensureHeaders_sel [simp]:
  "wroteHeaders (ensureHeaders w)" "finalUsage (ensureHeaders w) = finalUsage w"
  "sse_id (ensureHeaders w) = sse_id w" "sse_model (ensureHeaders w) = sse_model w"
  by (simp_all add: ensureHeaders_def)

lemma sse_Write_sel [simp]:
  "finalUsage (snd (sse_Write marshal fails c w)) = (if Done c then ChunkUsage c else finalUsage w)"
  "wroteHeaders (snd (sse_Write marshal fails c w))"
  by (simp_all add: sse_Write_def Let_def split: prod.split option.split)

lemma sse_written:
  "finalUsage (written_to (sse_Write marshal fails) cs w) = last_usage cs (finalUsage w)"
  "wroteHeaders (written_to (sse_Write marshal fails) cs w) \<longleftrightarrow> wroteHeaders w \<or> cs \<noteq> []"
  by (induction cs arbitrary: w) (simp_all add: last_usage_def)

lemma last_usage_not_done: "\<forall>c\<in>set cs. \<not> Done c \<Longrightarrow> last_usage cs u = u"
  by (induction cs arbitrary: u) (simp_all add: last_usage_def)

lemma last_usage_snoc: "Done c \<Longrightarrow> last_usage (cs @ [c]) u = ChunkUsage c"
  by (simp add: last_usage_def)

lemma send_ok: "(\<And>n. fails n = None) \<Longrightarrow> send fails b c = (None, c\<lparr>writes := writes c + 1, sent := sent c @ [b]\<rparr>)"
  by (simp add: send_def)

lemma sse_Write_ok: "(\<And>n. fails n = None) \<Longrightarrow> fst (sse_Write marshal fails c w) = None"
  by (simp add: sse_Write_def send_ok Let_def)

text \<open>The bytes a chunk becomes on an intact connection.\<close>

definition event_text :: "(json \<Rightarrow> string) \<Rightarrow> string \<Rightarrow> string \<Rightarrow> chunk \<Rightarrow> string" where
  "event_text marshal i m c =
     (if Done c then ''data: [DONE]'' @ newlines
      else ''data: '' @ marshal (sse_payload \<lparr>conn = new_connection, sse_id = i, sse_model = m, wroteHeaders = True,
                                              finalUsage = no_usage\<rparr> c) @ newlines)"

lemma sse_payload_sel: "sse_payload w c =
    sse_payload \<lparr>conn = new_connection, sse_id = sse_id w, sse_model = sse_model w, wroteHeaders = True, finalUsage = no_usage\<rparr> c"
  by (simp add: sse_payload_def)

lemma sse_Write_sent:
  assumes "\<And>n. fails n = None"
  shows "concat (sent (conn (snd (sse_Write marshal fails c w)))) =
      concat (sent (conn w)) @ event_text marshal (sse_id w) (sse_model w) c"
    and "sse_id (snd (sse_Write marshal fails c w)) = sse_id w"
    and "sse_model (snd (sse_Write marshal fails c w)) = sse_model w"
proof -
  have h: "sent (conn (ensureHeaders w)) = sent (conn w)" by (simp add: ensureHeaders_def set_header_def)
  show "concat (sent (conn (snd (sse_Write marshal fails c w)))) =
      concat (sent (conn w)) @ event_text marshal (sse_id w) (sse_model w) c"
    using sse_payload_sel [of "ensureHeaders w" c]
    by (simp add: sse_Write_def send_ok [OF assms] Let_def event_text_def h flush_conn_def)
  show "sse_id (snd (sse_Write marshal fails c w)) = sse_id w" "sse_model (snd (sse_Write marshal fails c w)) = sse_model w"
    by (simp_all add: sse_Write_def send_ok [OF assms] Let_def)
qed

lemma sse_stream_sent:
  assumes "\<And>n. fails n = None"
  shows "concat (sent (conn (written_to (sse_Write marshal fails) cs w))) =
    concat (sent (conn w)) @ concat (map (event_text marshal (sse_id w) (sse_model w)) cs)"
  by (induction cs arbitrary: w) (simp_all add: sse_Write_sent [OF assms])

end
