(* ===== verification/Policy.thy ===== *)
theory Policy
  imports Pricing Scopes
begin

text \<open>
  The deterministic policy engine of \<open>gateway/internal/policy/policy.go\<close>: suggestions,
  context, configuration, outcome, and \<open>Decide\<close> with its pricing check. The only source of
  nondeterminism it could have is the iteration order of the pricing map inside
  \<open>CheaperAlternatives\<close>, which is an argument here; the lemmas show that the outcome does
  not depend on it, when a suggestion is acted on, and what every outcome guarantees.
\<close>

text \<open>Suggestion types; \<open>OtherSuggestion\<close> holds any string the engine does not know.\<close>

datatype suggestion_type =
  SuggestionSwitchModel | SuggestionReduceMaxTokens | SuggestionSummarizeFirst | SuggestionReduceToolCalls
| OtherSuggestion string

fun suggestion_string :: "suggestion_type \<Rightarrow> string" where
  "suggestion_string SuggestionSwitchModel = ''switch_model''"
| "suggestion_string SuggestionReduceMaxTokens = ''reduce_max_tokens''"
| "suggestion_string SuggestionSummarizeFirst = ''summarize_first''"
| "suggestion_string SuggestionReduceToolCalls = ''reduce_tool_calls''"
| "suggestion_string (OtherSuggestion s) = s"

record suggestion =
  SType :: suggestion_type
  SuggestedModel :: string
  SuggestedMaxTokens :: int
  Confidence :: rat
  RiskNote :: string

record policy_context =
  RequestedModel :: string
  RequestedTokens :: int
  CtxRemainingTokens :: rat
  CtxRemainingUSD :: rat
  CtxFailedScope :: scope
  FailReason :: reject_reason

record policy_config =
  MinConfidence :: rat
  MinPartialAllowanceTokens :: int

definition DefaultConfig :: policy_config where
  "DefaultConfig = \<lparr>MinConfidence = f64 0.6, MinPartialAllowanceTokens = 64\<rparr>"

datatype action = ActionReject | ActionRetryWithModel | ActionPartialAllowance

record outcome =
  Action :: action
  Model :: string
  MaxTokens :: int
  OReason :: reject_reason
  Advice :: string

definition isVerifiedCheaperModel ::
  "(string \<times> price_per_million) list \<Rightarrow> string \<Rightarrow> string \<Rightarrow> bool" where
  "isVerifiedCheaperModel order requestedModel suggestedModel =
     (if suggestedModel = [] \<or> suggestedModel = requestedModel then False
      else list_ex (\<lambda>alt. alt = suggestedModel) (CheaperAlternatives order requestedModel))"

fun decide_loop ::
  "(string \<times> price_per_million) list \<Rightarrow> policy_context \<Rightarrow> policy_config \<Rightarrow> string \<Rightarrow> suggestion list \<Rightarrow> outcome"
where
  "decide_loop order ctx cfg advisoryNote [] =
     \<lparr>Action = ActionReject, Model = [], MaxTokens = 0, OReason = FailReason ctx, Advice = advisoryNote\<rparr>"
| "decide_loop order ctx cfg advisoryNote (s # ss) =
     (if Confidence s < MinConfidence cfg then decide_loop order ctx cfg advisoryNote ss
      else case SType s of
        SuggestionSwitchModel \<Rightarrow>
          (if isVerifiedCheaperModel order (RequestedModel ctx) (SuggestedModel s)
           then \<lparr>Action = ActionRetryWithModel, Model = SuggestedModel s, MaxTokens = 0,
                 OReason = ReasonNone, Advice = RiskNote s\<rparr>
           else decide_loop order ctx cfg advisoryNote ss)
      | SuggestionReduceMaxTokens \<Rightarrow>
          (let allowance = SuggestedMaxTokens s;
               allowance = (if allowance > int64_of_f64 (CtxRemainingTokens ctx)
                            then int64_of_f64 (CtxRemainingTokens ctx) else allowance)
           in if allowance \<ge> MinPartialAllowanceTokens cfg \<and> allowance < RequestedTokens ctx
              then \<lparr>Action = ActionPartialAllowance, Model = [], MaxTokens = allowance,
                    OReason = ReasonNone, Advice = RiskNote s\<rparr>
              else decide_loop order ctx cfg advisoryNote ss)
      | OtherSuggestion _ \<Rightarrow> decide_loop order ctx cfg advisoryNote ss
      | _ \<Rightarrow>
          decide_loop order ctx cfg
            (if advisoryNote = [] then suggestion_string (SType s) @ '': '' @ RiskNote s else advisoryNote) ss)"

definition Decide ::
  "(string \<times> price_per_million) list \<Rightarrow> policy_context \<Rightarrow> suggestion list \<Rightarrow> policy_config \<Rightarrow> outcome" where
  "Decide order ctx suggestions cfg = decide_loop order ctx cfg [] suggestions"

section \<open>The pricing check does not depend on the map's order\<close>

lemma isVerifiedCheaperModel_iff:
  assumes "iteration_order order"
  shows "isVerifiedCheaperModel order req sug \<longleftrightarrow>
    sug \<noteq> [] \<and> sug \<noteq> req \<and>
    (\<exists>base p. Price req = Some base \<and> map_of pricingTable sug = Some p
       \<and> modelFamily sug = modelFamily req \<and> Output p < Output base)"
  using set_CheaperAlternatives [OF assms, of sug req]
  by (auto simp: isVerifiedCheaperModel_def list_ex_iff)

lemma isVerifiedCheaperModel_order:
  "iteration_order o1 \<Longrightarrow> iteration_order o2 \<Longrightarrow>
     isVerifiedCheaperModel o1 req sug = isVerifiedCheaperModel o2 req sug"
  by (simp only: isVerifiedCheaperModel_iff)

lemma decide_loop_order:
  assumes "iteration_order o1" "iteration_order o2"
  shows "decide_loop o1 ctx cfg adv ss = decide_loop o2 ctx cfg adv ss"
proof (induction ss arbitrary: adv)
  case (Cons s ss)
  then show ?case
    by (cases "SType s") (simp_all add: isVerifiedCheaperModel_order [OF assms] Let_def)
qed simp

section \<open>What an outcome guarantees\<close>

text \<open>A suggestion the engine would act on, and the outcome it leads to.\<close>

definition clamp_allowance :: "policy_context \<Rightarrow> suggestion \<Rightarrow> int" where
  "clamp_allowance ctx s = min (SuggestedMaxTokens s) (int64_of_f64 (CtxRemainingTokens ctx))"

definition actionable ::
  "(string \<times> price_per_million) list \<Rightarrow> policy_context \<Rightarrow> policy_config \<Rightarrow> suggestion \<Rightarrow> bool" where
  "actionable order ctx cfg s \<longleftrightarrow>
     MinConfidence cfg \<le> Confidence s \<and>
     (SType s = SuggestionSwitchModel \<and>
        isVerifiedCheaperModel order (RequestedModel ctx) (SuggestedModel s)
      \<or> SType s = SuggestionReduceMaxTokens \<and>
        MinPartialAllowanceTokens cfg \<le> clamp_allowance ctx s \<and> clamp_allowance ctx s < RequestedTokens ctx)"

definition acted_outcome :: "policy_context \<Rightarrow> suggestion \<Rightarrow> outcome" where
  "acted_outcome ctx s =
     (if SType s = SuggestionSwitchModel
      then \<lparr>Action = ActionRetryWithModel, Model = SuggestedModel s, MaxTokens = 0,
            OReason = ReasonNone, Advice = RiskNote s\<rparr>
      else \<lparr>Action = ActionPartialAllowance, Model = [], MaxTokens = clamp_allowance ctx s,
            OReason = ReasonNone, Advice = RiskNote s\<rparr>)"

definition note_of :: "policy_config \<Rightarrow> suggestion \<Rightarrow> string" where
  "note_of cfg s =
     (if MinConfidence cfg \<le> Confidence s \<and>
         (SType s = SuggestionSummarizeFirst \<or> SType s = SuggestionReduceToolCalls)
      then suggestion_string (SType s) @ '': '' @ RiskNote s else [])"

definition first_note :: "policy_config \<Rightarrow> string \<Rightarrow> suggestion list \<Rightarrow> string" where
  "first_note cfg adv ss =
     (case filter (\<lambda>n. n \<noteq> []) (adv # map (note_of cfg) ss) of [] \<Rightarrow> [] | n # _ \<Rightarrow> n)"

lemma first_note_Cons:
  "first_note cfg adv (s # ss) = first_note cfg (if adv = [] then note_of cfg s else adv) ss"
  by (simp add: first_note_def)

lemma decide_loop_acts:
  "actionable order ctx cfg s \<Longrightarrow> decide_loop order ctx cfg adv (s # ss) = acted_outcome ctx s"
  by (auto simp: actionable_def acted_outcome_def clamp_allowance_def Let_def min_def)

lemma decide_loop_skips:
  assumes "\<not> actionable order ctx cfg s"
  shows "decide_loop order ctx cfg adv (s # ss) =
    decide_loop order ctx cfg (if adv = [] then note_of cfg s else adv) ss"
proof (cases "Confidence s < MinConfidence cfg")
  case True
  then show ?thesis by (simp add: note_of_def)
next
  case False
  with assms show ?thesis
    by (cases "SType s") (auto simp: actionable_def note_of_def clamp_allowance_def Let_def min_def)
qed

text \<open>
  The loop in one equation: act on the first actionable suggestion, or reject with the
  enforcer's reason and the first advisory note.
\<close>

lemma decide_loop_eq:
  "decide_loop order ctx cfg adv ss =
     (case find (actionable order ctx cfg) ss of
        Some s \<Rightarrow> acted_outcome ctx s
      | None \<Rightarrow> \<lparr>Action = ActionReject, Model = [], MaxTokens = 0, OReason = FailReason ctx,
                 Advice = first_note cfg adv ss\<rparr>)"
proof (induction ss arbitrary: adv)
  case Nil
  then show ?case by (simp add: first_note_def)
next
  case (Cons s ss)
  then show ?case
    by (cases "actionable order ctx cfg s")
      (simp_all add: decide_loop_acts decide_loop_skips first_note_Cons del: decide_loop.simps split: option.split)
qed

lemma Decide_eq:
  "Decide order ctx ss cfg =
     (case find (actionable order ctx cfg) ss of
        Some s \<Rightarrow> acted_outcome ctx s
      | None \<Rightarrow> \<lparr>Action = ActionReject, Model = [], MaxTokens = 0, OReason = FailReason ctx,
                 Advice = first_note cfg [] ss\<rparr>)"
  by (simp add: Decide_def decide_loop_eq)

lemma Decide_cases:
  obtains (Acted) s where "s \<in> set ss" "actionable order ctx cfg s" "Decide order ctx ss cfg = acted_outcome ctx s"
  | (Rejected) "\<forall>s\<in>set ss. \<not> actionable order ctx cfg s" "Action (Decide order ctx ss cfg) = ActionReject"
      "OReason (Decide order ctx ss cfg) = FailReason ctx"
proof (cases "find (actionable order ctx cfg) ss")
  case None
  then have "\<forall>s\<in>set ss. \<not> actionable order ctx cfg s" by (simp add: find_None_iff)
  with None show ?thesis by (intro Rejected) (simp_all add: Decide_eq)
next
  case (Some s)
  then have "s \<in> set ss" "actionable order ctx cfg s" by (auto simp: find_Some_iff)
  with Some show ?thesis by (intro Acted [of s]) (simp_all add: Decide_eq)
qed

lemma Decide_RetryWithModel:
  assumes "Action (Decide order ctx ss cfg) = ActionRetryWithModel"
  shows "isVerifiedCheaperModel order (RequestedModel ctx) (Model (Decide order ctx ss cfg))"
  using assms
  by (cases rule: Decide_cases [of ss order ctx cfg])
    (auto simp: acted_outcome_def actionable_def split: if_splits)

lemma Decide_PartialAllowance:
  assumes "Action (Decide order ctx ss cfg) = ActionPartialAllowance"
  shows "MinPartialAllowanceTokens cfg \<le> MaxTokens (Decide order ctx ss cfg)"
    and "MaxTokens (Decide order ctx ss cfg) < RequestedTokens ctx"
    and "MaxTokens (Decide order ctx ss cfg) \<le> int64_of_f64 (CtxRemainingTokens ctx)"
  using assms
  by (cases rule: Decide_cases [of ss order ctx cfg];
      auto simp: acted_outcome_def actionable_def clamp_allowance_def split: if_splits)+

section \<open>Properties\<close>

text \<open>The policy decision is a function of its arguments. Go iterates the pricing map in an
  unspecified order, and the outcome is the same for every order it may take.\<close>

theorem Decide_deterministic:
  assumes "iteration_order order1" "iteration_order order2"
  shows "Decide order1 ctx ss cfg = Decide order2 ctx ss cfg"
  by (simp add: Decide_def decide_loop_order [OF assms])

definition throttled :: policy_context where
  "throttled = \<lparr>RequestedModel = ''gpt-5'', RequestedTokens = 900, CtxRemainingTokens = 500, CtxRemainingUSD = 0,
     CtxFailedScope = ScopeTenant, FailReason = ReasonOverTenantBudget\<rparr>"

definition suggest_model :: "string \<Rightarrow> suggestion" where
  "suggest_model m = \<lparr>SType = SuggestionSwitchModel, SuggestedModel = m, SuggestedMaxTokens = 0,
     Confidence = 1, RiskNote = ''lower quality''\<rparr>"

definition suggest_tokens :: "int \<Rightarrow> suggestion" where
  "suggest_tokens n = \<lparr>SType = SuggestionReduceMaxTokens, SuggestedModel = [], SuggestedMaxTokens = n,
     Confidence = 1, RiskNote = []\<rparr>"

lemma nano_is_cheaper: "isVerifiedCheaperModel pricingTable ''gpt-5'' ''gpt-5-nano''"
proof -
  have "map_of pricingTable ''gpt-5-nano'' = Some (price 0.05 0.005 0.40)" "Price ''gpt-5'' = Some (price 1.25 0.125 10)"
    "modelFamily ''gpt-5-nano'' = modelFamily ''gpt-5''"
    by (simp_all add: pricing_eval)
  moreover have "f64 0.40 < f64 10"
    using f64.r_le_fixed [of "0.40" 1] by simp
  ultimately show ?thesis
    by (auto simp: isVerifiedCheaperModel_iff [OF iteration_order_pricingTable])
qed

lemma confident: "\<not> 1 < MinConfidence DefaultConfig"
  using f64.r_le_fixed [of "0.6" 1] by (simp add: DefaultConfig_def)

lemmas closed_policy = Decide_def throttled_def suggest_model_def suggest_tokens_def confident nano_is_cheaper
  int64_of_f64_def trunc_rat_def in_int64_def min_int64_def max_int64_def Let_def

lemma Decide_deterministic_witness:
  "Decide (rev pricingTable) throttled [suggest_model ''gpt-5-nano''] DefaultConfig =
   Decide pricingTable throttled [suggest_model ''gpt-5-nano''] DefaultConfig"
  by (rule Decide_deterministic)
    (use iteration_order_pricingTable in \<open>simp_all add: iteration_order_def\<close>)

text \<open>C27: the engine never takes the advisor's word for a model. It retries with another model only
  if that model is in the pricing table, of the requested model's family, with an output price
  below the requested model's, and the advisor was confident enough.\<close>

theorem Decide_switch_verified:
  assumes "iteration_order order" "Action (Decide order ctx ss cfg) = ActionRetryWithModel"
  shows "\<exists>s p base. s \<in> set ss \<and> MinConfidence cfg \<le> Confidence s \<and> SType s = SuggestionSwitchModel \<and>
    Model (Decide order ctx ss cfg) = SuggestedModel s \<and> SuggestedModel s \<noteq> RequestedModel ctx \<and>
    map_of pricingTable (SuggestedModel s) = Some p \<and> Price (RequestedModel ctx) = Some base \<and>
    modelFamily (SuggestedModel s) = modelFamily (RequestedModel ctx) \<and> Output p < Output base"
proof (cases rule: Decide_cases [of ss order ctx cfg])
  case (Acted s)
  then have s: "SType s = SuggestionSwitchModel" "isVerifiedCheaperModel order (RequestedModel ctx) (SuggestedModel s)"
    "MinConfidence cfg \<le> Confidence s" "Model (Decide order ctx ss cfg) = SuggestedModel s"
    using assms(2) by (auto simp: acted_outcome_def actionable_def split: if_splits)
  with Acted(1) s(2) [unfolded isVerifiedCheaperModel_iff [OF assms(1)]] show ?thesis by blast
qed (use assms(2) in simp)

lemma Decide_switch_verified_witness:
  "Action (Decide pricingTable throttled [suggest_model ''gpt-5-nano''] DefaultConfig) = ActionRetryWithModel \<and>
   (\<exists>s p base. s \<in> set [suggest_model ''gpt-5-nano''] \<and> Price ''gpt-5'' = Some base \<and>
      map_of pricingTable (SuggestedModel s) = Some p \<and> Output p < Output base)"
proof -
  have act: "Action (Decide pricingTable throttled [suggest_model ''gpt-5-nano''] DefaultConfig) = ActionRetryWithModel"
    by (simp add: closed_policy)
  from Decide_switch_verified [OF iteration_order_pricingTable this] act show ?thesis
    by (auto simp: throttled_def)
qed

text \<open>A partial allowance is a real reduction within the balance: at least the configured
  minimum, less than the request asked for, and no more than the reported remaining tokens.\<close>

theorem Decide_allowance_bounds:
  assumes "Action (Decide order ctx ss cfg) = ActionPartialAllowance"
  shows "MinPartialAllowanceTokens cfg \<le> MaxTokens (Decide order ctx ss cfg) \<and>
    MaxTokens (Decide order ctx ss cfg) < RequestedTokens ctx \<and>
    MaxTokens (Decide order ctx ss cfg) \<le> int64_of_f64 (CtxRemainingTokens ctx)"
  using Decide_PartialAllowance [OF assms] by simp

lemma Decide_allowance_bounds_witness:
  "Action (Decide pricingTable throttled [suggest_tokens 300] DefaultConfig) = ActionPartialAllowance \<and>
   64 \<le> MaxTokens (Decide pricingTable throttled [suggest_tokens 300] DefaultConfig)"
proof -
  have act: "Action (Decide pricingTable throttled [suggest_tokens 300] DefaultConfig) = ActionPartialAllowance"
    by (simp add: closed_policy) (simp add: DefaultConfig_def)
  from Decide_allowance_bounds [OF this] act show ?thesis by (simp add: DefaultConfig_def)
qed

text \<open>The engine acts on the first suggestion that is confident enough and passes the check of
  its type. Without one the outcome is the enforcer's own rejection and its reason, with the first
  advisory note; unknown types and unverified or unconfident suggestions have no effect.\<close>

theorem Decide_first_actionable:
  "Decide order ctx ss cfg =
     (case find (actionable order ctx cfg) ss of
        Some s \<Rightarrow> acted_outcome ctx s
      | None \<Rightarrow> \<lparr>Action = ActionReject, Model = [], MaxTokens = 0, OReason = FailReason ctx,
                 Advice = first_note cfg [] ss\<rparr>)"
  by (rule Decide_eq)

end
