(* ===== verification/AdvisorClient.thy ===== *)
theory AdvisorClient
  imports Provider Policy "HOL-Library.Monad_Syntax"
begin

text \<open>
  The client of the cost advisor, \<open>gateway/internal/proxy/advisor_client.go\<close>: the request body,
  the exchange, and the decoding of the ranked suggestions. The advisor service itself is behind
  the transport parameter; a timeout is one of the transport's errors.
\<close>

record AdvisorClient =
  AdvBaseURL :: string

definition NewAdvisorClient :: "string \<Rightarrow> AdvisorClient" where
  "NewAdvisorClient baseURL = \<lparr>AdvBaseURL = baseURL\<rparr>"

record CallRecord =
  CallModel :: string
  CallTokensIn :: int
  CallTokensOut :: int
  CallCostUSD :: rat

record adviseRequest =
  AdvTenantID :: string
  AdvAgentID :: string
  AdvTaskID :: string
  AdvRequestedModel :: string
  EstimatedTokens :: int
  AdvRemainingTokens :: rat
  AdvRemainingUSD :: rat
  AdvFailedScope :: string
  RecentCalls :: "CallRecord list option"

definition call_json :: "CallRecord \<Rightarrow> json" where
  "call_json r =
     JObj [(''model'', JStr (CallModel r)), (''tokens_in'', JInt (CallTokensIn r)),
           (''tokens_out'', JInt (CallTokensOut r)), (''cost_usd'', JNum (CallCostUSD r))]"

definition marshal_advise :: "adviseRequest \<Rightarrow> json" where
  "marshal_advise r =
     JObj [(''tenant_id'', JStr (AdvTenantID r)), (''agent_id'', JStr (AdvAgentID r)), (''task_id'', JStr (AdvTaskID r)),
           (''requested_model'', JStr (AdvRequestedModel r)), (''estimated_tokens'', JInt (EstimatedTokens r)),
           (''remaining_tokens'', JNum (AdvRemainingTokens r)), (''remaining_usd'', JNum (AdvRemainingUSD r)),
           (''failed_scope'', JStr (AdvFailedScope r)),
           (''recent_calls'', (case RecentCalls r of None \<Rightarrow> JNull | Some cs \<Rightarrow> JArr (map call_json cs)))]"

definition suggestion_type_of :: "string \<Rightarrow> suggestion_type" where
  "suggestion_type_of s =
     (if s = ''switch_model'' then SuggestionSwitchModel
      else if s = ''reduce_max_tokens'' then SuggestionReduceMaxTokens
      else if s = ''summarize_first'' then SuggestionSummarizeFirst
      else if s = ''reduce_tool_calls'' then SuggestionReduceToolCalls
      else OtherSuggestion s)"

definition decode_suggestion :: "json \<Rightarrow> suggestion option" where
  "decode_suggestion j =
     do { fs \<leftarrow> as_fields j;
          t \<leftarrow> get as_string [] ''type'' fs;
          m \<leftarrow> get as_string [] ''suggested_model'' fs;
          n \<leftarrow> get as_int 0 ''suggested_max_tokens'' fs;
          c \<leftarrow> get as_rat 0 ''confidence'' fs;
          r \<leftarrow> get as_string [] ''risk_note'' fs;
          Some \<lparr>SType = suggestion_type_of t, SuggestedModel = m, SuggestedMaxTokens = n,
                Confidence = c, RiskNote = r\<rparr> }"

definition decode_advice :: "json \<Rightarrow> suggestion list option" where
  "decode_advice j = do { fs \<leftarrow> as_fields j; get (as_list decode_suggestion) [] ''suggestions'' fs }"

definition Advise :: "AdvisorClient \<Rightarrow> transport \<Rightarrow> adviseRequest \<Rightarrow> string + suggestion list" where
  "Advise c http req =
     (case http \<lparr>URL = AdvBaseURL c @ ''/v1/advise'', Headers = [(''Content-Type'', ''application/json'')],
                 Body = marshal_advise req\<rparr> of
        Inl err \<Rightarrow> Inl err
      | Inr resp \<Rightarrow>
          (if HttpStatus resp \<noteq> 200 then Inl (''advisor: unexpected status '' @ decimal_int (HttpStatus resp))
           else
             (case Option.bind (JsonBody resp) decode_advice of
                None \<Rightarrow> Inl ''advisor: decode response''
              | Some ss \<Rightarrow> Inr ss)))"

text \<open>The names of the suggestion types survive the exchange.\<close>

lemma suggestion_string_of [simp]: "suggestion_string (suggestion_type_of s) = s"
  by (simp add: suggestion_type_of_def)

definition suggestion_json :: "suggestion \<Rightarrow> json" where
  "suggestion_json s =
     JObj [(''type'', JStr (suggestion_string (SType s))), (''suggested_model'', JStr (SuggestedModel s)),
           (''suggested_max_tokens'', JInt (SuggestedMaxTokens s)), (''confidence'', JNum (Confidence s)),
           (''risk_note'', JStr (RiskNote s))]"

lemma Advise_Inr:
  "Advise c http req = Inr ss \<Longrightarrow> \<exists>r resp. http r = Inr resp \<and> HttpStatus resp = 200 \<and>
     Option.bind (JsonBody resp) decode_advice = Some ss"
  by (auto simp: Advise_def split: sum.splits if_splits option.splits)

end
