(* ===== verification/Runs.thy ===== *)
theory Runs
  imports Prelude
begin

text \<open>
  Runs of a labelled step relation, with the induction on runs that every trace theorem of the
  development uses: the budget store (\<open>Ledger\<close>, \<open>Timed\<close>), the API-key cache (\<open>AuthRuns\<close>), the queues
  (\<open>Queues\<close>), the pool of requests (\<open>System\<close>, \<open>Fleet\<close>) and the end of the process (\<open>Shutdown\<close>).
\<close>

text \<open>The events of a run are listed oldest first.\<close>

inductive run :: "('s \<Rightarrow> 'e \<Rightarrow> 's \<Rightarrow> bool) \<Rightarrow> 's \<Rightarrow> 'e list \<Rightarrow> 's \<Rightarrow> bool" for step where
  run_Nil: "run step s [] s"
| run_snoc: "run step s evs s' \<Longrightarrow> step s' ev s'' \<Longrightarrow> run step s (evs @ [ev]) s''"

lemma run_one: "step s ev s' \<Longrightarrow> run step s [ev] s'"
  using run_snoc [of step s "[]" s ev s'] by (simp add: run_Nil)

inductive_cases run_snocE: "run step s (evs @ [ev]) s'"

lemma run_NilE: "run step s [] s' \<Longrightarrow> s' = s"
  by (erule run.cases) simp_all

lemma run_single: "run step s [ev] s' \<longleftrightarrow> step s ev s'"
proof
  assume "run step s [ev] s'"
  then have "run step s ([] @ [ev]) s'" by simp
  then obtain s1 where "run step s [] s1" "step s1 ev s'" by (rule run_snocE)
  then show "step s ev s'" using run_NilE [of step s s1] by simp
qed (rule run_one)

lemma run_mono:
  assumes "run step s evs s'" "\<And>s ev s'. step s ev s' \<Longrightarrow> ev \<in> set evs \<Longrightarrow> step' s ev s'"
  shows "run step' s evs s'"
  using assms
proof (induction rule: run.induct)
  case (run_snoc s evs s' ev s'')
  have "run step' s evs s'" by (rule run_snoc.IH) (simp add: run_snoc.prems)
  moreover have "step' s' ev s''" using run_snoc.hyps(2) run_snoc.prems by simp
  ultimately show ?case by (rule run.run_snoc)
qed (rule run.run_Nil)

lemma run_invariant [consumes 1, case_names start step]:
  assumes "run step s evs s'" "P s []"
    and "\<And>evs s1 ev s2. run step s evs s1 \<Longrightarrow> P s1 evs \<Longrightarrow> step s1 ev s2 \<Longrightarrow> P s2 (evs @ [ev])"
  shows "P s' evs"
  using assms(1,2,3)
proof (induction rule: run.induct)
  case (run_snoc s evs s' ev s'')
  have "P s' evs" by (rule run_snoc.IH) (use run_snoc.prems in blast)+
  then show ?case using run_snoc.hyps run_snoc.prems(2) by blast
qed

lemma run_append: "run step s evs s' \<Longrightarrow> run step s' evs' s'' \<Longrightarrow> run step s (evs @ evs') s''"
proof (induction evs' arbitrary: s'' rule: rev_induct)
  case Nil
  from Nil(2) show ?case by cases (use Nil(1) in simp_all)
next
  case (snoc ev evs')
  from snoc.prems(2) obtain s1 where "run step s' evs' s1" "step s1 ev s''" by (rule run_snocE)
  from run_snoc [OF snoc.IH [OF snoc.prems(1) this(1)] this(2)] show ?case by simp
qed

lemma run_Cons:
  assumes "step s ev s'" "run step s' evs s''"
  shows "run step s (ev # evs) s''"
proof -
  have "run step s [ev] s'" by (rule run_one) (rule assms(1))
  from run_append [OF this assms(2)] show ?thesis by simp
qed

lemma run_appendE:
  assumes "run step s (evs @ evs') s''"
  obtains s' where "run step s evs s'" "run step s' evs' s''"
proof -
  have "\<exists>s'. run step s evs s' \<and> run step s' evs' s''"
    using assms
  proof (induction evs' arbitrary: s'' rule: rev_induct)
    case Nil
    then show ?case by (auto intro: run_Nil)
  next
    case (snoc ev evs')
    then have "run step s ((evs @ evs') @ [ev]) s''" by simp
    then obtain s1 where "run step s (evs @ evs') s1" "step s1 ev s''" by (rule run_snocE)
    with snoc.IH show ?case by (blast intro: run_snoc)
  qed
  then show ?thesis using that by blast
qed

end
