(* ===== verification/Queues.thy ===== *)
theory Queues
  imports Floats Runs "HOL-Library.Sublist"
begin

text \<open>
  The two bounded queues behind the request path: \<open>SpendWriter\<close> of
  \<open>gateway/internal/proxy/spend_writer.go\<close> and \<open>AsyncLogger\<close> of
  \<open>gateway/internal/observability/logging.go\<close>. Their non-blocking send is one contract, the locale
  \<open>drop_queue\<close>, interpreted on both. The goroutine of the spend writer is a step relation with the
  producers, the ticker and the cancellation in any interleaving. A buffered channel is the list
  of its elements, oldest first; capacities are positive.
\<close>

section \<open>The contract of a non-blocking send\<close>

locale drop_queue =
  fixes offer :: "'x \<Rightarrow> 's \<Rightarrow> 's"
    and entry :: "'x \<Rightarrow> 'a"
    and buffered :: "'s \<Rightarrow> 'a list"
    and room :: "'s \<Rightarrow> nat"
    and lost :: "'s \<Rightarrow> nat"
  assumes offer_room: "0 < room s \<Longrightarrow>
      buffered (offer x s) = buffered s @ [entry x] \<and> room (offer x s) = room s - 1 \<and> lost (offer x s) = lost s"
    and offer_full: "room s = 0 \<Longrightarrow>
      buffered (offer x s) = buffered s \<and> room (offer x s) = 0 \<and> lost (offer x s) = Suc (lost s)"
begin

text \<open>A burst: the first elements fill the room, every later one is lost and counted.\<close>

lemma offers:
  "buffered (fold offer xs s) = buffered s @ map entry (take (room s) xs) \<and>
   room (fold offer xs s) = room s - length xs \<and>
   lost (fold offer xs s) = lost s + (length xs - room s)"
proof (induction xs arbitrary: s)
  case (Cons x xs)
  show ?case
  proof (cases "room s")
    case 0
    then show ?thesis using Cons [of "offer x s"] offer_full [of s x] by simp
  next
    case (Suc n)
    then show ?thesis using Cons [of "offer x s"] offer_room [of s x] by simp
  qed
qed simp

lemma oldest_kept: "prefix (buffered s) (buffered (fold offer xs s))"
  unfolding prefix_def using offers by blast

end

section \<open>SpendWriter\<close>

record SpendEvent =
  SpTenantID :: string
  SpAgentID :: string
  SpTaskID :: string
  SpModel :: string
  SpTokensIn :: int
  SpTokensOut :: int
  SpCostUSD :: rat
  SpTraceID :: string
  SpDecision :: string
  SpDecisionReason :: string
  CreatedAt :: "int option"

datatype phase = Running | Draining | Exited

text \<open>
  The writer and its goroutine: \<open>batch\<close> is the goroutine's local slice, \<open>attempts\<close> the calls of
  \<open>writeBatch\<close> with whether the insert succeeded.
\<close>

record SpendWriter =
  ch :: "SpendEvent list"
  queueCapacity :: nat
  batchSize :: int
  dropped :: nat
  batch :: "SpendEvent list"
  attempts :: "(SpendEvent list \<times> bool) list"
  phase_of :: phase

definition NewSpendWriter :: "nat \<Rightarrow> int \<Rightarrow> SpendWriter" where
  "NewSpendWriter capacity n =
     \<lparr>ch = [], queueCapacity = capacity, batchSize = n, dropped = 0, batch = [], attempts = [], phase_of = Running\<rparr>"

definition created :: "int \<Rightarrow> SpendEvent \<Rightarrow> SpendEvent" where
  "created now e = (if CreatedAt e = None then e\<lparr>CreatedAt := Some now\<rparr> else e)"

definition Enqueue :: "int \<times> SpendEvent \<Rightarrow> SpendWriter \<Rightarrow> SpendWriter" where
  "Enqueue te w =
     (let e = created (fst te) (snd te) in
      if length (ch w) < queueCapacity w then w\<lparr>ch := ch w @ [e]\<rparr> else w\<lparr>dropped := dropped w + 1\<rparr>)"

definition flush :: "bool \<Rightarrow> SpendWriter \<Rightarrow> SpendWriter" where
  "flush ok w =
     (if batch w = [] then w else w\<lparr>attempts := attempts w @ [(batch w, ok)], batch := []\<rparr>)"

text \<open>The receive branch of the loop; it is taken only when the channel holds an event.\<close>

fun receive :: "bool \<Rightarrow> SpendWriter \<Rightarrow> SpendWriter" where
  "receive ok w =
     (case ch w of
        [] \<Rightarrow> w
      | e # rest \<Rightarrow>
          (let w = w\<lparr>ch := rest, batch := batch w @ [e]\<rparr>
           in if int (length (batch w)) \<ge> batchSize w then flush ok w else w))"

text \<open>One iteration of \<open>drainRemaining\<close>.\<close>

definition drain_one :: "SpendWriter \<Rightarrow> SpendWriter" where
  "drain_one w = (case ch w of [] \<Rightarrow> w | e # rest \<Rightarrow> w\<lparr>ch := rest, batch := batch w @ [e]\<rparr>)"

datatype spend_event_step = Enqueued SpendEvent bool | Received | Ticked | CancelSeen | Drained | ExitedRun

text \<open>The interleavings of the producers with the goroutine \<open>Run\<close>.\<close>

inductive spend_step :: "SpendWriter \<Rightarrow> spend_event_step \<Rightarrow> SpendWriter \<Rightarrow> bool" where
  enqueue: "spend_step w (Enqueued (created now e) (length (ch w) < queueCapacity w)) (Enqueue (now, e) w)"
| recv: "phase_of w = Running \<Longrightarrow> ch w \<noteq> [] \<Longrightarrow> spend_step w Received (receive ok w)"
| tick: "phase_of w = Running \<Longrightarrow> spend_step w Ticked (flush ok w)"
| cancel: "phase_of w = Running \<Longrightarrow> spend_step w CancelSeen (w\<lparr>phase_of := Draining\<rparr>)"
| drain: "phase_of w = Draining \<Longrightarrow> ch w \<noteq> [] \<Longrightarrow> spend_step w Drained (drain_one w)"
| leave: "phase_of w = Draining \<Longrightarrow> ch w = [] \<Longrightarrow> spend_step w ExitedRun ((flush ok w)\<lparr>phase_of := Exited\<rparr>)"

interpretation spend: drop_queue Enqueue "\<lambda>te. created (fst te) (snd te)" ch
  "\<lambda>w. queueCapacity w - length (ch w)" dropped
  by unfold_locales (simp_all add: Enqueue_def Let_def)

fun accepted :: "spend_event_step list \<Rightarrow> SpendEvent list" where
  "accepted [] = []"
| "accepted (Enqueued e True # evs) = e # accepted evs"
| "accepted (_ # evs) = accepted evs"

fun refused :: "spend_event_step \<Rightarrow> bool" where
  "refused (Enqueued e ok) = (\<not> ok)"
| "refused _ = False"

lemma accepted_append: "accepted (xs @ ys) = accepted xs @ accepted ys"
  by (induction xs rule: accepted.induct) simp_all

lemma flush_sel [simp]:
  "ch (flush ok w) = ch w" "queueCapacity (flush ok w) = queueCapacity w" "batchSize (flush ok w) = batchSize w"
  "dropped (flush ok w) = dropped w" "batch (flush ok w) = []" "phase_of (flush ok w) = phase_of w"
  "concat (map fst (attempts (flush ok w))) = concat (map fst (attempts w)) @ batch w"
  by (simp_all add: flush_def)

text \<open>The events the goroutine has been given, in order, with what the channel still holds.\<close>

definition in_order :: "SpendWriter \<Rightarrow> SpendEvent list" where
  "in_order w = concat (map fst (attempts w)) @ batch w @ ch w"

lemma spend_step_conserves:
  "spend_step w ev w' \<Longrightarrow> in_order w' = in_order w @ accepted [ev] \<and>
     dropped w' = dropped w + (if refused ev then 1 else 0) \<and>
     queueCapacity w' = queueCapacity w \<and> batchSize w' = batchSize w"
proof (induction rule: spend_step.induct)
  case (enqueue w now e)
  then show ?case by (auto simp: in_order_def Enqueue_def Let_def)
next
  case (recv w ok)
  then show ?case by (cases "ch w") (auto simp: in_order_def Let_def)
next
  case (drain w)
  then show ?case by (cases "ch w") (auto simp: in_order_def drain_one_def)
qed (auto simp: in_order_def)

lemma spend_run_conserves:
  assumes "run spend_step w evs w'"
  shows "in_order w' = in_order w @ accepted evs \<and> dropped w' = dropped w + length (filter refused evs) \<and>
    queueCapacity w' = queueCapacity w \<and> batchSize w' = batchSize w"
  using assms
proof (induction rule: run_invariant)
  case (step evs s1 ev s2)
  then show ?case using spend_step_conserves [of s1 ev s2] by (auto simp: accepted_append)
qed simp

lemma Exited_stays: "spend_step w ev w' \<Longrightarrow> phase_of w = Exited \<Longrightarrow> phase_of w' = Exited \<and> attempts w' = attempts w \<and> batch w' = batch w"
  by (cases rule: spend_step.cases) (auto simp: Enqueue_def Let_def)

text \<open>While the loop runs, a batch stays below the batch size.\<close>

definition small_batches :: "SpendWriter \<Rightarrow> bool" where
  "small_batches w \<longleftrightarrow> (phase_of w = Running \<longrightarrow> int (length (batch w)) \<le> max 0 (batchSize w - 1) \<and>
     (\<forall>a\<in>set (attempts w). int (length (fst a)) \<le> max 1 (batchSize w)))"

lemma small_batches_step:
  assumes "spend_step w ev w'" "small_batches w"
  shows "small_batches w'"
  using assms
proof (induction rule: spend_step.induct)
  case (recv w ok)
  then show ?case by (cases "ch w") (auto simp: small_batches_def Let_def flush_def)
next
  case (drain w)
  then show ?case by (cases "ch w") (auto simp: small_batches_def drain_one_def)
qed (auto simp: small_batches_def flush_def Enqueue_def Let_def)

section \<open>writeBatch\<close>

datatype sql_arg = ANull | AStr string | AInt int | ANum rat | ATime "int option"

definition null_if_empty :: "string \<Rightarrow> sql_arg" where
  "null_if_empty s = (if s \<noteq> [] then AStr s else ANull)"

definition event_args :: "SpendEvent \<Rightarrow> sql_arg list" where
  "event_args e =
     [AStr (SpTenantID e), null_if_empty (SpAgentID e), null_if_empty (SpTaskID e), AStr (SpModel e),
      AInt (SpTokensIn e), AInt (SpTokensOut e), ANum (SpCostUSD e), AStr (SpTraceID e), AStr (SpDecision e),
      AStr (SpDecisionReason e), ATime (CreatedAt e)]"

definition cols :: nat where
  "cols = 11"

definition placeholder_row :: "nat \<Rightarrow> string" where
  "placeholder_row i =
     ''('' @ join '','' (map (\<lambda>j. CHR ''$'' # decimal (i * cols + j + 1)) [0..<cols]) @ '')''"

fun batch_rows :: "nat \<Rightarrow> SpendEvent list \<Rightarrow> string list \<times> sql_arg list" where
  "batch_rows i [] = ([], [])"
| "batch_rows i (e # es) =
     (case batch_rows (Suc i) es of (values, args) \<Rightarrow> (placeholder_row i # values, event_args e @ args))"

text \<open>The statement of \<open>writeBatch\<close>: the text of its \<open>VALUES\<close> list and the arguments bound to it.\<close>

definition writeBatch :: "SpendEvent list \<Rightarrow> string \<times> sql_arg list" where
  "writeBatch es = (case batch_rows 0 es of (values, args) \<Rightarrow> (join '','' values, args))"

lemma batch_rows_eq:
  "batch_rows i es = (map placeholder_row [i..<i + length es], concat (map event_args es))"
proof (induction es arbitrary: i)
  case (Cons e es)
  have "[i..<i + length (e # es)] = i # [Suc i..<Suc i + length es]" by (simp add: upt_rec)
  then show ?case by (simp add: Cons)
qed simp

lemma length_event_args [simp]: "length (event_args e) = cols"
  by (simp add: event_args_def cols_def)

lemma concat_blocks:
  assumes "\<And>x. length (f x) = n" "i < length xs"
  shows "take n (drop (i * n) (concat (map f xs))) = f (xs ! i)"
  using assms(2)
proof (induction xs arbitrary: i)
  case (Cons x xs)
  then show ?case using assms(1) by (cases i) (simp_all add: ac_simps)
qed simp

lemma length_concat_blocks: "(\<And>x. length (f x) = n) \<Longrightarrow> length (concat (map f xs)) = n * length xs"
  by (induction xs) simp_all

section \<open>AsyncLogger\<close>

record RequestLog =
  LTime :: "int option"
  LTraceID :: string
  LTenantID :: string
  LAgentID :: string
  LTaskID :: string
  LModel :: string
  LProvider :: string
  LTokensIn :: int
  LTokensOut :: int
  LCostUSD :: rat
  LDecision :: string
  LDecisionReason :: string
  LatencyMs :: int
  LStatusCode :: int

record AsyncLogger =
  lch :: "RequestLog list"
  bufferSize :: nat
  ldropped :: nat
  out :: "RequestLog list"

definition NewAsyncLogger :: "nat \<Rightarrow> AsyncLogger" where
  "NewAsyncLogger n = \<lparr>lch = [], bufferSize = n, ldropped = 0, out = []\<rparr>"

definition log_stamp :: "int \<Rightarrow> RequestLog \<Rightarrow> RequestLog" where
  "log_stamp now e = (if LTime e = None then e\<lparr>LTime := Some now\<rparr> else e)"

definition Log :: "int \<times> RequestLog \<Rightarrow> AsyncLogger \<Rightarrow> AsyncLogger" where
  "Log te al =
     (let e = log_stamp (fst te) (snd te) in
      if length (lch al) < bufferSize al then al\<lparr>lch := lch al @ [e]\<rparr> else al\<lparr>ldropped := ldropped al + 1\<rparr>)"

definition write_entry :: "RequestLog \<Rightarrow> AsyncLogger \<Rightarrow> AsyncLogger" where
  "write_entry e al = al\<lparr>out := out al @ [e]\<rparr>"

text \<open>The receive branch of \<open>Run\<close> and the loop of \<open>drain\<close>.\<close>

definition log_receive :: "AsyncLogger \<Rightarrow> AsyncLogger" where
  "log_receive al = (case lch al of [] \<Rightarrow> al | e # rest \<Rightarrow> write_entry e (al\<lparr>lch := rest\<rparr>))"

function log_drain :: "AsyncLogger \<Rightarrow> AsyncLogger" where
  "log_drain al = (case lch al of [] \<Rightarrow> al | e # rest \<Rightarrow> log_drain (write_entry e (al\<lparr>lch := rest\<rparr>)))"
  by pat_completeness auto
termination
  by (relation "measure (\<lambda>al. length (lch al))") (auto simp: write_entry_def)

declare log_drain.simps [simp del]

definition Drain :: "AsyncLogger \<Rightarrow> AsyncLogger" where
  "Drain al = log_drain al"

definition DroppedCount :: "AsyncLogger \<Rightarrow> nat" where
  "DroppedCount al = ldropped al mod 2 ^ 64"

interpretation logq: drop_queue Log "\<lambda>te. log_stamp (fst te) (snd te)" lch
  "\<lambda>al. bufferSize al - length (lch al)" ldropped
  by unfold_locales (simp_all add: Log_def Let_def)

lemma log_drain_all: "log_drain al = al\<lparr>lch := [], out := out al @ lch al\<rparr>"
proof (induction al rule: log_drain.induct)
  case (1 al)
  then show ?case
    by (cases "lch al") (simp_all add: log_drain.simps [of al] write_entry_def)
qed

section \<open>Properties\<close>

text \<open>C14: no spend event is lost or duplicated between the queue and the database. In every
  interleaving of the producers with the writer's goroutine (receives, ticks, cancellation, the
  final drain), the batches handed to \<open>writeBatch\<close>, followed by the goroutine's own batch and the
  channel, are exactly the accepted events in the order they were accepted; the dropped counter
  is the number of refused ones.\<close>

theorem spend_events_conserved:
  assumes "run spend_step (NewSpendWriter n bs) evs w"
  shows "concat (map fst (attempts w)) @ batch w @ ch w = accepted evs \<and>
    dropped w = length (filter refused evs)"
  using spend_run_conserves [OF assms] by (simp add: in_order_def NewSpendWriter_def)

lemma small_batches_run:
  assumes "run spend_step (NewSpendWriter n bs) evs w"
  shows "small_batches w"
  using assms
proof (induction rule: run_invariant)
  case start
  show ?case by (simp add: small_batches_def NewSpendWriter_def)
next
  case (step evs s1 ev s2)
  then show ?case by (blast intro: small_batches_step)
qed

text \<open>The size of an insert. While the goroutine runs, no batch it writes is larger than the
  configured batch size, so a statement binds at most eleven arguments per configured event.\<close>

theorem running_batch_bounds:
  assumes "run spend_step (NewSpendWriter n bs) evs w" "phase_of w = Running" "(b, ok) \<in> set (attempts w)"
  shows "b \<noteq> [] \<longrightarrow> int (length (snd (writeBatch b))) \<le> 11 * max 1 bs"
proof -
  have "int (length b) \<le> max 1 (batchSize w)"
    using small_batches_run [OF assms(1)] assms(2,3) by (auto simp: small_batches_def)
  moreover have "batchSize w = bs"
    using spend_run_conserves [OF assms(1)] by (simp add: NewSpendWriter_def)
  moreover have "length (snd (writeBatch b)) = 11 * length b"
    by (simp add: writeBatch_def batch_rows_eq length_concat_blocks [of event_args cols] cols_def)
  ultimately show ?thesis by simp
qed

text \<open>The arguments of an insert are bound to the columns they belong to. Row \<open>i\<close> of the
  \<open>VALUES\<close> list numbers its placeholders from \<open>11 i + 1\<close> to \<open>11 i + 11\<close>, and exactly these
  arguments are the columns of event \<open>i\<close>.\<close>

theorem writeBatch_binding:
  "writeBatch es = (join '','' (map placeholder_row [0..<length es]), concat (map event_args es)) \<and>
   (\<forall>i<length es. take 11 (drop (i * 11) (snd (writeBatch es))) = event_args (es ! i))"
  using concat_blocks [of event_args cols _ es] by (simp add: writeBatch_def batch_rows_eq cols_def)

text \<open>After a shutdown events are still accepted but never written. Once the goroutine has
  drained the channel and returned, whatever producers that are still serving requests enqueue
  stays in the channel: the database sees none of it.\<close>

theorem events_after_exit_unwritten:
  assumes "run spend_step w evs w'" "phase_of w = Exited"
  shows "attempts w' = attempts w \<and> ch w' = ch w @ accepted evs"
proof -
  have "phase_of w' = Exited \<and> attempts w' = attempts w \<and> batch w' = batch w"
    using assms
  proof (induction rule: run_invariant)
    case (step evs s1 ev s2)
    then show ?case using Exited_stays by metis
  qed simp
  then show ?thesis using spend_run_conserves [OF assms(1)] by (simp add: in_order_def)
qed

text \<open>A full buffer drops the newest entries and keeps the oldest. In a burst of log entries
  the first ones fill the room that is left, all later ones are counted and dropped, and what was
  buffered before stays; draining then writes the buffer in order.\<close>

theorem log_burst_drops_newest:
  "lch (fold Log es al) = lch al @ map (\<lambda>te. log_stamp (fst te) (snd te)) (take (bufferSize al - length (lch al)) es) \<and>
   ldropped (fold Log es al) = ldropped al + (length es - (bufferSize al - length (lch al))) \<and>
   out (log_drain al) = out al @ lch al"
  using logq.offers [of es al] by (simp add: log_drain_all)

section \<open>Closed instances\<close>

definition demo_event :: SpendEvent where
  "demo_event = \<lparr>SpTenantID = ''t'', SpAgentID = [], SpTaskID = [], SpModel = ''mock-small'', SpTokensIn = 1,
     SpTokensOut = 2, SpCostUSD = 0, SpTraceID = ''x'', SpDecision = ''allowed'', SpDecisionReason = [], CreatedAt = Some 0\<rparr>"

lemma enqueue_demo: "spend_step w (Enqueued demo_event (length (ch w) < queueCapacity w)) (Enqueue (0, demo_event) w)"
  using spend_step.enqueue [of w 0 demo_event] by (simp add: created_def demo_event_def)

lemma demo_spend_run:
  "\<exists>w. run spend_step (NewSpendWriter 1 1) [Enqueued demo_event True, Received] w \<and>
     phase_of w = Running \<and> attempts w = [([demo_event], True)]"
proof -
  let ?w0 = "NewSpendWriter 1 1" and ?w1 = "Enqueue (0, demo_event) (NewSpendWriter 1 1)"
  have "run spend_step ?w0 [Enqueued demo_event True] ?w1"
    using enqueue_demo [of ?w0] by (simp add: run_one NewSpendWriter_def)
  moreover have "spend_step ?w1 Received (receive True ?w1)"
    by (rule spend_step.recv) (simp_all add: NewSpendWriter_def Enqueue_def created_def demo_event_def Let_def)
  ultimately have "run spend_step ?w0 ([Enqueued demo_event True] @ [Received]) (receive True ?w1)" by (rule run_snoc)
  then show ?thesis
    by (intro exI [of _ "receive True ?w1"])
      (simp add: NewSpendWriter_def Enqueue_def created_def demo_event_def Let_def flush_def)
qed

lemma spend_events_conserved_witness:
  "\<exists>w :: SpendWriter. concat (map fst (attempts w)) @ batch w @ ch w = [demo_event] \<and> dropped w = 0"
proof -
  obtain w where "run spend_step (NewSpendWriter 1 1) [Enqueued demo_event True, Received] w"
    using demo_spend_run by blast
  from spend_events_conserved [OF this] show ?thesis by auto
qed

lemma running_batch_bounds_witness: "int (length (snd (writeBatch [demo_event]))) \<le> 11 * max 1 1"
proof -
  obtain w where w: "run spend_step (NewSpendWriter 1 1) [Enqueued demo_event True, Received] w"
    "phase_of w = Running" "attempts w = [([demo_event], True)]"
    using demo_spend_run by blast
  from running_batch_bounds [OF w(1,2), of "[demo_event]" True] w(3) show ?thesis by simp
qed

lemma writeBatch_binding_witness:
  "take 11 (drop 11 (snd (writeBatch [demo_event, demo_event\<lparr>SpModel := ''gpt-5''\<rparr>]))) =
     event_args (demo_event\<lparr>SpModel := ''gpt-5''\<rparr>)"
  using writeBatch_binding [of "[demo_event, demo_event\<lparr>SpModel := ''gpt-5''\<rparr>]"] by (auto dest: spec [of _ 1])

lemma events_after_exit_unwritten_witness:
  "\<exists>w' :: SpendWriter. attempts w' = [] \<and> ch w' = [demo_event]"
proof -
  let ?w = "(NewSpendWriter 1 1)\<lparr>phase_of := Exited\<rparr>"
  have "run spend_step ?w [Enqueued demo_event True] (Enqueue (0, demo_event) ?w)"
    using enqueue_demo [of ?w] by (simp add: run_one NewSpendWriter_def)
  from events_after_exit_unwritten [OF this] show ?thesis by (auto simp: NewSpendWriter_def)
qed

section \<open>The shutdown of the writer\<close>

text \<open>A step of the goroutine itself, and how many of them are left before it returns.\<close>

fun own_step :: "spend_event_step \<Rightarrow> bool" where
  "own_step (Enqueued e ok) = False"
| "own_step ev = True"

fun steps_left :: "SpendWriter \<Rightarrow> nat" where
  "steps_left w = (if phase_of w = Exited then 0 else Suc (length (ch w)))"

definition quiet :: "SpendWriter \<Rightarrow> bool" where
  "quiet w \<longleftrightarrow> phase_of w = Draining \<or> phase_of w = Exited \<and> ch w = [] \<and> batch w = []"

lemma own_step_progress:
  "spend_step w ev w' \<Longrightarrow> own_step ev \<Longrightarrow> quiet w \<Longrightarrow> quiet w' \<and> steps_left w = Suc (steps_left w')"
proof (induction rule: spend_step.induct)
  case (drain w)
  then show ?case by (cases "ch w") (auto simp: quiet_def drain_one_def)
qed (auto simp: quiet_def)

lemma own_run_bound:
  assumes "run spend_step w evs w'" "list_all own_step evs" "quiet w"
  shows "quiet w' \<and> length evs + steps_left w' = steps_left w"
  using assms
proof (induction rule: run.induct)
  case (run_snoc s evs s' ev s'')
  then show ?case using own_step_progress [of s' ev s''] by auto
qed simp

lemma accepted_own: "list_all own_step evs \<Longrightarrow> accepted evs = []"
  by (induction evs rule: accepted.induct) auto

lemma own_run_exists:
  "phase_of w = Draining \<Longrightarrow> \<exists>evs w'. run spend_step w evs w' \<and> list_all own_step evs \<and> phase_of w' = Exited"
proof (induction "length (ch w)" arbitrary: w)
  case 0
  then have "run spend_step w [ExitedRun] ((flush True w)\<lparr>phase_of := Exited\<rparr>)"
    by (intro run_one spend_step.leave) simp_all
  then show ?case by (intro exI conjI) (assumption, simp_all)
next
  case (Suc n)
  then have "run spend_step w [Drained] (drain_one w)" by (intro run_one spend_step.drain) auto
  moreover obtain evs w' where "run spend_step (drain_one w) evs w'" "list_all own_step evs" "phase_of w' = Exited"
    using Suc.hyps(1) [of "drain_one w"] Suc.hyps(2) Suc.prems by (cases "ch w") (auto simp: drain_one_def)
  ultimately have "run spend_step w ([Drained] @ evs) w' \<and> list_all own_step ([Drained] @ evs) \<and> phase_of w' = Exited"
    using run_append [of spend_step w "[Drained]" "drain_one w" evs w'] by simp
  then show ?case by blast
qed

text \<open>C18: a shutdown without producers finishes and writes everything. Once the goroutine has seen the
  cancellation, its own steps end after one per buffered event and one for the exit, whichever
  way it is scheduled; it can always reach the exit; and there every event that was ever
  accepted has been handed to the database in order.\<close>

theorem shutdown_writes_everything:
  assumes "run spend_step (NewSpendWriter n bs) evs w" "phase_of w = Draining"
  shows "(\<exists>evs' w'. run spend_step w evs' w' \<and> list_all own_step evs' \<and> phase_of w' = Exited) \<and>
    (\<forall>evs' w'. run spend_step w evs' w' \<longrightarrow> list_all own_step evs' \<longrightarrow>
       length evs' \<le> Suc (length (ch w)) \<and>
       (phase_of w' = Exited \<longleftrightarrow> length evs' = Suc (length (ch w))) \<and>
       (phase_of w' = Exited \<longrightarrow> concat (map fst (attempts w')) = accepted evs))"
proof (intro conjI allI impI)
  show "\<exists>evs' w'. run spend_step w evs' w' \<and> list_all own_step evs' \<and> phase_of w' = Exited"
    by (rule own_run_exists [OF assms(2)])
next
  fix evs' w' assume own: "run spend_step w evs' w'" "list_all own_step evs'"
  have b: "quiet w'" "length evs' + steps_left w' = Suc (length (ch w))"
    using own_run_bound [OF own] assms(2) by (simp_all add: quiet_def)
  from b(2) show "length evs' \<le> Suc (length (ch w))" by linarith
  from b(2) show "(phase_of w' = Exited) = (length evs' = Suc (length (ch w)))"
    by (cases "phase_of w' = Exited") simp_all
  assume "phase_of w' = Exited"
  with b(1) have "in_order w' = concat (map fst (attempts w'))" by (simp add: quiet_def in_order_def)
  then show "concat (map fst (attempts w')) = accepted evs"
    using spend_run_conserves [OF assms(1)] spend_run_conserves [OF own(1)] accepted_own [OF own(2)]
    by (simp add: in_order_def NewSpendWriter_def)
qed

lemma shutdown_writes_everything_witness:
  "\<exists>w w' evs. run spend_step w evs w' \<and> ch w = [demo_event] \<and> length evs = 2 \<and> concat (map fst (attempts w')) = [demo_event]"
proof -
  let ?fresh = "NewSpendWriter 1 5"
  let ?filled = "Enqueue (0, demo_event) ?fresh"
  let ?drained = "?filled\<lparr>phase_of := Draining\<rparr>"
  have "run spend_step ?fresh [Enqueued demo_event True] ?filled"
    using enqueue_demo [of ?fresh] by (simp add: run_one NewSpendWriter_def)
  moreover have "spend_step ?filled CancelSeen ?drained"
    by (rule spend_step.cancel) (simp add: NewSpendWriter_def Enqueue_def Let_def)
  ultimately have r: "run spend_step ?fresh ([Enqueued demo_event True] @ [CancelSeen]) ?drained" by (rule run_snoc)
  have c: "ch ?drained = [demo_event]" by (simp add: NewSpendWriter_def Enqueue_def created_def demo_event_def Let_def)
  from shutdown_writes_everything [OF r] obtain evs w' where
    "run spend_step ?drained evs w'" "length evs = Suc (length (ch ?drained))" "concat (map fst (attempts w')) = [demo_event]"
    by auto
  with c show ?thesis by (intro exI [of _ ?drained] exI [of _ w'] exI [of _ evs]) simp
qed

section \<open>The goroutine of the logger\<close>

text \<open>\<open>AsyncLogger.Run\<close>: receives until the cancellation is seen, then drains what is buffered at each
  moment and returns once the buffer is empty.\<close>

datatype log_event = Logged RequestLog bool | LogReceived | LogCancelSeen | LogDrained | LogReturned

inductive log_step :: "AsyncLogger \<times> phase \<Rightarrow> log_event \<Rightarrow> AsyncLogger \<times> phase \<Rightarrow> bool" where
  log: "log_step (al, p) (Logged (log_stamp now e) (length (lch al) < bufferSize al)) (Log (now, e) al, p)"
| log_recv: "lch al \<noteq> [] \<Longrightarrow> log_step (al, Running) LogReceived (log_receive al, Running)"
| log_cancel: "log_step (al, Running) LogCancelSeen (al, Draining)"
| log_drain: "lch al \<noteq> [] \<Longrightarrow> log_step (al, Draining) LogDrained (log_receive al, Draining)"
| log_leave: "lch al = [] \<Longrightarrow> log_step (al, Draining) LogReturned (al, Exited)"

fun logged :: "log_event list \<Rightarrow> RequestLog list" where
  "logged [] = []"
| "logged (Logged e True # evs) = e # logged evs"
| "logged (_ # evs) = logged evs"

lemma logged_append: "logged (xs @ ys) = logged xs @ logged ys"
  by (induction xs rule: logged.induct) simp_all

lemma log_step_conserves:
  "log_step w ev w' \<Longrightarrow> out (fst w') @ lch (fst w') = out (fst w) @ lch (fst w) @ logged [ev]"
proof (induction rule: log_step.induct)
  case (log_recv al)
  then show ?case by (cases "lch al") (simp_all add: log_receive_def write_entry_def)
next
  case (log_drain al)
  then show ?case by (cases "lch al") (simp_all add: log_receive_def write_entry_def)
qed (auto simp: Log_def Let_def)

lemma log_run_conserves:
  assumes "run log_step w evs w'"
  shows "out (fst w') @ lch (fst w') = out (fst w) @ lch (fst w) @ logged evs"
  using assms
proof (induction rule: run_invariant)
  case (step evs w1 ev w2)
  then show ?case using log_step_conserves [of w1 ev w2] by (simp add: logged_append)
qed simp

fun own_log_step :: "log_event \<Rightarrow> bool" where
  "own_log_step (Logged e ok) = False"
| "own_log_step ev = True"

lemma log_drain_steps:
  "\<exists>evs. run log_step (al, Draining) evs (log_drain al, Exited) \<and> list_all own_log_step evs"
proof (induction al rule: log_drain.induct)
  case (1 al)
  show ?case
  proof (cases "lch al")
    case Nil
    then have "log_step (al, Draining) LogReturned (log_drain al, Exited)"
      using log_step.log_leave [of al] by (simp add: log_drain.simps [of al])
    then have "run log_step (al, Draining) [LogReturned] (log_drain al, Exited)" by (rule run_one)
    then show ?thesis by (intro exI [of _ "[LogReturned]"]) simp
  next
    case (Cons e rest)
    let ?al = "write_entry e (al\<lparr>lch := rest\<rparr>)"
    have "log_step (al, Draining) LogDrained (?al, Draining)"
      using log_step.log_drain [of al] Cons by (simp add: log_receive_def)
    moreover obtain evs where evs: "run log_step (?al, Draining) evs (log_drain ?al, Exited)" "list_all own_log_step evs"
      using 1 [OF Cons] by blast
    ultimately have "run log_step (al, Draining) ([LogDrained] @ evs) (log_drain ?al, Exited)"
      by (blast intro: run_append run_one)
    with evs(2) Cons show ?thesis
      by (intro exI [of _ "[LogDrained] @ evs"]) (simp add: log_drain.simps [of al])
  qed
qed

end
