(* ===== verification/Handler.thy ===== *)
theory Handler
  imports ConfigCache Auth Bucket Sse AdvisorClient Queues
begin

text \<open>
  The request path of the gateway: \<open>gateway/internal/proxy/handler.go\<close> with the client types of
  \<open>types.go\<close>, the router of \<open>router.go\<close> and the stream dispatch of \<open>stream.go\<close>. A handler is a
  function of the server, of the environment of one request (clock readings, what the
  connection, the database, the advisor and the transport do), of the request and of the shared
  state, and returns the reply with the new state. Metrics are the list of observations made.
\<close>

section \<open>Client types\<close>

record ClientChatRequest =
  CModel :: string
  CMessages :: "message list"
  CMaxTokens :: int
  CTemperature :: rat
  CStream :: bool

definition decode_message :: "json \<Rightarrow> message option" where
  "decode_message j =
     do { fs \<leftarrow> as_fields j;
          r \<leftarrow> get as_string [] ''role'' fs;
          c \<leftarrow> get as_string [] ''content'' fs;
          Some \<lparr>Role = r, Content = c\<rparr> }"

definition decode_chat :: "json \<Rightarrow> ClientChatRequest option" where
  "decode_chat j =
     do { fs \<leftarrow> as_fields j;
          m \<leftarrow> get as_string [] ''model'' fs;
          ms \<leftarrow> get (as_list decode_message) [] ''messages'' fs;
          n \<leftarrow> get as_int 0 ''max_tokens'' fs;
          t \<leftarrow> get as_rat 0 ''temperature'' fs;
          s \<leftarrow> get as_bool False ''stream'' fs;
          Some \<lparr>CModel = m, CMessages = ms, CMaxTokens = n, CTemperature = t, CStream = s\<rparr> }"

text \<open>\<open>ShouldBindJSON\<close>: decoding, then the \<open>binding\<close> tags of the struct's own fields.\<close>

definition bind_chat :: "json option \<Rightarrow> ClientChatRequest option" where
  "bind_chat body =
     (case Option.bind body decode_chat of
        None \<Rightarrow> None
      | Some b \<Rightarrow> if CModel b = [] \<or> length (CMessages b) < 1 then None else Some b)"

fun split_system :: "message list \<Rightarrow> string \<Rightarrow> message list \<Rightarrow> string \<times> message list" where
  "split_system [] system msgs = (system, msgs)"
| "split_system (m # ms) system msgs =
     (if Role m = ''system'' \<and> system = [] then split_system ms (Content m) msgs
      else split_system ms system (msgs @ [\<lparr>Role = Role m, Content = Content m\<rparr>]))"

definition toProviderRequest :: "ClientChatRequest \<Rightarrow> request" where
  "toProviderRequest r =
     (case split_system (CMessages r) [] [] of
        (system, msgs) \<Rightarrow>
          \<lparr>ReqModel = CModel r, Messages = msgs, ReqSystem = system, ReqMaxTokens = CMaxTokens r,
           Temperature = CTemperature r, ReqStream = CStream r,
           ReqTenantID = [], ReqAgentID = [], ReqTaskID = [], TraceID = []\<rparr>)"

record ErrorResponse =
  EMessage :: string
  EReason :: string
  ERemainingTokens :: rat
  ERemainingUSD :: rat
  EAdvice :: string

definition withMessage :: "string \<Rightarrow> string \<Rightarrow> ErrorResponse" where
  "withMessage message reason =
     \<lparr>EMessage = message, EReason = reason, ERemainingTokens = 0, ERemainingUSD = 0, EAdvice = []\<rparr>"

record ClientChatResponse =
  ChID :: string
  ChObject :: string
  ChModel :: string
  ChContent :: string
  ChFinishReason :: string
  PromptTokensOut :: int
  CompletionTokensOut :: int
  TotalTokensOut :: int
  BudgetAdvisory :: string
  ChCostUSD :: rat

datatype reply_body = ErrorBody ErrorResponse | ChatBody ClientChatResponse | StreamBody sseChunkWriter | NoBody

record reply =
  RStatus :: int
  RHeaders :: "(string \<times> string) list"
  RBody :: reply_body

definition json_error :: "int \<Rightarrow> ErrorResponse \<Rightarrow> reply" where
  "json_error s e = \<lparr>RStatus = s, RHeaders = [], RBody = ErrorBody e\<rparr>"

section \<open>Providers and their router\<close>

record provider_inst =
  Name :: string
  Complete :: "request \<Rightarrow> go_error + response"
  StreamTo :: "request \<Rightarrow> sseChunkWriter stream_writer \<Rightarrow> sseChunkWriter \<Rightarrow> go_error option \<times> sseChunkWriter"

record ProviderRouter =
  rOpenAI :: provider_inst
  rAnthropic :: provider_inst
  rMock :: provider_inst

definition Select :: "ProviderRouter \<Rightarrow> string \<Rightarrow> provider_inst" where
  "Select r model =
     (let m = NormalizeModel model in
      if has_prefix m ''mock-'' then rMock r
      else if has_prefix m ''claude-'' then rAnthropic r
      else if has_prefix m ''gpt-'' \<or> has_prefix m ''o1'' \<or> has_prefix m ''o3'' \<or> has_prefix m ''o4'' then rOpenAI r
      else rMock r)"

definition providerNameFor :: "ProviderRouter \<Rightarrow> string \<Rightarrow> string" where
  "providerNameFor r model = Name (Select r model)"

section \<open>The server, the environment of a request, the shared state\<close>

record 's server =
  srv_redis :: "'s redis"
  srv_unicode :: unicode
  srv_crypto :: crypto
  srv_order :: "(string \<times> price_per_million) list"
  srv_router :: ProviderRouter
  srv_advisor :: AdvisorClient
  srv_policy :: policy_config

datatype recent_query = NoDB | RecentError string | RecentRows "(string + CallRecord) list"

record env =
  trace_id :: string
  start_at :: int
  finish_at :: int
  auth_read_at :: int
  auth_write_at :: int
  key_answers :: "string \<Rightarrow> key_query"
  check_net :: net
  check_time :: redis_time
  retry_net :: net
  retry_time :: redis_time
  reconcile_fault :: pipe_fault
  advisor_http :: transport
  recent_rows :: recent_query
  can_flush :: bool
  write_fails :: "nat \<Rightarrow> string option"
  print_json :: "json \<Rightarrow> string"

datatype metric =
  RequestsTotal string string string
| RequestDuration string string string rat
| TokensTotal string string string rat
| CostUSDTotal string string string rat
| RejectionsTotal string string
| BucketSaturation string string rat
| AdvisorInvocations string string
| ProviderErrorsTotal string string

record 's gateway =
  redis_state :: 's
  enforcer_state :: enforcer
  auth_store :: store
  config_state :: config_cache
  access_log :: AsyncLogger
  spend_writer :: "SpendWriter option"
  metrics :: "metric list"

definition observe :: "metric list \<Rightarrow> 's gateway \<Rightarrow> 's gateway" where
  "observe ms g = g\<lparr>metrics := metrics g @ ms\<rparr>"

record client_request =
  Authorization :: string
  XAgentId :: string
  XTaskId :: string
  ReqBody :: "json option"
  BindError :: string

section \<open>finish\<close>

text \<open>\<open>Time.Sub\<close> saturates; \<open>Duration.Seconds\<close> and \<open>Milliseconds\<close> of a duration in nanoseconds.\<close>

definition time_Sub :: "int \<Rightarrow> int \<Rightarrow> int" where
  "time_Sub t u = max min_int64 (min max_int64 (t - u))"

definition quot_int :: "int \<Rightarrow> int \<Rightarrow> int" where
  "quot_int a b = (if a < 0 then - ((- a) div b) else a div b)"

definition Seconds :: "int \<Rightarrow> rat" where
  "Seconds d =
     (let sec = quot_int d 1000000000; nsec = d - sec * 1000000000
      in f64_add (f64_of_int sec) (f64_div (f64_of_int nsec) 1000000000))"

definition Milliseconds :: "int \<Rightarrow> int" where
  "Milliseconds d = quot_int d 1000000"

definition finish_metrics ::
  "request \<Rightarrow> bucket_ref list \<Rightarrow> decision \<Rightarrow> string \<Rightarrow> string \<Rightarrow> int \<Rightarrow> usage \<Rightarrow> rat \<Rightarrow> metric list" where
  "finish_metrics req refs d label reason lat usage costUSD =
     [RequestsTotal (ReqTenantID req) (ReqModel req) label,
      RequestDuration (ReqTenantID req) (ReqModel req) label (Seconds lat)] @
     (if TokensIn usage > 0 then [TokensTotal (ReqTenantID req) (ReqModel req) ''in'' (f64_of_int (TokensIn usage))] else []) @
     (if TokensOut usage > 0 then [TokensTotal (ReqTenantID req) (ReqModel req) ''out'' (f64_of_int (TokensOut usage))] else []) @
     (if costUSD > 0 then [CostUSDTotal (ReqTenantID req) (ReqAgentID req) (ReqModel req) costUSD] else []) @
     (if label = ''rejected'' then [RejectionsTotal (ReqTenantID req) reason] else []) @
     concat (map (\<lambda>r. if TokenLimit (Limits r) > 0
                      then [BucketSaturation (ReqTenantID req) (scope_string (Scope r))
                              (f64_sub 1 (f64_div (RemainingTokens d) (f64_of_int (TokenLimit (Limits r)))))]
                      else []) refs)"

definition log_entry ::
  "'s server \<Rightarrow> request \<Rightarrow> string \<Rightarrow> string \<Rightarrow> int \<Rightarrow> usage \<Rightarrow> rat \<Rightarrow> int \<Rightarrow> RequestLog" where
  "log_entry sv req label reason lat usage costUSD statusCode =
     \<lparr>LTime = None, LTraceID = TraceID req, LTenantID = ReqTenantID req, LAgentID = ReqAgentID req,
      LTaskID = ReqTaskID req, LModel = ReqModel req, LProvider = providerNameFor (srv_router sv) (ReqModel req),
      LTokensIn = TokensIn usage, LTokensOut = TokensOut usage, LCostUSD = costUSD, LDecision = label,
      LDecisionReason = reason, LatencyMs = Milliseconds lat, LStatusCode = statusCode\<rparr>"

definition spend_event :: "request \<Rightarrow> string \<Rightarrow> string \<Rightarrow> usage \<Rightarrow> rat \<Rightarrow> SpendEvent" where
  "spend_event req label reason usage costUSD =
     \<lparr>SpTenantID = ReqTenantID req, SpAgentID = ReqAgentID req, SpTaskID = ReqTaskID req, SpModel = ReqModel req,
      SpTokensIn = TokensIn usage, SpTokensOut = TokensOut usage, SpCostUSD = costUSD, SpTraceID = TraceID req,
      SpDecision = label, SpDecisionReason = reason, CreatedAt = None\<rparr>"

definition finish ::
  "'s server \<Rightarrow> env \<Rightarrow> request \<Rightarrow> bucket_ref list \<Rightarrow> decision \<Rightarrow> string \<Rightarrow> string \<Rightarrow> usage \<Rightarrow> rat \<Rightarrow> int
    \<Rightarrow> 's gateway \<Rightarrow> 's gateway" where
  "finish sv ev req refs d label reason usage costUSD statusCode g =
     (let lat = time_Sub (finish_at ev) (start_at ev);
          g = observe (finish_metrics req refs d label reason lat usage costUSD) g;
          g = g\<lparr>access_log := Log (finish_at ev, log_entry sv req label reason lat usage costUSD statusCode) (access_log g)\<rparr>
      in case spend_writer g of
           None \<Rightarrow> g
         | Some w \<Rightarrow> g\<lparr>spend_writer := Some (Enqueue (finish_at ev, spend_event req label reason usage costUSD) w)\<rparr>)"

section \<open>Calls to the enforcer\<close>

definition check_budget ::
  "'s server \<Rightarrow> net \<Rightarrow> redis_time \<Rightarrow> bucket_ref list \<Rightarrow> int \<Rightarrow> rat \<Rightarrow> 's gateway \<Rightarrow> (budget_error + decision) \<times> 's gateway" where
  "check_budget sv net tm refs t u g =
     (case CheckAndDecrement (srv_redis sv) net tm (enforcer_state g) refs t u (redis_state g) of
        (res, e, st) \<Rightarrow> (res, g\<lparr>enforcer_state := e, redis_state := st\<rparr>))"

definition reconcile_budget ::
  "'s server \<Rightarrow> env \<Rightarrow> bucket_ref list \<Rightarrow> int \<Rightarrow> rat \<Rightarrow> int \<Rightarrow> rat \<Rightarrow> 's gateway \<Rightarrow> 's gateway" where
  "reconcile_budget sv ev refs et eu act au g =
     g\<lparr>redis_state := snd (Reconcile (srv_redis sv) (reconcile_fault ev) refs et eu act au (redis_state g))\<rparr>"

section \<open>Dispatch\<close>

definition mapProviderStatus :: "int \<Rightarrow> int" where
  "mapProviderStatus providerStatus =
     (if providerStatus = 0 then 502
      else if providerStatus = 429 then 429
      else if providerStatus \<ge> 500 then 502
      else providerStatus)"

definition statusClass :: "int \<Rightarrow> string" where
  "statusClass status = (if status \<ge> 500 then ''5xx'' else ''4xx'')"

definition handleProviderError ::
  "'s server \<Rightarrow> env \<Rightarrow> request \<Rightarrow> bucket_ref list \<Rightarrow> int \<Rightarrow> rat \<Rightarrow> go_error \<Rightarrow> 's gateway \<Rightarrow> reply \<times> 's gateway" where
  "handleProviderError sv ev req refs estTokens estUSD err g =
     (let g = reconcile_budget sv ev refs estTokens estUSD 0 0 g;
          (status, message, g) =
            (case err of
               ProviderErr perr \<Rightarrow>
                 (let status = mapProviderStatus (StatusCode perr)
                  in (status, ErrMessage perr,
                      observe [ProviderErrorsTotal (providerNameFor (srv_router sv) (ReqModel req)) (statusClass status)] g))
             | OtherErr text \<Rightarrow> (502, text, g));
          g = finish sv ev req refs zero_decision ''rejected'' ''upstream_error'' no_usage 0 status g
      in (json_error status (withMessage message ''upstream_error''), g))"

definition advisory_headers :: "string \<Rightarrow> (string \<times> string) list" where
  "advisory_headers advice = (if advice \<noteq> [] then [(''X-Budget-Advisory'', advice)] else [])"

definition allowed_decision :: decision where
  "allowed_decision = zero_decision\<lparr>Allowed := True\<rparr>"

definition new_writer :: "request \<Rightarrow> string \<Rightarrow> sseChunkWriter" where
  "new_writer req advice =
     \<lparr>conn = new_connection\<lparr>http_headers := advisory_headers advice\<rparr>, sse_id = TraceID req, sse_model = ReqModel req,
      wroteHeaders = False, finalUsage = no_usage\<rparr>"

text \<open>The end of a stream that has sent its headers, or that ended without an error.\<close>

definition stream_end ::
  "'s server \<Rightarrow> env \<Rightarrow> request \<Rightarrow> bucket_ref list \<Rightarrow> int \<Rightarrow> rat \<Rightarrow> string \<Rightarrow> sseChunkWriter \<Rightarrow> 's gateway
    \<Rightarrow> reply \<times> 's gateway" where
  "stream_end sv ev req refs estTokens estUSD label writer g =
     (let u = finalUsage writer;
          actualUSD = CostUSD (ReqModel req) (TokensIn u) 0 (TokensOut u);
          g = reconcile_budget sv ev refs estTokens estUSD (wrap64 (TokensIn u + TokensOut u)) actualUSD g;
          g = finish sv ev req refs allowed_decision label [] u actualUSD 200 g
      in (\<lparr>RStatus = 200, RHeaders = http_headers (conn writer), RBody = StreamBody writer\<rparr>, g))"

definition streamDispatch ::
  "'s server \<Rightarrow> env \<Rightarrow> request \<Rightarrow> bucket_ref list \<Rightarrow> int \<Rightarrow> rat \<Rightarrow> string \<Rightarrow> string \<Rightarrow> provider_inst \<Rightarrow> 's gateway
    \<Rightarrow> reply \<times> 's gateway" where
  "streamDispatch sv ev req refs estTokens estUSD label advice p g =
     (if \<not> can_flush ev then
        (json_error 500 (withMessage ''streaming not supported by this transport'' ''internal_error''), g)
      else
        (case StreamTo p req (sse_Write (print_json ev) (write_fails ev)) (new_writer req advice) of
           (Some e, writer) \<Rightarrow>
             (if \<not> wroteHeaders writer then
                (case handleProviderError sv ev req refs estTokens estUSD e g of
                   (r, g') \<Rightarrow> (r\<lparr>RHeaders := advisory_headers advice @ RHeaders r\<rparr>, g'))
              else stream_end sv ev req refs estTokens estUSD label writer g)
         | (None, writer) \<Rightarrow> stream_end sv ev req refs estTokens estUSD label writer g))"

definition doDispatch ::
  "'s server \<Rightarrow> env \<Rightarrow> request \<Rightarrow> bucket_ref list \<Rightarrow> int \<Rightarrow> rat \<Rightarrow> string \<Rightarrow> string \<Rightarrow> string \<Rightarrow> 's gateway
    \<Rightarrow> reply \<times> 's gateway" where
  "doDispatch sv ev req refs estTokens estUSD label reason advice g =
     (let p = Select (srv_router sv) (ReqModel req) in
      if ReqStream req then streamDispatch sv ev req refs estTokens estUSD label advice p g
      else
        (case Complete p req of
           Inl err \<Rightarrow> handleProviderError sv ev req refs estTokens estUSD err g
         | Inr resp \<Rightarrow>
             (let actualUSD = RespCostUSD resp;
                  u = RespUsage resp;
                  g = reconcile_budget sv ev refs estTokens estUSD (wrap64 (TokensIn u + TokensOut u)) actualUSD g;
                  g = finish sv ev req refs allowed_decision label reason u actualUSD 200 g;
                  out = \<lparr>ChID = RespID resp, ChObject = ''chat.completion'', ChModel = RespModel resp,
                         ChContent = RespContent resp, ChFinishReason = FinishReason resp,
                         PromptTokensOut = TokensIn u, CompletionTokensOut = TokensOut u,
                         TotalTokensOut = wrap64 (TokensIn u + TokensOut u), BudgetAdvisory = advice,
                         ChCostUSD = actualUSD\<rparr>
              in (\<lparr>RStatus = 200, RHeaders = advisory_headers advice, RBody = ChatBody out\<rparr>, g))))"

definition dispatch ::
  "'s server \<Rightarrow> env \<Rightarrow> request \<Rightarrow> bucket_ref list \<Rightarrow> int \<Rightarrow> rat \<Rightarrow> string \<Rightarrow> string \<Rightarrow> 's gateway \<Rightarrow> reply \<times> 's gateway" where
  "dispatch sv ev req refs estTokens estUSD label reason g =
     doDispatch sv ev req refs estTokens estUSD label reason [] g"

definition dispatchAdvised ::
  "'s server \<Rightarrow> env \<Rightarrow> request \<Rightarrow> bucket_ref list \<Rightarrow> int \<Rightarrow> rat \<Rightarrow> string \<Rightarrow> 's gateway \<Rightarrow> reply \<times> 's gateway" where
  "dispatchAdvised sv ev req refs estTokens estUSD advice g =
     doDispatch sv ev req refs estTokens estUSD ''advised_retry'' [] advice g"

section \<open>Rejection and budget pressure\<close>

definition reject ::
  "'s server \<Rightarrow> env \<Rightarrow> request \<Rightarrow> decision \<Rightarrow> outcome \<Rightarrow> 's gateway \<Rightarrow> reply \<times> 's gateway" where
  "reject sv ev req d outc g =
     (let reason = (if OReason outc = ReasonNone then Reason d else OReason outc);
          g = finish sv ev req [] d ''rejected'' (reason_string reason) no_usage 0 429 g;
          resp = (withMessage (''budget exceeded: '' @ reason_string reason) (reason_string reason))
                   \<lparr>ERemainingTokens := RemainingTokens d, ERemainingUSD := RemainingUSD d, EAdvice := Advice outc\<rparr>
      in (json_error 429 resp, g))"

fun scan_calls :: "(string + CallRecord) list \<Rightarrow> CallRecord list" where
  "scan_calls [] = []"
| "scan_calls (Inl err # rows) = scan_calls rows"
| "scan_calls (Inr r # rows) = r # scan_calls rows"

text \<open>A nil slice and an empty one differ in the JSON of the advisor's request only.\<close>

definition recentCalls :: "recent_query \<Rightarrow> string \<Rightarrow> CallRecord list option" where
  "recentCalls q agentID =
     (if agentID = [] then None
      else case q of
        NoDB \<Rightarrow> None
      | RecentError err \<Rightarrow> None
      | RecentRows rows \<Rightarrow> (case scan_calls rows of [] \<Rightarrow> None | rs \<Rightarrow> Some rs))"

definition defaultOutputTokenEstimate :: int where
  "defaultOutputTokenEstimate = 512"

definition output_estimate :: "int \<Rightarrow> int" where
  "output_estimate maxTokens = (if maxTokens \<le> 0 then defaultOutputTokenEstimate else maxTokens)"

text \<open>The advisor's answer, the outcome label of the metric, the suggestions, and the policy's decision.\<close>

definition advise_call :: "'s server \<Rightarrow> env \<Rightarrow> request \<Rightarrow> decision \<Rightarrow> int \<Rightarrow> string + suggestion list" where
  "advise_call sv ev req d estTokens =
     Advise (srv_advisor sv) (advisor_http ev)
       \<lparr>AdvTenantID = ReqTenantID req, AdvAgentID = ReqAgentID req, AdvTaskID = ReqTaskID req,
        AdvRequestedModel = ReqModel req, EstimatedTokens = estTokens, AdvRemainingTokens = RemainingTokens d,
        AdvRemainingUSD = RemainingUSD d, AdvFailedScope = scope_string (FailedScope d),
        RecentCalls = recentCalls (recent_rows ev) (ReqAgentID req)\<rparr>"

fun advice_label :: "string + suggestion list \<Rightarrow> string" where
  "advice_label (Inl err) = ''error''"
| "advice_label (Inr ss) = (if length ss > 0 then ''suggested'' else ''no_suggestions'')"

fun advice_suggestions :: "string + suggestion list \<Rightarrow> suggestion list" where
  "advice_suggestions (Inl err) = []"
| "advice_suggestions (Inr ss) = ss"

definition policy_outcome :: "'s server \<Rightarrow> env \<Rightarrow> request \<Rightarrow> decision \<Rightarrow> int \<Rightarrow> outcome" where
  "policy_outcome sv ev req d estTokens =
     Decide (srv_order sv)
       \<lparr>RequestedModel = ReqModel req, RequestedTokens = estTokens, CtxRemainingTokens = RemainingTokens d,
        CtxRemainingUSD = RemainingUSD d, CtxFailedScope = FailedScope d, FailReason = Reason d\<rparr>
       (advice_suggestions (advise_call sv ev req d estTokens)) (srv_policy sv)"

definition handleBudgetPressure ::
  "'s server \<Rightarrow> env \<Rightarrow> request \<Rightarrow> bucket_ref list \<Rightarrow> decision \<Rightarrow> int \<Rightarrow> int \<Rightarrow> rat \<Rightarrow> 's gateway \<Rightarrow> reply \<times> 's gateway" where
  "handleBudgetPressure sv ev req refs d estTokensIn estTokens estUSD g =
     (let g = observe [AdvisorInvocations (ReqTenantID req) (advice_label (advise_call sv ev req d estTokens))] g;
          outc = policy_outcome sv ev req d estTokens
      in case Action outc of
           ActionRetryWithModel \<Rightarrow>
             (let retryReq = req\<lparr>ReqModel := Model outc\<rparr>;
                  retryTokensOut = output_estimate (ReqMaxTokens retryReq);
                  retryTokens = wrap64 (estTokensIn + retryTokensOut);
                  retryUSD = CostUSD (ReqModel retryReq) estTokensIn 0 retryTokensOut
              in case check_budget sv (retry_net ev) (retry_time ev) refs retryTokens retryUSD g of
                   (Inr rd, g) \<Rightarrow>
                     (if Allowed rd then dispatchAdvised sv ev retryReq refs retryTokens retryUSD (Advice outc) g
                      else reject sv ev req d outc g)
                 | (Inl err, g) \<Rightarrow> reject sv ev req d outc g)
         | ActionPartialAllowance \<Rightarrow>
             (let retryReq = req\<lparr>ReqMaxTokens := MaxTokens outc\<rparr>;
                  retryTokens = wrap64 (estTokensIn + MaxTokens outc);
                  retryUSD = CostUSD (ReqModel retryReq) estTokensIn 0 (MaxTokens outc)
              in case check_budget sv (retry_net ev) (retry_time ev) refs retryTokens retryUSD g of
                   (Inr rd, g) \<Rightarrow>
                     (if Allowed rd then dispatchAdvised sv ev retryReq refs retryTokens retryUSD (Advice outc) g
                      else reject sv ev req d outc g)
                 | (Inl err, g) \<Rightarrow> reject sv ev req d outc g)
         | ActionReject \<Rightarrow> reject sv ev req d outc g)"

section \<open>The handler and its middleware\<close>

text \<open>The request that is sent upstream, with the scoping of the key and the headers.\<close>

definition request_of :: "env \<Rightarrow> client_request \<Rightarrow> identity \<Rightarrow> ClientChatRequest \<Rightarrow> request" where
  "request_of ev cr ident body =
     (toProviderRequest body)\<lparr>ReqTenantID := IdTenantID ident, ReqAgentID := XAgentId cr,
        ReqTaskID := XTaskId cr, TraceID := trace_id ev\<rparr>"

text \<open>The pre-flight estimates: input tokens, tokens and dollars.\<close>

definition est_input :: "'s server \<Rightarrow> request \<Rightarrow> int" where
  "est_input sv req = int (EstimateMessagesTokens (srv_unicode sv) (ReqSystem req) (Messages req))"

definition est_tokens :: "'s server \<Rightarrow> request \<Rightarrow> int" where
  "est_tokens sv req = wrap64 (est_input sv req + output_estimate (ReqMaxTokens req))"

definition est_usd :: "'s server \<Rightarrow> request \<Rightarrow> rat" where
  "est_usd sv req = CostUSD (ReqModel req) (est_input sv req) 0 (output_estimate (ReqMaxTokens req))"

definition ChatCompletions ::
  "'s server \<Rightarrow> env \<Rightarrow> client_request \<Rightarrow> identity \<Rightarrow> 's gateway \<Rightarrow> reply \<times> 's gateway" where
  "ChatCompletions sv ev cr ident g =
     (case bind_chat (ReqBody cr) of
        None \<Rightarrow> (json_error 400 (withMessage (''invalid request body: '' @ BindError cr) ''invalid_request''), g)
      | Some body \<Rightarrow>
          (let req = request_of ev cr ident body;
               refs = Resolve (config_state g) (IdTenantID ident) (XAgentId cr) (XTaskId cr)
           in if length refs = 0 then
                (let g = finish sv ev req [] zero_decision ''rejected'' ''no_budget_configured'' no_usage 0 403 g
                 in (json_error 403 (withMessage ''no budget configured for this tenant/agent/task'' ''no_budget_configured''), g))
              else
                (case check_budget sv (check_net ev) (check_time ev) refs (est_tokens sv req) (est_usd sv req) g of
                   (Inl err, g) \<Rightarrow>
                     (json_error 503 (withMessage ''budget backend unavailable'' ''budget_backend_unavailable''), g)
                 | (Inr d, g) \<Rightarrow>
                     (if Allowed d then dispatch sv ev req refs (est_tokens sv req) (est_usd sv req) ''allowed'' [] g
                      else handleBudgetPressure sv ev req refs d (est_input sv req) (est_tokens sv req) (est_usd sv req) g))))"

definition unauthenticated :: "string \<Rightarrow> reply" where
  "unauthenticated message = json_error 401 (withMessage message ''unauthenticated'')"

definition authMiddleware ::
  "'s server \<Rightarrow> env \<Rightarrow> string list \<Rightarrow> client_request \<Rightarrow> (identity option \<Rightarrow> 's gateway \<Rightarrow> reply \<times> 's gateway) \<Rightarrow> 's gateway
    \<Rightarrow> reply \<times> 's gateway" where
  "authMiddleware sv ev allowed cr nxt g =
     (if \<not> has_prefix (Authorization cr) ''Bearer '' then
        (unauthenticated ''missing or malformed Authorization header'', g)
      else
        (let rawKey = trim_prefix (Authorization cr) ''Bearer '' in
         if rawKey = [] then (unauthenticated ''missing or malformed Authorization header'', g)
         else
           (case Authenticate (srv_crypto sv) (auth_read_at ev) (key_answers ev) (auth_write_at ev) rawKey (auth_store g) of
              (Inl err, s) \<Rightarrow> (unauthenticated ''invalid api key'', g\<lparr>auth_store := s\<rparr>)
            | (Inr ident, s) \<Rightarrow>
                (let g = g\<lparr>auth_store := s\<rparr> in
                 if \<not> list_ex (HasScope ident) allowed then
                   (json_error 403 (withMessage ''api key lacks required scope'' ''insufficient_scope''), g)
                 else nxt (Some ident) g))))"

text \<open>The identity the middleware has put into the context of the request, the zero value if there is none.\<close>

definition identityFrom :: "identity option \<Rightarrow> identity" where
  "identityFrom ctx = (case ctx of Some ident \<Rightarrow> ident | None \<Rightarrow> \<lparr>IdTenantID = [], KeyID = [], IdScopes = {}\<rparr>)"

lemma identityFrom_Some [simp]: "identityFrom (Some ident) = ident"
  by (simp add: identityFrom_def)

definition serve :: "'s server \<Rightarrow> env \<Rightarrow> client_request \<Rightarrow> 's gateway \<Rightarrow> reply \<times> 's gateway" where
  "serve sv ev cr g =
     authMiddleware sv ev [AuthScopeAgent, ScopeAdmin] cr (\<lambda>ctx g. ChatCompletions sv ev cr (identityFrom ctx) g) g"

end
