(* ===== verification/Enforcement.thy ===== *)
theory Enforcement
  imports Bucket
begin

text \<open>
  What one call of the budget enforcer guarantees, whatever the stored balances, the request,
  the connection and the clock: a check commits all of its buckets or none, admits exactly when
  every enforced dimension has the balance, names the first bucket that is short, leaves no
  negative balance, fails closed, and a reconciliation turns the reservation into the actual
  usage. The closed instances run on \<open>mem_redis\<close>.
\<close>

section \<open>Closed instances\<close>

definition net_ok :: net where
  "net_ok = \<lparr>resent = [], evalsha_fault = None, eval_fault = None, load_result = Some ''5a1f''\<rparr>"

definition net_flushed :: net where
  "net_flushed = net_ok\<lparr>evalsha_fault := Some (''NOSCRIPT No matching script.'', False)\<rparr>"

definition net_down :: net where
  "net_down = net_ok\<lparr>eval_fault := Some (''dial tcp: connection refused'', False)\<rparr>"

definition tenant_ref :: "string \<Rightarrow> int \<Rightarrow> bucket_ref" where
  "tenant_ref t n =
     \<lparr>Scope = ScopeTenant, RefKey = Key t [] [] ScopeTenant, Limits = zero_limits\<lparr>TokenLimit := n\<rparr>\<rparr>"

definition task_ref :: "string \<Rightarrow> string \<Rightarrow> string \<Rightarrow> int \<Rightarrow> bucket_ref" where
  "task_ref t a k n =
     \<lparr>Scope = ScopeTask, RefKey = Key t a k ScopeTask, Limits = zero_limits\<lparr>TokenLimit := n\<rparr>\<rparr>"

lemmas closed_refs = net_ok_def net_flushed_def net_down_def NewEnforcer_def tenant_ref_def task_ref_def
  zero_limits_def Key_def reachable_backend_def

lemmas closed_call =
  CheckAndDecrement_def eval_def eval_fallback_def run_cmd_def LoadScript_def isNoScriptErr_def
  lua_script_def script_argv_def phase1_key_def lua_refill_def lua_now_def keep_min_def decode_reply_def
  mem_redis_def mem_empty_def Let_def closed_refs trunc_rat_def f64_ops

lemmas closed_view = view_def ref_args_def phase1_key_def lua_refill_def lua_now_def
  mem_redis_def mem_empty_def Let_def closed_refs f64_ops

section \<open>A check\<close>

lemma Allowed_cases:
  assumes "refs \<noteq> []" "reachable_backend net e" "CheckAndDecrement rd net tm e refs t u st = (Inr d, e', st')"
  obtains "\<not> Allowed d" "st' = st" | "Allowed d" "0 \<le> t" "0 \<le> u" "enough rd (lua_now tm) st refs (f64_of_int t) u"
    "st' = committed rd (lua_now tm) e refs (f64_of_int t) u st"
proof (cases rule: CheckAndDecrement_cases [OF assms(1,2), of t u rd tm st])
  case (1 e')
  then show ?thesis using assms(3) that(1) by (metis decision.select_convs(1) prod.inject sum.inject(2))
next
  case (2 e' j)
  then show ?thesis using assms(3) that(1) by (metis decision.select_convs(1) prod.inject sum.inject(2))
next
  case (3 e')
  show ?thesis
    using 3(4) assms(3) by (intro that(2) 3(1,2,3)) (metis decision.select_convs(1) prod.inject sum.inject(2))+
qed

lemma reachable_decision:
  assumes "refs \<noteq> []" "reachable_backend net e"
  shows "\<exists>d e' st'. CheckAndDecrement rd net tm e refs t u st = (Inr d, e', st')"
  by (rule CheckAndDecrement_cases [OF assms, of t u rd tm st]) auto

lemma allowed_call:
  assumes "refs \<noteq> []" "reachable_backend net e" "0 \<le> t" "0 \<le> u" "enough rd (lua_now tm) st refs (f64_of_int t) u"
  obtains d e' st' where "CheckAndDecrement rd net tm e refs t u st = (Inr d, e', st')" "Allowed d"
proof (cases rule: CheckAndDecrement_cases [OF assms(1,2), of t u rd tm st])
  case (2 e' j)
  then show ?thesis using assms(5) by (auto simp: enough_def)
qed (use assms(3,4) that in auto)

text \<open>C5: a check is all or nothing. A rejected check leaves the store as it was. An allowed one
  writes, for every bucket of the request, the refilled balances less the request and the time
  of the check, and changes no other key.\<close>

theorem CheckAndDecrement_all_or_nothing:
  assumes "redis_laws rd" "reachable_backend net e" "refs \<noteq> []" "distinct (map RefKey refs)"
    and "CheckAndDecrement rd net tm e refs t u st = (Inr d, e', st')"
  shows "(if Allowed d
     then (\<forall>r\<in>set refs.
             hget rd st' (RefKey r) ''tokens_remaining'' =
               Some (dec14 (f64_sub (computed_tokens (view rd (lua_now tm) st r)) (f64_of_int t))) \<and>
             hget rd st' (RefKey r) ''usd_remaining'' =
               Some (dec14 (f64_sub (computed_usd (view rd (lua_now tm) st r)) u)) \<and>
             hget rd st' (RefKey r) ''last_refill_ts'' = Some (dec14 (lua_now tm))) \<and>
          (\<forall>k f. k \<notin> RefKey ` set refs \<longrightarrow> hget rd st' k f = hget rd st k f)
     else st' = st)"
proof (cases rule: Allowed_cases [OF assms(3,2,5)])
  case 1
  then show ?thesis by simp
next
  case 2
  show ?thesis
    unfolding 2(5) if_P [OF 2(1)]
    by (intro conjI ballI allI impI committed_bucket [OF assms(1,4)] committed_other [OF assms(1,4)])
qed

lemma CheckAndDecrement_all_or_nothing_witness:
  "case CheckAndDecrement mem_redis net_ok (0, 0) (NewEnforcer 3600)
      [task_ref ''t'' ''a'' ''k'' 500, tenant_ref ''t'' 1000] 100 0 mem_empty of
     (Inr d, _, st') \<Rightarrow> Allowed d \<and> st' ''budget:t:a:k'' ''tokens_remaining'' = Some 400 \<and>
        st' ''budget:t:-:-'' ''tokens_remaining'' = Some 900 \<and> st' ''other'' = mem_empty ''other''
   | _ \<Rightarrow> False"
  using CheckAndDecrement_all_or_nothing
    [of mem_redis net_ok "NewEnforcer 3600" "[task_ref ''t'' ''a'' ''k'' 500, tenant_ref ''t'' 1000]" "(0, 0)" 100 0 mem_empty]
  by (simp add: closed_call view_def ref_args_def)

text \<open>C15: the admission condition. A check of a nonnegative request that reaches the server is
  allowed exactly when every enforced dimension of every bucket has at least the requested
  balance after its refill; a dimension whose limit is 0 never rejects.\<close>

theorem CheckAndDecrement_allowed_iff:
  assumes "reachable_backend net e" "refs \<noteq> []" "0 \<le> t" "0 \<le> u"
  shows "\<exists>d e' st'. CheckAndDecrement rd net tm e refs t u st = (Inr d, e', st') \<and>
    (Allowed d \<longleftrightarrow>
      (\<forall>r\<in>set refs.
        (TokenLimit (Limits r) \<le> 0 \<or> f64_of_int t \<le> computed_tokens (view rd (lua_now tm) st r)) \<and>
        (DollarLimit (Limits r) \<le> 0 \<or> u \<le> computed_usd (view rd (lua_now tm) st r))))"
proof (cases rule: CheckAndDecrement_cases [OF assms(2,1), of t u rd tm st])
  case (2 e' j)
  then have "\<not> enough rd (lua_now tm) st refs (f64_of_int t) u" by (auto simp: enough_def)
  then show ?thesis using 2(6) by (force simp: enough_iff not_le)
next
  case (3 e')
  then show ?thesis by (auto simp: enough_iff not_le)
qed (use assms in auto)

lemma CheckAndDecrement_allowed_iff_witness:
  "\<exists>d e' st'. CheckAndDecrement mem_redis net_ok (0, 0) (NewEnforcer 3600) [tenant_ref ''t'' 1000] 1001 0 mem_empty
     = (Inr d, e', st') \<and> \<not> Allowed d"
  using CheckAndDecrement_allowed_iff [of net_ok "NewEnforcer 3600" "[tenant_ref ''t'' 1000]" 1001 0 mem_redis "(0, 0)" mem_empty]
  by (simp add: closed_view)

text \<open>The first bucket that is short is the one reported. If a bucket of the request lacks
  the balance, the check is rejected with the scope and the reason of the first such bucket in
  the order of the request, and the reported balances are that bucket's, cut to whole units.\<close>

theorem CheckAndDecrement_first_short:
  assumes "reachable_backend net e" "refs \<noteq> []" "0 \<le> t" "0 \<le> u"
    and "find_index (short (f64_of_int t) u) (map (view rd (lua_now tm) st) refs) = Some j"
  shows "\<exists>e'. CheckAndDecrement rd net tm e refs t u st =
    (Inr \<lparr>Allowed = False, Reason = scopeReason (Scope (refs ! j)), FailedScope = Scope (refs ! j),
          RemainingTokens = f64_of_int (int_reply rd (computed_tokens (view rd (lua_now tm) st (refs ! j)))),
          RemainingUSD = f64_of_int (int_reply rd (computed_usd (view rd (lua_now tm) st (refs ! j))))\<rparr>,
     e', st)"
proof -
  let ?P = "\<lambda>i. short (f64_of_int t) u (view rd (lua_now tm) st (refs ! i))"
  have j: "j < length refs" "?P j" "\<forall>i<j. \<not> ?P i"
    using find_index_SomeD [OF assms(5)] by auto
  show ?thesis
  proof (cases rule: CheckAndDecrement_cases [OF assms(2,1), of t u rd tm st])
    case 1
    then show ?thesis using assms(3,4) by simp
  next
    case (2 e' j')
    then have "j' = j" using j by (meson linorder_neqE_nat)
    then show ?thesis using 2(6) by auto
  next
    case (3 e')
    then show ?thesis using j(1,2) by (auto simp: enough_def)
  qed
qed

lemma CheckAndDecrement_first_short_witness:
  "\<exists>e'. CheckAndDecrement mem_redis net_ok (0, 0) (NewEnforcer 3600)
      [task_ref ''t'' ''a'' ''k'' 500, tenant_ref ''t'' 200] 300 0 mem_empty =
    (Inr \<lparr>Allowed = False, Reason = ReasonOverTenantBudget, FailedScope = ScopeTenant,
          RemainingTokens = 200, RemainingUSD = 0\<rparr>, e', mem_empty)"
  using CheckAndDecrement_first_short
    [of net_ok "NewEnforcer 3600" "[task_ref ''t'' ''a'' ''k'' 500, tenant_ref ''t'' 200]" 300 0 mem_redis "(0, 0)" mem_empty 1]
  by (simp add: closed_view short_def trunc_rat_def)

text \<open>A negative request is refused as invalid before any bucket is read, and nothing is
  written; in particular a negative request can never add to a balance.\<close>

theorem CheckAndDecrement_negative:
  assumes "reachable_backend net e" "refs \<noteq> []" "t < 0 \<or> u < 0"
  shows "\<exists>e'. CheckAndDecrement rd net tm e refs t u st =
    (Inr \<lparr>Allowed = False, Reason = ReasonInvalidRequest, FailedScope = NoScope,
          RemainingTokens = 0, RemainingUSD = 0\<rparr>, e', st)"
  by (rule CheckAndDecrement_cases [OF assms(2,1), of t u rd tm st]) (use assms(3) in auto)

lemma CheckAndDecrement_negative_witness:
  "\<exists>e'. CheckAndDecrement mem_redis net_ok (0, 0) (NewEnforcer 3600) [tenant_ref ''t'' 200] (- 5) 0 mem_empty =
    (Inr \<lparr>Allowed = False, Reason = ReasonInvalidRequest, FailedScope = NoScope,
          RemainingTokens = 0, RemainingUSD = 0\<rparr>, e', mem_empty)"
  by (rule CheckAndDecrement_negative) (simp_all add: closed_refs)

section \<open>Faults of the connection\<close>

text \<open>C25: the enforcer fails closed. When the script's reply does not arrive the call reports
  the backend as unavailable, never a decision, and, if the client has not sent the command again, the script has run at most
  once: the store is as before or as one run leaves it.\<close>

theorem CheckAndDecrement_fails_closed:
  assumes "runs_once net" "\<not> reachable_backend net e" "refs \<noteq> []"
  shows "\<exists>err e' st'. CheckAndDecrement rd net tm e refs t u st = (Inl (ErrBackendUnavailable err), e', st') \<and>
    (st' = st \<or> st' = snd (lua_script rd tm (map RefKey refs) (script_argv e refs t u) st))"
  by (rule unreachable_call [OF assms])

lemma CheckAndDecrement_fails_closed_witness:
  "\<exists>err e' st'. CheckAndDecrement mem_redis net_down (0, 0) (NewEnforcer 3600) [tenant_ref ''t'' 200] 10 0 mem_empty =
     (Inl (ErrBackendUnavailable err), e', st') \<and>
    (st' = mem_empty \<or> st' = snd (lua_script mem_redis (0, 0) (map RefKey [tenant_ref ''t'' 200])
        (script_argv (NewEnforcer 3600) [tenant_ref ''t'' 200] 10 0) mem_empty))"
  by (rule CheckAndDecrement_fails_closed) (simp_all add: closed_refs runs_once_def)

text \<open>Recovery from a flushed script cache. If Redis has forgotten the script, one call
  gives the same decision and the same store as if it had not, and leaves the digest of the
  script loaded again for the next call.\<close>

theorem CheckAndDecrement_noscript_recovery:
  assumes "sha e \<noteq> []" "evalsha_fault net = Some (err, False)" "isNoScriptErr err" "eval_fault net = None"
    and "load_result net = Some s"
    and "CheckAndDecrement rd (net\<lparr>evalsha_fault := None\<rparr>) tm e refs t u st = (Inr d, e0, st')"
  shows "CheckAndDecrement rd net tm e refs t u st = (Inr d, e\<lparr>sha := s\<rparr>, st')"
proof -
  let ?script = "\<lambda>tm. lua_script rd tm (map RefKey refs) (script_argv e refs t u)"
  obtain res st1 where run: "?script tm (rerun ?script (resent net) st) = (Inr res, st1)"
    using lua_script_Inr [of rd tm refs e t u "rerun ?script (resent net) st"] by blast
  show ?thesis
    using assms by (auto simp: CheckAndDecrement_def eval_def run_cmd_def eval_fallback_def LoadScript_def run split: if_splits)
qed

lemma CheckAndDecrement_noscript_recovery_witness:
  "\<exists>d e0 st'. CheckAndDecrement mem_redis net_ok (0, 0) \<lparr>sha = ''dead'', stateTTL = 60\<rparr> [tenant_ref ''t'' 200] 10 0 mem_empty
       = (Inr d, e0, st') \<and>
     CheckAndDecrement mem_redis net_flushed (0, 0) \<lparr>sha = ''dead'', stateTTL = 60\<rparr> [tenant_ref ''t'' 200] 10 0 mem_empty
       = (Inr d, \<lparr>sha = ''5a1f'', stateTTL = 60\<rparr>, st')"
proof -
  let ?e = "\<lparr>sha = ''dead'', stateTTL = 60\<rparr>"
  obtain d e0 st' where ok:
    "CheckAndDecrement mem_redis net_ok (0, 0) ?e [tenant_ref ''t'' 200] 10 0 mem_empty = (Inr d, e0, st')"
    using reachable_decision [of "[tenant_ref ''t'' 200]" net_ok ?e mem_redis "(0, 0)" 10 0 mem_empty]
    by (auto simp: reachable_backend_def net_ok_def)
  then show ?thesis
    using CheckAndDecrement_noscript_recovery
      [of ?e net_flushed "''NOSCRIPT No matching script.''" "''5a1f''" mem_redis "(0, 0)" "[tenant_ref ''t'' 200]" 10 0 mem_empty d e0 st']
    by (simp add: net_flushed_def net_ok_def isNoScriptErr_def)
qed

section \<open>Balances after a check\<close>

text \<open>C26: no check overdraws. After an allowed check the stored balance of every enforced
  dimension lies between 0 and its limit (token limits of at most 14 digits, which the store's
  decimal text holds exactly; the dollar limit as that text).\<close>

theorem CheckAndDecrement_balance_bounds:
  assumes "redis_laws rd" "reachable_backend net e" "refs \<noteq> []" "distinct (map RefKey refs)"
    and "CheckAndDecrement rd net tm e refs t u st = (Inr d, e', st')" "Allowed d" "r \<in> set refs"
  shows "(0 < TokenLimit (Limits r) \<and> TokenLimit (Limits r) \<le> 10 ^ 14 \<longrightarrow>
      (\<exists>v. hget rd st' (RefKey r) ''tokens_remaining'' = Some v \<and> 0 \<le> v \<and> v \<le> of_int (TokenLimit (Limits r)))) \<and>
    (0 < DollarLimit (Limits r) \<and> f64 (DollarLimit (Limits r)) = DollarLimit (Limits r) \<longrightarrow>
      (\<exists>v. hget rd st' (RefKey r) ''usd_remaining'' = Some v \<and> 0 \<le> v \<and> v \<le> dec14 (DollarLimit (Limits r))))"
proof (cases rule: Allowed_cases [OF assms(3,2,5)])
  case 1
  with assms(6) show ?thesis by simp
next
  case 2
  note en = 2(4) [unfolded enough_iff, rule_format, OF assms(7)]
  let ?b = "left_tokens rd (lua_now tm) st (f64_of_int t) r" and ?c = "left_usd rd (lua_now tm) st u r"
  have "0 \<le> dec14 ?b \<and> dec14 ?b \<le> of_int (TokenLimit (Limits r))"
    if "0 < TokenLimit (Limits r)" "TokenLimit (Limits r) \<le> 10 ^ 14"
  proof -
    note b = left_tokens_bounds [OF f64_of_int_nonneg [OF 2(2)] conjunct1 [OF en, rule_format, OF that(1)] that(1)]
    have "f64_of_int (TokenLimit (Limits r)) = of_int (TokenLimit (Limits r))" using that by simp
    then show ?thesis
      using b dec14.r_nonneg [OF b(1)] dec14.r_le_fixed [of ?b "of_int (TokenLimit (Limits r))"] that
      by (simp add: dec14_of_int)
  qed
  moreover have "0 \<le> dec14 ?c \<and> dec14 ?c \<le> dec14 (DollarLimit (Limits r))"
    if "0 < DollarLimit (Limits r)" "f64 (DollarLimit (Limits r)) = DollarLimit (Limits r)"
  proof -
    note c = left_usd_bounds [OF 2(3) conjunct2 [OF en, rule_format, OF that(1)] that]
    then show ?thesis using dec14.r_nonneg [OF c(1)] dec14.r_mono [OF c(2)] by blast
  qed
  ultimately show ?thesis
    unfolding 2(5) by (simp add: committed_bucket [OF assms(1,4,7)])
qed

lemma CheckAndDecrement_balance_bounds_witness:
  "\<exists>d e' st' v. CheckAndDecrement mem_redis net_ok (0, 0) (NewEnforcer 3600) [tenant_ref ''t'' 1000] 300 0 mem_empty
     = (Inr d, e', st') \<and> st' ''budget:t:-:-'' ''tokens_remaining'' = Some v \<and> 0 \<le> v \<and> v \<le> 1000"
proof -
  obtain d e' st' where call:
    "CheckAndDecrement mem_redis net_ok (0, 0) (NewEnforcer 3600) [tenant_ref ''t'' 1000] 300 0 mem_empty = (Inr d, e', st')"
    "Allowed d"
    by (rule allowed_call [of "[tenant_ref ''t'' 1000]" net_ok "NewEnforcer 3600" 300 0 mem_redis "(0, 0)" mem_empty])
      (simp_all add: closed_view enough_def short_def)
  have "\<exists>v. hget mem_redis st' ''budget:t:-:-'' ''tokens_remaining'' = Some v \<and> 0 \<le> v \<and> v \<le> 1000"
    using CheckAndDecrement_balance_bounds [OF redis_laws_mem _ _ _ call, of "tenant_ref ''t'' 1000"]
    by (simp add: closed_refs)
  with call(1) show ?thesis unfolding mem_redis_def redis.select_convs by blast
qed

section \<open>What the caller is told\<close>

lemma min_left_least:
  assumes "r \<in> set refs" "P r"
  shows "min_left P v refs \<le> v r" and "\<exists>r'\<in>set refs. P r' \<and> min_left P v refs = v r'"
proof -
  obtain y where "fold (\<lambda>r m. keep_min (P r) m (v r)) refs None = Some y"
    using keep_min_fold_None [of P v refs None] assms by (metis option.exhaust)
  with keep_min_fold [OF this] assms
  show "min_left P v refs \<le> v r" "\<exists>r'\<in>set refs. P r' \<and> min_left P v refs = v r'"
    by (auto simp: min_left_def)
qed

lemma int_of_trunc: "redis_laws rd \<Longrightarrow> \<bar>trunc_rat x\<bar> \<le> 2 ^ 53 \<Longrightarrow> f64_of_int (int_reply rd x) = of_int (trunc_rat x)"
  by (simp add: int_reply_trunc)

text \<open>The remaining dollars reported to the caller are whole dollars. After an allowed check
  the reported amount is never more than what any enforced bucket has left, and it is reported
  as 0 as soon as some enforced bucket has less than one dollar left.\<close>

theorem RemainingUSD_whole_dollars:
  assumes "redis_laws rd" "reachable_backend net e" "refs \<noteq> []"
    and "CheckAndDecrement rd net tm e refs t u st = (Inr d, e', st')" "Allowed d"
    and "r \<in> set refs" "0 < DollarLimit (Limits r)"
    and "f64_sub (computed_usd (view rd (lua_now tm) st r)) u < 2 ^ 53"
  shows "RemainingUSD d \<le> f64_sub (computed_usd (view rd (lua_now tm) st r)) u \<and> RemainingUSD d \<in> \<int> \<and>
    (f64_sub (computed_usd (view rd (lua_now tm) st r)) u < 1 \<longrightarrow> RemainingUSD d = 0)"
proof (cases rule: CheckAndDecrement_cases [OF assms(3,2), of t u rd tm st])
  case (3 e'')
  let ?left = "left_usd rd (lua_now tm) st u"
  let ?P = "\<lambda>r. 0 < DollarLimit (Limits r)"
  let ?m = "min_left ?P ?left refs"
  have d: "RemainingUSD d = f64_of_int (int_reply rd ?m)" using 3(4) assms(4) by simp
  obtain r' where r': "r' \<in> set refs" "?P r'" "?m = ?left r'"
    using min_left_least(2) [where P = ?P, OF assms(6,7)] by blast
  have "u \<le> computed_usd (view rd (lua_now tm) st r')" using 3(3) r'(1,2) by (simp add: enough_iff)
  then have "0 \<le> ?left r'" unfolding f64_sub_def by (rule f64.r_sub_nonneg)
  then have m0: "0 \<le> ?m" by (simp only: r'(3))
  have m1: "?m \<le> ?left r" using min_left_least(1) [where P = ?P, OF assms(6,7)] .
  note tr = trunc_rat_nonneg [OF m0]
  have "of_int (trunc_rat ?m) < (2::rat) ^ 53" using tr m1 assms(8) by linarith
  then have "trunc_rat ?m < 2 ^ 53" by (simp only: of_int_less_numeral_power_cancel_iff)
  moreover have "0 \<le> trunc_rat ?m" using tr m0 by linarith
  ultimately have dm: "RemainingUSD d = of_int (trunc_rat ?m)" unfolding d by (simp add: int_of_trunc [OF assms(1)])
  show ?thesis
    unfolding dm using tr m0 m1 trunc_rat_lower_unit [OF m0] by auto
qed (use assms(4,5) in auto)

definition dollar_ref :: "rat \<Rightarrow> bucket_ref" where
  "dollar_ref x = (tenant_ref ''t'' 0)\<lparr>Limits := zero_limits\<lparr>DollarLimit := x\<rparr>\<rparr>"

lemma RemainingUSD_whole_dollars_witness:
  "\<exists>d e' st'. CheckAndDecrement mem_redis net_ok (0, 0) (NewEnforcer 3600) [dollar_ref 1] 10 (1 / 4) mem_empty
     = (Inr d, e', st') \<and> Allowed d \<and> RemainingUSD d = 0"
proof -
  have left: "f64_sub (computed_usd (view mem_redis (lua_now (0, 0)) mem_empty (dollar_ref 1))) (1 / 4) = 3 / 4"
    by (simp add: closed_view dollar_ref_def) (simp add: f64_eval)
  obtain d e' st' where call:
    "CheckAndDecrement mem_redis net_ok (0, 0) (NewEnforcer 3600) [dollar_ref 1] 10 (1 / 4) mem_empty = (Inr d, e', st')"
    "Allowed d"
    by (rule allowed_call [of "[dollar_ref 1]" net_ok "NewEnforcer 3600" 10 "1 / 4" mem_redis "(0, 0)" mem_empty])
      (simp_all add: closed_view enough_def short_def dollar_ref_def)
  have "RemainingUSD d = 0"
    using RemainingUSD_whole_dollars [OF redis_laws_mem _ _ call, of "dollar_ref 1"] left
    by (simp add: closed_refs dollar_ref_def)
  with call show ?thesis by blast
qed

section \<open>Reservation and reconciliation\<close>

lemma f64_of_int_le_imp:
  assumes "f64_of_int t \<le> of_int m" "\<bar>m\<bar> < 2 ^ 53"
  shows "t \<le> m"
proof (rule ccontr)
  assume "\<not> t \<le> m"
  then have "f64_of_int (m + 1) \<le> f64_of_int t" by (intro f64_of_int_mono) simp
  moreover have "f64_of_int (m + 1) = of_int (m + 1)" using assms(2) by (intro f64_of_int_exact) linarith
  ultimately show False using assms(1) by (simp only: of_int_le_iff)
qed

text \<open>What an allowed check leaves of an integer balance.\<close>

lemma left_tokens_int:
  assumes "computed_tokens (view rd now st r) = of_int b" "0 \<le> t" "f64_of_int t \<le> of_int b" "b \<le> 10 ^ 14"
  shows "t \<le> b" and "dec14 (left_tokens rd now st (f64_of_int t) r) = of_int (b - t)"
proof -
  have "0 \<le> f64_of_int t" by (rule f64_of_int_nonneg [OF assms(2)])
  then have "(0::rat) \<le> of_int b" using assms(3) by linarith
  then have b: "0 \<le> b" by simp
  then have "\<bar>b\<bar> < 2 ^ 53" using assms(4) by simp
  then show t: "t \<le> b" using f64_of_int_le_imp [OF assms(3)] by simp
  have "f64_of_int t = of_int t" using t assms(2,4) by (intro f64_of_int_exact) simp
  moreover have "f64 (of_int (b - t)) = of_int (b - t)" using t assms(2,4) by (intro f64_short_int) simp
  ultimately have "left_tokens rd now st (f64_of_int t) r = of_int (b - t)" by (simp add: assms(1) f64_sub_def)
  moreover have "dec14 (of_int (b - t)) = of_int (b - t)" using t assms(2,4) by (intro dec14_of_int) simp
  ultimately show "dec14 (left_tokens rd now st (f64_of_int t) r) = of_int (b - t)" by simp
qed

lemma wrap64_diff: "\<bar>m\<bar> \<le> 2 ^ 52 \<Longrightarrow> \<bar>n\<bar> \<le> 2 ^ 52 \<Longrightarrow> f64_of_int (wrap64 (m - n)) = of_int (m - n)"
  by (subst wrap64_id) (auto simp: in_int64_def min_int64_def max_int64_def intro: f64_of_int_exact)

text \<open>An admitted request on an integer balance.\<close>

lemma admitted_int:
  assumes "reachable_backend net e" "refs \<noteq> []" "CheckAndDecrement rd net tm e refs t u st = (Inr d, e', st1)" "Allowed d"
    and "r \<in> set refs" "0 < TokenLimit (Limits r)" "TokenLimit (Limits r) \<le> 10 ^ 14"
    and "computed_tokens (view rd (lua_now tm) st r) = of_int b"
  shows "0 \<le> t" "t \<le> b" "b \<le> 10 ^ 14" "st1 = committed rd (lua_now tm) e refs (f64_of_int t) u st"
    and "dec14 (left_tokens rd (lua_now tm) st (f64_of_int t) r) = of_int (b - t)"
proof -
  have adm: "0 \<le> t" "enough rd (lua_now tm) st refs (f64_of_int t) u" "st1 = committed rd (lua_now tm) e refs (f64_of_int t) u st"
    using Allowed_cases [OF assms(2,1,3)] assms(4) by blast+
  show "0 \<le> t" "st1 = committed rd (lua_now tm) e refs (f64_of_int t) u st" by (rule adm)+
  have "f64_of_int (TokenLimit (Limits r)) = of_int (TokenLimit (Limits r))"
    using assms(6,7) by (intro f64_of_int_exact) simp
  then have "(of_int b :: rat) \<le> of_int (TokenLimit (Limits r))"
    using view_tokens_le [OF assms(6), of rd "lua_now tm" st] assms(8) by simp
  then show b: "b \<le> 10 ^ 14" using assms(7) by simp
  have "f64_of_int t \<le> of_int b" using adm(2) assms(5,6,8) by (auto simp: enough_iff)
  note left = left_tokens_int [OF assms(8) adm(1) this b]
  show "t \<le> b" "dec14 (left_tokens rd (lua_now tm) st (f64_of_int t) r) = of_int (b - t)" by (rule left)+
qed

lemma charge_after_reconcile:
  assumes "redis_laws rd" "reachable_backend net e" "refs \<noteq> []" "distinct (map RefKey refs)"
    and "CheckAndDecrement rd net tm e refs t u st = (Inr d, e', st1)" "Allowed d"
    and "Reconcile rd no_fault refs t u act au st1 = (err, st2)"
    and "r \<in> set refs" "0 < TokenLimit (Limits r)" "TokenLimit (Limits r) \<le> 10 ^ 14" "\<bar>act\<bar> \<le> 2 ^ 52"
    and "computed_tokens (view rd (lua_now tm) st r) = of_int b"
  shows "\<not> err \<and> hget rd st2 (RefKey r) ''tokens_remaining'' = Some (of_int (b - act))"
proof -
  note adm = admitted_int [OF assms(2,3,5,6,8-10,12)]
  have st1: "hget rd st1 (RefKey r) ''tokens_remaining'' = Some (of_int (b - t))"
    unfolding adm(4) committed_bucket(1) [OF assms(1,4,8)] adm(5) ..
  have dt: "f64_of_int (wrap64 (t - act)) = of_int (t - act)"
    using adm(1-3) assms(11) by (intro wrap64_diff) auto
  have "incr_sum rd (of_int (b - t)) (of_int (t - act)) = of_int ((b - t) + (t - act))"
    using adm(1-3) assms(11) by (intro incr_sum_of_int [OF assms(1)]) auto
  then show ?thesis
    using Reconcile_ok_hget(1) [OF assms(1,4,8,7)] Reconcile_ok_hget(2) [OF assms(1,4,8,7), of "''tokens_remaining''"] st1
    by (simp add: dt delta_of_def assms(9))
qed

text \<open>C16: after reconciliation the bucket is charged exactly what the call used. If a check
  reserved an estimate from an integer token balance and the call is then reconciled with its
  actual usage, the stored balance is the balance before the check less the actual usage: less
  than the reservation was refunded, more was charged (even below zero), and a call that used
  nothing restores the balance.\<close>

theorem Reconcile_charges_actual:
  assumes "redis_laws rd" "reachable_backend net e" "refs \<noteq> []" "distinct (map RefKey refs)"
    and "CheckAndDecrement rd net tm e refs t u st = (Inr d, e', st1)" "Allowed d"
    and "Reconcile rd no_fault refs t u act au st1 = (err, st2)"
    and "r \<in> set refs" "0 < TokenLimit (Limits r)" "TokenLimit (Limits r) \<le> 10 ^ 14" "\<bar>act\<bar> \<le> 2 ^ 52"
    and "computed_tokens (view rd (lua_now tm) st r) = of_int b"
  shows "\<not> err \<and> hget rd st2 (RefKey r) ''tokens_remaining'' = Some (of_int (b - act))"
  by (rule charge_after_reconcile [OF assms])

lemma Reconcile_charges_actual_witness:
  "\<exists>d e' st1 err st2. CheckAndDecrement mem_redis net_ok (0, 0) (NewEnforcer 3600) [tenant_ref ''t'' 1000] 300 0 mem_empty
       = (Inr d, e', st1) \<and>
     Reconcile mem_redis no_fault [tenant_ref ''t'' 1000] 300 0 120 0 st1 = (err, st2) \<and>
     \<not> err \<and> st2 ''budget:t:-:-'' ''tokens_remaining'' = Some 880"
proof -
  let ?refs = "[tenant_ref ''t'' 1000]"
  have "\<exists>d e' st1. CheckAndDecrement mem_redis net_ok (0, 0) (NewEnforcer 3600) ?refs 300 0 mem_empty = (Inr d, e', st1) \<and> Allowed d"
    by (simp add: closed_call)
  then obtain d e' st1 where call:
    "CheckAndDecrement mem_redis net_ok (0, 0) (NewEnforcer 3600) ?refs 300 0 mem_empty = (Inr d, e', st1)" "Allowed d"
    by blast
  obtain err st2 where rec: "Reconcile mem_redis no_fault ?refs 300 0 120 0 st1 = (err, st2)" by fastforce
  have "\<not> err \<and> hget mem_redis st2 ''budget:t:-:-'' ''tokens_remaining'' = Some 880"
    using Reconcile_charges_actual [OF redis_laws_mem _ _ _ call rec, of "tenant_ref ''t'' 1000" 1000]
    by (simp add: closed_view)
  with call(1) rec show ?thesis unfolding mem_redis_def redis.select_convs by blast
qed

lemma abs_diff_triangle3:
  "\<bar>v - (c - a)\<bar> \<le> \<bar>v - (x + y)\<bar> + \<bar>x - (c - u)\<bar> + \<bar>y - (u - a)\<bar>" for v :: rat
  by arith

text \<open>The error of the three roundings a dollar balance goes through.\<close>

lemma dollar_rounding:
  assumes "0 \<le> u" "u \<le> c" "c \<le> D" "f64 D = D" "0 \<le> au" "au \<le> D"
  defines "v1 \<equiv> dec14 (f64_sub c u)" and "du \<equiv> f64_sub u au"
  shows "\<bar>v1 - (c - u)\<bar> \<le> D / 10 ^ 13 - D / 10 ^ 14" and "\<bar>du - (u - au)\<bar> \<le> D / 10 ^ 15"
    and "(\<bar>v1\<bar> + \<bar>du\<bar>) / 2 ^ 52 \<le> D / 10 ^ 15"
proof -
  have D: "0 \<le> D" using assms by linarith
  have w: "0 \<le> f64 (c - u)" "f64 (c - u) \<le> D"
    using f64.r_nonneg [of "c - u"] f64.r_le_fixed [of "c - u" D] assms by auto
  have e1: "\<bar>f64 (c - u) - (c - u)\<bar> \<le> D / 2 ^ 53" using f64.r_err [of "c - u"] assms(1-3) by (auto simp: abs_if)
  have e2: "\<bar>v1 - f64 (c - u)\<bar> \<le> 5 * D / 10 ^ 14"
    using dec14.r_err [of "f64 (c - u)"] w by (auto simp: v1_def f64_sub_def abs_if)
  show "\<bar>v1 - (c - u)\<bar> \<le> D / 10 ^ 13 - D / 10 ^ 14" using e1 e2 D by (simp add: abs_if split: if_splits)
  have ab: "\<bar>u - au\<bar> \<le> D" using assms by (simp add: abs_if)
  have e3: "\<bar>du - (u - au)\<bar> \<le> D / 2 ^ 53"
    using f64.r_err [of "u - au"] ab by (simp add: du_def f64_sub_def)
  also have "\<dots> \<le> D / 10 ^ 15" using D by (simp add: field_simps)
  finally show "\<bar>du - (u - au)\<bar> \<le> D / 10 ^ 15" .
  have "\<bar>v1\<bar> \<le> 2 * D" using e2 w D by (simp add: abs_if split: if_splits)
  moreover have "\<bar>du\<bar> \<le> 2 * D" using e3 ab D by (simp add: abs_if split: if_splits)
  ultimately have "\<bar>v1\<bar> + \<bar>du\<bar> \<le> 4 * D" by linarith
  then show "(\<bar>v1\<bar> + \<bar>du\<bar>) / 2 ^ 52 \<le> D / 10 ^ 15" using D by (simp add: field_simps)
qed

text \<open>The same for dollars, up to rounding. After an allowed check and its reconciliation the
  stored dollar balance differs from the balance before the check less the actual cost by at most
  one part in 10^13 of the limit (and 10^-17 dollars for the printed decimals), whatever the three
  roundings on the way did.\<close>

theorem Reconcile_dollar_error:
  assumes "redis_laws rd" "reachable_backend net e" "refs \<noteq> []" "distinct (map RefKey refs)"
    and "CheckAndDecrement rd net tm e refs t u st = (Inr d, e', st1)" "Allowed d"
    and "Reconcile rd no_fault refs t u act au st1 = (err, st2)"
    and "r \<in> set refs" "0 < DollarLimit (Limits r)" "f64 (DollarLimit (Limits r)) = DollarLimit (Limits r)"
    and "0 \<le> au" "au \<le> DollarLimit (Limits r)"
  shows "\<exists>v. hget rd st2 (RefKey r) ''usd_remaining'' = Some v \<and>
    \<bar>v - (computed_usd (view rd (lua_now tm) st r) - au)\<bar> \<le> DollarLimit (Limits r) / 10 ^ 13 + 1 / 10 ^ 17"
proof (cases rule: Allowed_cases [OF assms(3,2,5)])
  case 1
  with assms(6) show ?thesis by simp
next
  case 2
  let ?c = "computed_usd (view rd (lua_now tm) st r)" and ?D = "DollarLimit (Limits r)"
  let ?v1 = "dec14 (f64_sub ?c u)" and ?du = "f64_sub u au"
  have c: "u \<le> ?c" using 2(4) assms(8,9) by (simp add: enough_iff)
  note err = dollar_rounding [OF 2(3) c view_usd_le [OF assms(9)] assms(10-12)]
  have st1: "hget rd st1 (RefKey r) ''usd_remaining'' = Some ?v1"
    unfolding 2(5) by (rule committed_bucket(2) [OF assms(1,4,8)])
  have sum: "\<bar>incr_sum rd ?v1 ?du - (?v1 + ?du)\<bar> \<le> 1 / 10 ^ 17 + (\<bar>?v1\<bar> + \<bar>?du\<bar>) / 2 ^ 52"
    by (rule incr_sum_err [OF assms(1)])
  define v where "v = (if ?du \<noteq> 0 then incr_sum rd ?v1 ?du else ?v1)"
  have "hget rd st2 (RefKey r) ''usd_remaining'' = Some v"
    using Reconcile_ok_hget(2) [OF assms(1,4,8,7), of "''usd_remaining''"] st1
    by (simp add: delta_of_def assms(9) v_def)
  moreover have "\<bar>v - (?v1 + ?du)\<bar> \<le> 1 / 10 ^ 17 + ?D / 10 ^ 15"
  proof (cases "?du = 0")
    case True
    then show ?thesis using assms(9) by (simp add: v_def)
  next
    case False
    then show ?thesis using err(3) sum unfolding v_def if_P [OF False] by linarith
  qed
  then have "\<bar>v - (?c - au)\<bar> \<le> ?D / 10 ^ 13 + 1 / 10 ^ 17"
    using err(1,2) assms(9) abs_diff_triangle3 [of v ?c au ?v1 ?du u] by (simp add: field_simps)
  ultimately show ?thesis by blast
qed

lemma Reconcile_dollar_error_witness:
  "\<exists>d e' st1 err st2 v.
     CheckAndDecrement mem_redis net_ok (0, 0) (NewEnforcer 3600) [dollar_ref 50] 300 (1 / 4) mem_empty = (Inr d, e', st1) \<and>
     Reconcile mem_redis no_fault [dollar_ref 50] 300 (1 / 4) 120 (1 / 10) st1 = (err, st2) \<and>
     st2 ''budget:t:-:-'' ''usd_remaining'' = Some v \<and> \<bar>v - (50 - 1 / 10)\<bar> \<le> 50 / 10 ^ 13 + 1 / 10 ^ 17"
proof -
  obtain d e' st1 where call:
    "CheckAndDecrement mem_redis net_ok (0, 0) (NewEnforcer 3600) [dollar_ref 50] 300 (1 / 4) mem_empty = (Inr d, e', st1)"
    "Allowed d"
    by (rule allowed_call [of "[dollar_ref 50]" net_ok "NewEnforcer 3600" 300 "1 / 4" mem_redis "(0, 0)" mem_empty])
      (simp_all add: closed_view enough_def short_def dollar_ref_def)
  obtain err st2 where rec: "Reconcile mem_redis no_fault [dollar_ref 50] 300 (1 / 4) 120 (1 / 10) st1 = (err, st2)" by fastforce
  have "computed_usd (view mem_redis (lua_now (0, 0)) mem_empty (dollar_ref 50)) = 50" by (simp add: closed_view dollar_ref_def)
  then have "\<exists>v. hget mem_redis st2 ''budget:t:-:-'' ''usd_remaining'' = Some v \<and> \<bar>v - (50 - 1 / 10)\<bar> \<le> 50 / 10 ^ 13 + 1 / 10 ^ 17"
    using Reconcile_dollar_error [OF redis_laws_mem _ _ _ call rec, of "dollar_ref 50"] by (simp add: closed_refs dollar_ref_def)
  with call(1) rec show ?thesis unfolding mem_redis_def redis.select_convs by blast
qed

end
