(* ===== verification/OpenAI.thy ===== *)
theory OpenAI
  imports Provider "HOL-Library.Monad_Syntax"
begin

text \<open>
  The OpenAI adapter, \<open>gateway/internal/provider/openai.go\<close>: the translation of a request, the
  exchange, the decoding of a completion, the scan of an event stream and the error envelope.
  \<open>unmarshal\<close> parses the JSON text of a line.
\<close>

section \<open>Requests\<close>

record OpenAIProvider =
  OAPIKey :: string
  OBaseURL :: string

definition NewOpenAIProvider :: "string \<Rightarrow> string \<Rightarrow> OpenAIProvider" where
  "NewOpenAIProvider apiKey baseURL = \<lparr>OAPIKey = apiKey, OBaseURL = trim_right_slash baseURL\<rparr>"

definition openai_Name :: string where
  "openai_Name = ''openai''"

record openAIChatRequest =
  OModel :: string
  OMessages :: "message list"
  MaxCompletionTokens :: int
  OTemperature :: "rat option"
  OStream :: bool
  IncludeUsage :: "bool option"

definition toOpenAIRequest :: "request \<Rightarrow> openAIChatRequest" where
  "toOpenAIRequest req =
     (let msgs = (if ReqSystem req \<noteq> [] then [\<lparr>Role = ''system'', Content = ReqSystem req\<rparr>] else []);
          msgs = msgs @ map (\<lambda>m. \<lparr>Role = Role m, Content = Content m\<rparr>) (Messages req);
          temp = (if Temperature req \<noteq> 0 then Some (Temperature req) else None)
      in \<lparr>OModel = ReqModel req, OMessages = msgs, MaxCompletionTokens = ReqMaxTokens req,
          OTemperature = temp, OStream = ReqStream req, IncludeUsage = Some True\<rparr>)"

definition message_json :: "message \<Rightarrow> json" where
  "message_json m = JObj [(''role'', JStr (Role m)), (''content'', JStr (Content m))]"

definition marshal_openai :: "openAIChatRequest \<Rightarrow> json" where
  "marshal_openai b = JObj
     ([(''model'', JStr (OModel b)), (''messages'', JArr (map message_json (OMessages b)))] @
      opt_field (MaxCompletionTokens b \<noteq> 0) ''max_completion_tokens'' (JInt (MaxCompletionTokens b)) @
      (case OTemperature b of Some t \<Rightarrow> [(''temperature'', JNum t)] | None \<Rightarrow> []) @
      opt_field (OStream b) ''stream'' (JBool True) @
      (case IncludeUsage b of Some u \<Rightarrow> [(''stream_options'', JObj [(''include_usage'', JBool u)])] | None \<Rightarrow> []))"

definition openai_do :: "OpenAIProvider \<Rightarrow> transport \<Rightarrow> openAIChatRequest \<Rightarrow> string + http_response" where
  "openai_do p http b =
     http \<lparr>URL = OBaseURL p @ ''/chat/completions'',
           Headers = [(''Content-Type'', ''application/json''), (''Authorization'', ''Bearer '' @ OAPIKey p)],
           Body = marshal_openai b\<rparr>"

section \<open>Errors\<close>

text \<open>The error body is decoded leniently: what does not decode is empty.\<close>

record openAIErrorEnvelope =
  ErrorMessage :: string
  ErrorType :: string
  ErrorParam :: string
  ErrorCode :: string

definition decode_openai_error :: "json option \<Rightarrow> openAIErrorEnvelope" where
  "decode_openai_error body =
     (let fs = (case body of Some (JObj fs) \<Rightarrow> fs | _ \<Rightarrow> []);
          err = get_lax as_fields [] ''error'' fs
      in \<lparr>ErrorMessage = get_lax as_string [] ''message'' err, ErrorType = get_lax as_string [] ''type'' err,
          ErrorParam = get_lax as_string [] ''param'' err, ErrorCode = get_lax as_string [] ''code'' err\<rparr>)"

definition parseOpenAIError :: "http_response \<Rightarrow> go_error" where
  "parseOpenAIError resp =
     (let env = decode_openai_error (JsonBody resp)
      in provider_error ''unknown openai error'' (ErrorMessage env) (ErrorType env) resp)"

section \<open>Completions\<close>

record openAIUsage =
  PromptTokens :: int
  CompletionTokens :: int
  CachedTokens :: int

definition decode_openai_usage :: "json \<Rightarrow> openAIUsage option" where
  "decode_openai_usage j =
     do { fs \<leftarrow> as_fields j;
          prompt \<leftarrow> get as_int 0 ''prompt_tokens'' fs;
          completion \<leftarrow> get as_int 0 ''completion_tokens'' fs;
          _ \<leftarrow> get as_int 0 ''total_tokens'' fs;
          pd \<leftarrow> get as_fields [] ''prompt_tokens_details'' fs;
          cached \<leftarrow> get as_int 0 ''cached_tokens'' pd;
          cd \<leftarrow> get as_fields [] ''completion_tokens_details'' fs;
          _ \<leftarrow> get as_int 0 ''reasoning_tokens'' cd;
          Some \<lparr>PromptTokens = prompt, CompletionTokens = completion, CachedTokens = cached\<rparr> }"

definition no_openai_usage :: openAIUsage where
  "no_openai_usage = \<lparr>PromptTokens = 0, CompletionTokens = 0, CachedTokens = 0\<rparr>"

text \<open>A choice: the content of its message and the finish reason.\<close>

definition decode_openai_choice :: "json \<Rightarrow> (string \<times> string) option" where
  "decode_openai_choice j =
     do { fs \<leftarrow> as_fields j;
          _ \<leftarrow> get as_int 0 ''index'' fs;
          m \<leftarrow> get as_fields [] ''message'' fs;
          _ \<leftarrow> get as_string [] ''role'' m;
          content \<leftarrow> get as_string [] ''content'' m;
          finish \<leftarrow> get as_string [] ''finish_reason'' fs;
          Some (content, finish) }"

record openAIChatResponse =
  ORespID :: string
  ORespModel :: string
  Choices :: "(string \<times> string) list"
  ORespUsage :: openAIUsage

definition decode_openai_response :: "json \<Rightarrow> openAIChatResponse option" where
  "decode_openai_response j =
     do { fs \<leftarrow> as_fields j;
          i \<leftarrow> get as_string [] ''id'' fs;
          _ \<leftarrow> get as_string [] ''object'' fs;
          _ \<leftarrow> get as_int 0 ''created'' fs;
          m \<leftarrow> get as_string [] ''model'' fs;
          cs \<leftarrow> get (as_list decode_openai_choice) [] ''choices'' fs;
          u \<leftarrow> get decode_openai_usage no_openai_usage ''usage'' fs;
          Some \<lparr>ORespID = i, ORespModel = m, Choices = cs, ORespUsage = u\<rparr> }"

definition openai_Complete :: "OpenAIProvider \<Rightarrow> transport \<Rightarrow> int \<Rightarrow> request \<Rightarrow> go_error + response" where
  "openai_Complete p http latencyMs req =
     (let body = (toOpenAIRequest req)\<lparr>OStream := False\<rparr>
      in case openai_do p http body of
           Inl err \<Rightarrow> Inl (OtherErr err)
         | Inr resp \<Rightarrow>
             (if HttpStatus resp \<ge> 400 then Inl (parseOpenAIError resp)
              else
                (case Option.bind (JsonBody resp) decode_openai_response of
                   None \<Rightarrow> Inl (OtherErr ''openai: decode response'')
                 | Some parsed \<Rightarrow>
                     (case Choices parsed of
                        [] \<Rightarrow> Inl (OtherErr (''openai: empty choices in response '' @ ORespID parsed))
                      | (content, finish) # _ \<Rightarrow>
                          (let u = ORespUsage parsed;
                               usage = \<lparr>TokensIn = PromptTokens u, TokensOut = CompletionTokens u\<rparr>
                           in Inr \<lparr>RespID = ORespID parsed, RespModel = ORespModel parsed, RespContent = content,
                                   FinishReason = finish, RespUsage = usage,
                                   RespCostUSD = CostUSD (ReqModel req) (TokensIn usage) (CachedTokens u) (TokensOut usage),
                                   RespLatencyMs = latencyMs\<rparr>)))))"

section \<open>Streams\<close>

text \<open>A decoded chunk: the usage object if there is one, and the content and finish reason of the
  first choice if there is one.\<close>

definition decode_stream_choice :: "json \<Rightarrow> (string \<times> string) option" where
  "decode_stream_choice j =
     do { fs \<leftarrow> as_fields j;
          d \<leftarrow> get as_fields [] ''delta'' fs;
          content \<leftarrow> get as_string [] ''content'' d;
          finish \<leftarrow> get as_string [] ''finish_reason'' fs;
          Some (content, finish) }"

definition as_pointer :: "(json \<Rightarrow> 'a option) \<Rightarrow> json \<Rightarrow> 'a option option" where
  "as_pointer f j = (if j = JNull then Some None else map_option Some (f j))"

definition decode_openai_chunk :: "json \<Rightarrow> ((string \<times> string) list \<times> openAIUsage option) option" where
  "decode_openai_chunk j =
     do { fs \<leftarrow> as_fields j;
          cs \<leftarrow> get (as_list decode_stream_choice) [] ''choices'' fs;
          u \<leftarrow> get (as_pointer decode_openai_usage) None ''usage'' fs;
          Some (cs, u) }"

fun openai_scan :: "(string \<Rightarrow> json option) \<Rightarrow> string list \<Rightarrow> string option \<Rightarrow> 'w stream_writer \<Rightarrow> 'w
    \<Rightarrow> go_error option \<times> 'w" where
  "openai_scan unmarshal [] scan_err w s = (map_option OtherErr scan_err, s)"
| "openai_scan unmarshal (line # lines) scan_err w s =
     (case data_payload line of
        None \<Rightarrow> openai_scan unmarshal lines scan_err w s
      | Some payload \<Rightarrow>
          (if payload = ''[DONE]'' then (None, s)
           else
             (case Option.bind (unmarshal payload) decode_openai_chunk of
                None \<Rightarrow> openai_scan unmarshal lines scan_err w s
              | Some (choices, Some u) \<Rightarrow>
                  (case w (done_chunk [] \<lparr>TokensIn = PromptTokens u, TokensOut = CompletionTokens u\<rparr>) s of
                     (Some err, s') \<Rightarrow> (Some err, s')
                   | (None, s') \<Rightarrow> openai_scan unmarshal lines scan_err w s')
              | Some ([], None) \<Rightarrow> openai_scan unmarshal lines scan_err w s
              | Some ((content, finish) # _, None) \<Rightarrow>
                  (case w (delta_chunk content finish) s of
                     (Some err, s') \<Rightarrow> (Some err, s')
                   | (None, s') \<Rightarrow> openai_scan unmarshal lines scan_err w s'))))"

definition openai_Stream :: "OpenAIProvider \<Rightarrow> (string \<Rightarrow> json option) \<Rightarrow> transport \<Rightarrow> request \<Rightarrow> 'w stream_writer \<Rightarrow> 'w
    \<Rightarrow> go_error option \<times> 'w" where
  "openai_Stream p unmarshal http req w s =
     (let body = (toOpenAIRequest req)\<lparr>OStream := True\<rparr>
      in case openai_do p http body of
           Inl err \<Rightarrow> (Some (OtherErr err), s)
         | Inr resp \<Rightarrow>
             (if HttpStatus resp \<ge> 400 then (Some (parseOpenAIError resp), s)
              else openai_scan unmarshal (BodyLines resp) (ScanErr resp) w s))"

section \<open>The adapter keeps the contract\<close>

fun openai_plan :: "(string \<Rightarrow> json option) \<Rightarrow> string list \<Rightarrow> string option \<Rightarrow> chunk list \<times> go_error option" where
  "openai_plan unmarshal [] scan_err = ([], map_option OtherErr scan_err)"
| "openai_plan unmarshal (line # lines) scan_err =
     (case data_payload line of
        None \<Rightarrow> openai_plan unmarshal lines scan_err
      | Some payload \<Rightarrow>
          (if payload = ''[DONE]'' then ([], None)
           else
             (case Option.bind (unmarshal payload) decode_openai_chunk of
                None \<Rightarrow> openai_plan unmarshal lines scan_err
              | Some (choices, Some u) \<Rightarrow>
                  apfst (Cons (done_chunk [] \<lparr>TokensIn = PromptTokens u, TokensOut = CompletionTokens u\<rparr>))
                    (openai_plan unmarshal lines scan_err)
              | Some ([], None) \<Rightarrow> openai_plan unmarshal lines scan_err
              | Some ((content, finish) # _, None) \<Rightarrow>
                  apfst (Cons (delta_chunk content finish)) (openai_plan unmarshal lines scan_err))))"

lemma openai_scan_plan:
  "openai_scan unmarshal lines scan_err w s =
     write_all w (fst (openai_plan unmarshal lines scan_err)) (snd (openai_plan unmarshal lines scan_err)) s"
proof (induction lines arbitrary: s)
  case (Cons line lines)
  then show ?case by (auto split: option.split list.split prod.split)
qed simp

definition openai_outcome :: "OpenAIProvider \<times> (string \<Rightarrow> json option) \<times> transport \<Rightarrow> request
    \<Rightarrow> chunk list \<times> go_error option" where
  "openai_outcome i req =
     (case i of (p, unmarshal, http) \<Rightarrow>
        (case openai_do p http ((toOpenAIRequest req)\<lparr>OStream := True\<rparr>) of
           Inl err \<Rightarrow> ([], Some (OtherErr err))
         | Inr resp \<Rightarrow>
             (if HttpStatus resp \<ge> 400 then ([], Some (parseOpenAIError resp))
              else openai_plan unmarshal (BodyLines resp) (ScanErr resp))))"

interpretation openai: stream_provider "\<lambda>(p, unmarshal, http). openai_Stream p unmarshal http"
  "\<lambda>i req. fst (openai_outcome i req)" "\<lambda>i req. snd (openai_outcome i req)"
  by unfold_locales
    (auto simp: openai_Stream_def openai_outcome_def openai_scan_plan Let_def split: sum.split)

end
