(* ===== verification/Anthropic.thy ===== *)
theory Anthropic
  imports Provider "HOL-Library.Monad_Syntax"
begin

text \<open>
  The Anthropic adapter, \<open>gateway/internal/provider/anthropic.go\<close>: the translation of a request,
  the exchange, the decoding of a completion, the event loop over a stream, which carries the
  token counts from \<open>message_start\<close> and \<open>message_delta\<close> to \<open>message_stop\<close>, and the error envelope.
\<close>

section \<open>Requests\<close>

record AnthropicProvider =
  AAPIKey :: string
  ABaseURL :: string
  APIVersion :: string

definition NewAnthropicProvider :: "string \<Rightarrow> string \<Rightarrow> AnthropicProvider" where
  "NewAnthropicProvider apiKey baseURL =
     \<lparr>AAPIKey = apiKey, ABaseURL = trim_right_slash baseURL, APIVersion = ''2023-06-01''\<rparr>"

definition anthropic_Name :: string where
  "anthropic_Name = ''anthropic''"

record anthropicRequest =
  AModel :: string
  AMaxTokens :: int
  ASystem :: string
  AMessages :: "message list"
  AStream :: bool

definition defaultMaxTokens :: int where
  "defaultMaxTokens = 1024"

definition toAnthropicRequest :: "request \<Rightarrow> anthropicRequest" where
  "toAnthropicRequest req =
     (let msgs = map (\<lambda>m. \<lparr>Role = Role m, Content = Content m\<rparr>) (filter (\<lambda>m. Role m \<noteq> ''system'') (Messages req));
          maxTokens = ReqMaxTokens req;
          maxTokens = (if maxTokens \<le> 0 then defaultMaxTokens else maxTokens)
      in \<lparr>AModel = ReqModel req, AMaxTokens = maxTokens, ASystem = ReqSystem req, AMessages = msgs, AStream = False\<rparr>)"

definition marshal_anthropic :: "anthropicRequest \<Rightarrow> json" where
  "marshal_anthropic b = JObj
     ([(''model'', JStr (AModel b)), (''max_tokens'', JInt (AMaxTokens b))] @
      opt_field (ASystem b \<noteq> []) ''system'' (JStr (ASystem b)) @
      [(''messages'', JArr (map (\<lambda>m. JObj [(''role'', JStr (Role m)), (''content'', JStr (Content m))]) (AMessages b)))] @
      opt_field (AStream b) ''stream'' (JBool True))"

definition anthropic_do :: "AnthropicProvider \<Rightarrow> transport \<Rightarrow> anthropicRequest \<Rightarrow> string + http_response" where
  "anthropic_do p http b =
     http \<lparr>URL = ABaseURL p @ ''/messages'',
           Headers = [(''Content-Type'', ''application/json''), (''x-api-key'', AAPIKey p),
                      (''anthropic-version'', APIVersion p)],
           Body = marshal_anthropic b\<rparr>"

record anthropicErrorEnvelope =
  EnvelopeType :: string
  InnerType :: string
  InnerMessage :: string
  EnvelopeRequestID :: string

definition decode_anthropic_error :: "json option \<Rightarrow> anthropicErrorEnvelope" where
  "decode_anthropic_error body =
     (let fs = (case body of Some (JObj fs) \<Rightarrow> fs | _ \<Rightarrow> []);
          err = get_lax as_fields [] ''error'' fs
      in \<lparr>EnvelopeType = get_lax as_string [] ''type'' fs, InnerType = get_lax as_string [] ''type'' err,
          InnerMessage = get_lax as_string [] ''message'' err,
          EnvelopeRequestID = get_lax as_string [] ''request_id'' fs\<rparr>)"

definition parseAnthropicError :: "http_response \<Rightarrow> go_error" where
  "parseAnthropicError resp =
     (let env = decode_anthropic_error (JsonBody resp)
      in provider_error ''unknown anthropic error'' (InnerMessage env) (InnerType env) resp)"

section \<open>Completions\<close>

record anthropicUsage =
  InputTokens :: int
  OutputTokens :: int
  CacheCreation :: int
  CacheRead :: int

definition no_anthropic_usage :: anthropicUsage where
  "no_anthropic_usage = \<lparr>InputTokens = 0, OutputTokens = 0, CacheCreation = 0, CacheRead = 0\<rparr>"

definition decode_anthropic_usage :: "json \<Rightarrow> anthropicUsage option" where
  "decode_anthropic_usage j =
     do { fs \<leftarrow> as_fields j;
          i \<leftarrow> get as_int 0 ''input_tokens'' fs;
          out \<leftarrow> get as_int 0 ''output_tokens'' fs;
          cc \<leftarrow> get as_int 0 ''cache_creation_input_tokens'' fs;
          cr \<leftarrow> get as_int 0 ''cache_read_input_tokens'' fs;
          Some \<lparr>InputTokens = i, OutputTokens = out, CacheCreation = cc, CacheRead = cr\<rparr> }"

text \<open>A content block: its type and text.\<close>

definition decode_block :: "json \<Rightarrow> (string \<times> string) option" where
  "decode_block j =
     do { fs \<leftarrow> as_fields j;
          t \<leftarrow> get as_string [] ''type'' fs;
          x \<leftarrow> get as_string [] ''text'' fs;
          Some (t, x) }"

record anthropicResponse =
  ARespID :: string
  ARespModel :: string
  Blocks :: "(string \<times> string) list"
  StopReason :: string
  ARespUsage :: anthropicUsage

definition decode_anthropic_response :: "json \<Rightarrow> anthropicResponse option" where
  "decode_anthropic_response j =
     do { fs \<leftarrow> as_fields j;
          i \<leftarrow> get as_string [] ''id'' fs;
          _ \<leftarrow> get as_string [] ''type'' fs;
          _ \<leftarrow> get as_string [] ''role'' fs;
          m \<leftarrow> get as_string [] ''model'' fs;
          bs \<leftarrow> get (as_list decode_block) [] ''content'' fs;
          r \<leftarrow> get as_string [] ''stop_reason'' fs;
          u \<leftarrow> get decode_anthropic_usage no_anthropic_usage ''usage'' fs;
          Some \<lparr>ARespID = i, ARespModel = m, Blocks = bs, StopReason = r, ARespUsage = u\<rparr> }"

definition total_input :: "int \<Rightarrow> int \<Rightarrow> int \<Rightarrow> int" where
  "total_input i cc cr = wrap64 (wrap64 (i + cc) + cr)"

definition anthropic_Complete :: "AnthropicProvider \<Rightarrow> transport \<Rightarrow> int \<Rightarrow> request \<Rightarrow> go_error + response" where
  "anthropic_Complete p http latencyMs req =
     (let body = (toAnthropicRequest req)\<lparr>AStream := False\<rparr>
      in case anthropic_do p http body of
           Inl err \<Rightarrow> Inl (OtherErr err)
         | Inr resp \<Rightarrow>
             (if HttpStatus resp \<ge> 400 then Inl (parseAnthropicError resp)
              else
                (case Option.bind (JsonBody resp) decode_anthropic_response of
                   None \<Rightarrow> Inl (OtherErr ''anthropic: decode response'')
                 | Some parsed \<Rightarrow>
                     (let content = concat (map (\<lambda>(t, x). if t = ''text'' then x else []) (Blocks parsed));
                          u = ARespUsage parsed;
                          totalIn = total_input (InputTokens u) (CacheCreation u) (CacheRead u);
                          usage = \<lparr>TokensIn = totalIn, TokensOut = OutputTokens u\<rparr>
                      in Inr \<lparr>RespID = ARespID parsed, RespModel = ARespModel parsed, RespContent = content,
                              FinishReason = StopReason parsed, RespUsage = usage,
                              RespCostUSD = CostUSD (ReqModel req) totalIn (CacheRead u) (TokensOut usage),
                              RespLatencyMs = latencyMs\<rparr>))))"

section \<open>Streams\<close>

record anthropicSSEEvent =
  EvType :: string
  EvMessageUsage :: anthropicUsage
  DeltaType :: string
  DeltaText :: string
  DeltaStop :: string
  EvUsage :: anthropicUsage
  EvErrType :: string
  EvErrMessage :: string

definition decode_event :: "json \<Rightarrow> anthropicSSEEvent option" where
  "decode_event j =
     do { fs \<leftarrow> as_fields j;
          t \<leftarrow> get as_string [] ''type'' fs;
          m \<leftarrow> get as_fields [] ''message'' fs;
          mu \<leftarrow> get decode_anthropic_usage no_anthropic_usage ''usage'' m;
          d \<leftarrow> get as_fields [] ''delta'' fs;
          dt \<leftarrow> get as_string [] ''type'' d;
          dx \<leftarrow> get as_string [] ''text'' d;
          ds \<leftarrow> get as_string [] ''stop_reason'' d;
          u \<leftarrow> get decode_anthropic_usage no_anthropic_usage ''usage'' fs;
          e \<leftarrow> get as_fields [] ''error'' fs;
          et \<leftarrow> get as_string [] ''type'' e;
          em \<leftarrow> get as_string [] ''message'' e;
          Some \<lparr>EvType = t, EvMessageUsage = mu, DeltaType = dt, DeltaText = dx, DeltaStop = ds,
                EvUsage = u, EvErrType = et, EvErrMessage = em\<rparr> }"

text \<open>The local variables of the loop.\<close>

record stream_counts =
  inputTokens :: int
  cacheCreation :: int
  cacheRead :: int
  outputTokens :: int
  finishReason :: string

definition zero_counts :: stream_counts where
  "zero_counts = \<lparr>inputTokens = 0, cacheCreation = 0, cacheRead = 0, outputTokens = 0, finishReason = []\<rparr>"

definition counts_usage :: "stream_counts \<Rightarrow> usage" where
  "counts_usage n = \<lparr>TokensIn = total_input (inputTokens n) (cacheCreation n) (cacheRead n), TokensOut = outputTokens n\<rparr>"

fun anthropic_scan :: "(string \<Rightarrow> json option) \<Rightarrow> stream_counts \<Rightarrow> string list \<Rightarrow> string option \<Rightarrow> 'w stream_writer \<Rightarrow> 'w
    \<Rightarrow> go_error option \<times> 'w" where
  "anthropic_scan unmarshal n [] scan_err w s = (map_option OtherErr scan_err, s)"
| "anthropic_scan unmarshal n (line # lines) scan_err w s =
     (case Option.bind (data_payload line) (\<lambda>payload. Option.bind (unmarshal payload) decode_event) of
        None \<Rightarrow> anthropic_scan unmarshal n lines scan_err w s
      | Some evt \<Rightarrow>
          (if EvType evt = ''message_start'' then
             anthropic_scan unmarshal
               (n\<lparr>inputTokens := InputTokens (EvMessageUsage evt), cacheCreation := CacheCreation (EvMessageUsage evt),
                  cacheRead := CacheRead (EvMessageUsage evt)\<rparr>) lines scan_err w s
           else if EvType evt = ''content_block_delta'' then
             (if DeltaType evt = ''text_delta'' then
                (case w (delta_chunk (DeltaText evt) []) s of
                   (Some err, s') \<Rightarrow> (Some err, s')
                 | (None, s') \<Rightarrow> anthropic_scan unmarshal n lines scan_err w s')
              else anthropic_scan unmarshal n lines scan_err w s)
           else if EvType evt = ''message_delta'' then
             (let n = n\<lparr>outputTokens := OutputTokens (EvUsage evt)\<rparr>;
                  n = (if DeltaStop evt \<noteq> [] then n\<lparr>finishReason := DeltaStop evt\<rparr> else n)
              in anthropic_scan unmarshal n lines scan_err w s)
           else if EvType evt = ''message_stop'' then w (done_chunk (finishReason n) (counts_usage n)) s
           else if EvType evt = ''error'' then
             (Some (ProviderErr \<lparr>StatusCode = 0, ErrType = EvErrType evt, ErrMessage = EvErrMessage evt, RetryAfter = 0\<rparr>), s)
           else anthropic_scan unmarshal n lines scan_err w s))"

definition anthropic_Stream :: "AnthropicProvider \<Rightarrow> (string \<Rightarrow> json option) \<Rightarrow> transport \<Rightarrow> request \<Rightarrow> 'w stream_writer
    \<Rightarrow> 'w \<Rightarrow> go_error option \<times> 'w" where
  "anthropic_Stream p unmarshal http req w s =
     (let body = (toAnthropicRequest req)\<lparr>AStream := True\<rparr>
      in case anthropic_do p http body of
           Inl err \<Rightarrow> (Some (OtherErr err), s)
         | Inr resp \<Rightarrow>
             (if HttpStatus resp \<ge> 400 then (Some (parseAnthropicError resp), s)
              else anthropic_scan unmarshal zero_counts (BodyLines resp) (ScanErr resp) w s))"

section \<open>The adapter keeps the contract\<close>

fun anthropic_plan :: "(string \<Rightarrow> json option) \<Rightarrow> stream_counts \<Rightarrow> string list \<Rightarrow> string option
    \<Rightarrow> chunk list \<times> go_error option" where
  "anthropic_plan unmarshal n [] scan_err = ([], map_option OtherErr scan_err)"
| "anthropic_plan unmarshal n (line # lines) scan_err =
     (case Option.bind (data_payload line) (\<lambda>payload. Option.bind (unmarshal payload) decode_event) of
        None \<Rightarrow> anthropic_plan unmarshal n lines scan_err
      | Some evt \<Rightarrow>
          (if EvType evt = ''message_start'' then
             anthropic_plan unmarshal
               (n\<lparr>inputTokens := InputTokens (EvMessageUsage evt), cacheCreation := CacheCreation (EvMessageUsage evt),
                  cacheRead := CacheRead (EvMessageUsage evt)\<rparr>) lines scan_err
           else if EvType evt = ''content_block_delta'' then
             (if DeltaType evt = ''text_delta''
              then apfst (Cons (delta_chunk (DeltaText evt) [])) (anthropic_plan unmarshal n lines scan_err)
              else anthropic_plan unmarshal n lines scan_err)
           else if EvType evt = ''message_delta'' then
             anthropic_plan unmarshal
               (if DeltaStop evt \<noteq> [] then n\<lparr>outputTokens := OutputTokens (EvUsage evt), finishReason := DeltaStop evt\<rparr>
                else n\<lparr>outputTokens := OutputTokens (EvUsage evt)\<rparr>) lines scan_err
           else if EvType evt = ''message_stop'' then ([done_chunk (finishReason n) (counts_usage n)], None)
           else if EvType evt = ''error'' then
             ([], Some (ProviderErr \<lparr>StatusCode = 0, ErrType = EvErrType evt, ErrMessage = EvErrMessage evt, RetryAfter = 0\<rparr>))
           else anthropic_plan unmarshal n lines scan_err))"

lemma anthropic_scan_plan:
  "anthropic_scan unmarshal n lines scan_err w s =
     write_all w (fst (anthropic_plan unmarshal n lines scan_err)) (snd (anthropic_plan unmarshal n lines scan_err)) s"
proof (induction lines arbitrary: n s)
  case (Cons line lines)
  show ?case
  proof (cases "Option.bind (data_payload line) (\<lambda>payload. Option.bind (unmarshal payload) decode_event)")
    case None
    then show ?thesis using Cons by simp
  next
    case (Some evt)
    consider "EvType evt = ''message_start''" | "EvType evt = ''content_block_delta''" | "EvType evt = ''message_delta''"
      | "EvType evt = ''message_stop''" | "EvType evt = ''error''"
      | "EvType evt \<notin> {''message_start'', ''content_block_delta'', ''message_delta'', ''message_stop'', ''error''}"
      by blast
    then show ?thesis
      using Some Cons by cases (auto simp: Let_def split: option.split prod.split)
  qed
qed simp

definition anthropic_outcome :: "AnthropicProvider \<times> (string \<Rightarrow> json option) \<times> transport \<Rightarrow> request
    \<Rightarrow> chunk list \<times> go_error option" where
  "anthropic_outcome i req =
     (case i of (p, unmarshal, http) \<Rightarrow>
        (case anthropic_do p http ((toAnthropicRequest req)\<lparr>AStream := True\<rparr>) of
           Inl err \<Rightarrow> ([], Some (OtherErr err))
         | Inr resp \<Rightarrow>
             (if HttpStatus resp \<ge> 400 then ([], Some (parseAnthropicError resp))
              else anthropic_plan unmarshal zero_counts (BodyLines resp) (ScanErr resp))))"

interpretation anthropic: stream_provider "\<lambda>(p, unmarshal, http). anthropic_Stream p unmarshal http"
  "\<lambda>i req. fst (anthropic_outcome i req)" "\<lambda>i req. snd (anthropic_outcome i req)"
  by unfold_locales
    (auto simp: anthropic_Stream_def anthropic_outcome_def anthropic_scan_plan Let_def split: sum.split)

text \<open>A plan of this adapter has at most one terminal chunk, at its end.\<close>

definition terminated :: "chunk list \<times> go_error option \<Rightarrow> bool" where
  "terminated plan \<longleftrightarrow>
     (\<exists>ds. (\<forall>d\<in>set ds. \<not> Done d) \<and> (fst plan = ds \<or> (\<exists>d. Done d \<and> plan = (ds @ [d], None))))"

lemma terminated_Nil: "terminated ([], err)"
  by (auto simp: terminated_def)

lemma terminated_done: "Done d \<Longrightarrow> terminated ([d], None)"
  unfolding terminated_def by (intro exI [of _ "[]"]) simp

lemma terminated_Cons: "\<not> Done c \<Longrightarrow> terminated plan \<Longrightarrow> terminated (apfst (Cons c) plan)"
  unfolding terminated_def
proof (elim exE conjE)
  fix ds
  assume "\<not> Done c" "\<forall>d\<in>set ds. \<not> Done d" "fst plan = ds \<or> (\<exists>d. Done d \<and> plan = (ds @ [d], None))"
  then show "\<exists>ds. (\<forall>d\<in>set ds. \<not> Done d) \<and>
      (fst (apfst (Cons c) plan) = ds \<or> (\<exists>d. Done d \<and> apfst (Cons c) plan = (ds @ [d], None)))"
    by (intro exI [of _ "c # ds"]) auto
qed

lemma anthropic_plan_terminated: "terminated (anthropic_plan unmarshal n lines scan_err)"
proof (induction lines arbitrary: n)
  case Nil
  show ?case by (simp add: terminated_Nil)
next
  case (Cons line lines)
  have "\<not> Done (delta_chunk x y)" "Done (done_chunk x u)" for x y u
    by (simp_all add: delta_chunk_def done_chunk_def)
  then show ?case
    using Cons by (auto simp: terminated_Nil terminated_done terminated_Cons split: option.split)
qed

end
