(* ===== verification/Mock.thy ===== *)
theory Mock
  imports Provider
begin

text \<open>
  The mock provider, \<open>gateway/internal/provider/mock.go\<close>: the deterministic output length with
  its floating-point square root, \<open>Complete\<close> and \<open>Stream\<close>. Waiting has no effect but the
  cancellation that may end it, so each wait is an input that says whether the context was
  cancelled first; latencies and the random identifier are inputs.
\<close>

section \<open>The square root\<close>

text \<open>Integer square root, and the correctly rounded binary64 square root built on it: with a unit
  \<open>u\<close> that scales the root to 53 bits, the nearest multiple of \<open>u\<close>.\<close>

fun isqrt :: "nat \<Rightarrow> nat" where
  "isqrt n = (if n = 0 then 0
              else let r = 2 * isqrt (n div 4) in if (r + 1) * (r + 1) \<le> n then r + 1 else r)"

declare isqrt.simps [simp del]

lemma isqrt_bounds: "isqrt n * isqrt n \<le> n \<and> n < (isqrt n + 1) * (isqrt n + 1)"
proof (induction n rule: isqrt.induct)
  case (1 n)
  show ?case
  proof (cases "n = 0")
    case True
    then show ?thesis by (simp add: isqrt.simps [of 0])
  next
    case False
    define s where "s = isqrt (n div 4)"
    have ih: "s * s \<le> n div 4" "n div 4 < (s + 1) * (s + 1)" using 1 [OF False] by (simp_all add: s_def)
    have "n < 4 * (n div 4) + 4" "4 * (n div 4) \<le> n" by simp_all
    moreover have "4 * (n div 4) + 4 \<le> 4 * ((s + 1) * (s + 1))" using ih(2) by simp
    ultimately have "4 * (s * s) \<le> n" "n < 4 * ((s + 1) * (s + 1))" using ih(1) by linarith+
    then show ?thesis
      using False by (auto simp: isqrt.simps [of n] Let_def algebra_simps s_def [symmetric])
  qed
qed

definition sqrt_unit :: "rat \<Rightarrow> rat" where
  "sqrt_unit x = 2 powi (floor_log 2 x div 2 - 52)"

definition f64_sqrt :: "rat \<Rightarrow> rat" where
  "f64_sqrt x =
     (if x \<le> 0 then 0
      else let u = sqrt_unit x;
               q = x / (u * u);
               m = isqrt (nat \<lfloor>q\<rfloor>)
           in (if q > (of_nat m + 1 / 2) * (of_nat m + 1 / 2) then of_nat m + 1 else of_nat m) * u)"

lemma sqrt_unit_pos: "0 < sqrt_unit x"
  by (simp add: sqrt_unit_def zero_less_power_int)

lemma f64_sqrt_nonneg: "0 \<le> f64_sqrt x"
  using sqrt_unit_pos [of x] by (simp add: f64_sqrt_def Let_def)

text \<open>No multiple of the unit is nearer to the root: the root lies within half a unit.\<close>

lemma f64_sqrt_nearest:
  assumes "0 < x"
  obtains k :: nat where "f64_sqrt x = of_nat k * sqrt_unit x"
    "k = 0 \<or> (of_nat k - 1 / 2) * (of_nat k - 1 / 2) * (sqrt_unit x * sqrt_unit x) \<le> x"
    "x \<le> (of_nat k + 1 / 2) * (of_nat k + 1 / 2) * (sqrt_unit x * sqrt_unit x)"
proof -
  define u where "u = sqrt_unit x"
  define q where "q = x / (u * u)"
  define m where "m = isqrt (nat \<lfloor>q\<rfloor>)"
  have u: "0 < u * u" "u \<noteq> 0" using sqrt_unit_pos [of x] by (simp_all add: u_def)
  then have q: "0 < q" "x = q * (u * u)" using assms by (simp_all add: q_def)
  have "m * m \<le> nat \<lfloor>q\<rfloor>" "nat \<lfloor>q\<rfloor> < (m + 1) * (m + 1)" using isqrt_bounds [of "nat \<lfloor>q\<rfloor>"] by (simp_all add: m_def)
  then have "int (m * m) \<le> \<lfloor>q\<rfloor>" "\<lfloor>q\<rfloor> + 1 \<le> int ((m + 1) * (m + 1))" using q(1) by linarith+
  then have "of_int (int (m * m)) \<le> q" "q < of_int (int ((m + 1) * (m + 1)))" by linarith+
  then have lo: "of_nat m * of_nat m \<le> q" and hi: "q < (of_nat m + 1) * (of_nat m + 1)" by (simp_all add: algebra_simps)
  show ?thesis
  proof (cases "q > (of_nat m + 1 / 2) * (of_nat m + 1 / 2)")
    case True
    have "f64_sqrt x = of_nat (m + 1) * u" using assms True by (simp add: f64_sqrt_def Let_def u_def q_def m_def)
    moreover have "(of_nat (m + 1) - 1 / 2) * (of_nat (m + 1) - 1 / 2) \<le> q" using True by (simp add: algebra_simps)
    moreover have "q \<le> (of_nat (m + 1) + 1 / 2) * (of_nat (m + 1) + 1 / 2)" using hi by (simp add: algebra_simps)
    ultimately show ?thesis using u that [of "m + 1"] q(2) unfolding u_def [symmetric] by (simp add: mult_right_mono)
  next
    case False
    have "f64_sqrt x = of_nat m * u" using assms False by (simp add: f64_sqrt_def Let_def u_def q_def m_def)
    moreover have "m = 0 \<or> (of_nat m - 1 / 2) * (of_nat m - 1 / 2) \<le> q"
    proof (cases m)
      case (Suc n)
      then have "(of_nat m - 1 / 2) * (of_nat m - 1 / 2) \<le> (of_nat m * of_nat m :: rat)"
        by (simp add: algebra_simps)
      then show ?thesis using lo by simp
    qed simp
    ultimately show ?thesis using u that [of m] q(2) False unfolding u_def [symmetric] by (auto simp: mult_right_mono)
  qed
qed

section \<open>The simulated completion\<close>

definition simulatedOutputTokens :: "string \<Rightarrow> int \<Rightarrow> int" where
  "simulatedOutputTokens model tokensIn =
     (let base = 24;
          scaled = f64_mul (f64_sqrt (f64_of_int tokensIn)) 8;
          mult = (if contains_str model ''large'' then f64 1.6
                  else if contains_str model ''small'' then f64 0.6 else 1);
          out = int64_of_f64 (f64_mul (f64_add base scaled) mult)
      in if out > 4096 then 4096 else out)"

definition mock_Name :: string where
  "mock_Name = ''mock''"

record MockProvider =
  MinLatency :: int
  MaxLatency :: int

definition NewMockProvider :: "int \<Rightarrow> int \<Rightarrow> MockProvider" where
  "NewMockProvider minLatencyMs maxLatencyMs =
     \<lparr>MinLatency = wrap64 (minLatencyMs * 1000000), MaxLatency = wrap64 (maxLatencyMs * 1000000)\<rparr>"

text \<open>\<open>rnd n\<close> is what \<open>rand.Int63n\<close> draws below \<open>n\<close>.\<close>

definition latency :: "MockProvider \<Rightarrow> (int \<Rightarrow> int) \<Rightarrow> int" where
  "latency m rnd =
     (let spread = wrap64 (MaxLatency m - MinLatency m)
      in if spread \<le> 0 then MinLatency m else wrap64 (MinLatency m + rnd spread))"

definition mock_usage :: "unicode \<Rightarrow> request \<Rightarrow> usage" where
  "mock_usage u req =
     (let tokensIn = int (EstimateMessagesTokens u (ReqSystem req) (Messages req));
          tokensOut = simulatedOutputTokens (ReqModel req) tokensIn;
          tokensOut = (if ReqMaxTokens req > 0 \<and> tokensOut > ReqMaxTokens req then ReqMaxTokens req else tokensOut)
      in \<lparr>TokensIn = tokensIn, TokensOut = tokensOut\<rparr>)"

definition mock_text :: "string \<Rightarrow> request \<Rightarrow> usage \<Rightarrow> string" where
  "mock_text kind req u =
     ''[mock:'' @ ReqModel req @ ''] simulated '' @ kind @ '' for a '' @ decimal_int (TokensIn u) @
     ''-token prompt ('' @ decimal_int (TokensOut u) @ '' simulated output tokens).''"

text \<open>The id of a mock completion: the 12 random bytes in hexadecimal.\<close>

definition hex_digit :: "nat \<Rightarrow> char" where
  "hex_digit n = ''0123456789abcdef'' ! n"

definition hex_string :: "8 word list \<Rightarrow> string" where
  "hex_string bs = concat (map (\<lambda>b. [hex_digit (unat b div 16), hex_digit (unat b mod 16)]) bs)"

definition mockID :: "8 word list \<Rightarrow> string" where
  "mockID b = ''mock-'' @ hex_string b"

text \<open>\<open>cancelled\<close> is the error of a context that ended before the wait was over.\<close>

definition mock_Complete :: "unicode \<Rightarrow> 8 word list \<Rightarrow> string option \<Rightarrow> int \<Rightarrow> request \<Rightarrow> go_error + response" where
  "mock_Complete u random cancelled latencyMs req =
     (let usage = mock_usage u req
      in case cancelled of
           Some err \<Rightarrow> Inl (OtherErr err)
         | None \<Rightarrow>
             Inr \<lparr>RespID = mockID random, RespModel = ReqModel req, RespContent = mock_text ''completion'' req usage,
                  FinishReason = ''stop'', RespUsage = usage,
                  RespCostUSD = CostUSD (ReqModel req) (TokensIn usage) 0 (TokensOut usage),
                  RespLatencyMs = latencyMs\<rparr>)"

section \<open>Streams\<close>

text \<open>The bytes of a text rune by rune, and \<open>strings.Fields\<close>: the maximal runs without white space.\<close>

function rune_bytes :: "string \<Rightarrow> (nat \<times> string) list" where
  "rune_bytes [] = []"
| "rune_bytes (c # cs) =
     (case decode_rune (map of_char (c # cs)) of
        (r, w) \<Rightarrow> (r, c # take (w - 1) cs) # rune_bytes (drop (w - 1) cs))"
  by pat_completeness auto
termination by (relation "measure length") (auto simp: less_Suc_eq_le)

function fields_of :: "(nat \<times> string) list \<Rightarrow> string list" where
  "fields_of [] = []"
| "fields_of ((r, b) # rs) =
     (if is_space r then fields_of rs
      else (b @ concat (map snd (takeWhile (\<lambda>x. \<not> is_space (fst x)) rs))) #
           fields_of (dropWhile (\<lambda>x. \<not> is_space (fst x)) rs))"
  by pat_completeness auto
termination by (relation "measure length") (auto simp: less_Suc_eq_le length_dropWhile_le)

definition Fields :: "string \<Rightarrow> string list" where
  "Fields s = fields_of (rune_bytes s)"

text \<open>The loop over the words; the wait after each of them may be cut short.\<close>

fun mock_words :: "string list \<Rightarrow> string option list \<Rightarrow> 'w stream_writer \<Rightarrow> (string option list \<Rightarrow> 'w \<Rightarrow> go_error option \<times> 'w)
    \<Rightarrow> 'w \<Rightarrow> go_error option \<times> 'w" where
  "mock_words [] waits w k s = k waits s"
| "mock_words (word # rest) waits w k s =
     (let suffix = (if rest = [] then [] else '' '')
      in case w (delta_chunk (word @ suffix) []) s of
           (Some err, s') \<Rightarrow> (Some err, s')
         | (None, s') \<Rightarrow>
             (case waits of
                Some err # _ \<Rightarrow> (Some (OtherErr err), s')
              | _ \<Rightarrow> mock_words rest (tl waits) w k s'))"

definition mock_Stream :: "unicode \<Rightarrow> string option list \<Rightarrow> request \<Rightarrow> 'w stream_writer \<Rightarrow> 'w \<Rightarrow> go_error option \<times> 'w" where
  "mock_Stream u waits req w s =
     (let usage = mock_usage u req;
          words = Fields (mock_text ''streamed completion'' req usage)
      in case waits of
           Some err # _ \<Rightarrow> (Some (OtherErr err), s)
         | _ \<Rightarrow> mock_words words (tl waits) w (\<lambda>_ s. w (done_chunk ''stop'' usage) s) s)"

section \<open>The adapter keeps the contract\<close>

fun mock_plan :: "usage \<Rightarrow> string list \<Rightarrow> string option list \<Rightarrow> chunk list \<times> go_error option" where
  "mock_plan usage [] waits = ([done_chunk ''stop'' usage], None)"
| "mock_plan usage (word # rest) waits =
     apfst (Cons (delta_chunk (word @ (if rest = [] then [] else '' '')) []))
       (case waits of
          Some err # _ \<Rightarrow> ([], Some (OtherErr err))
        | _ \<Rightarrow> mock_plan usage rest (tl waits))"

lemma mock_words_plan:
  "mock_words ws waits w (\<lambda>_ s. w (done_chunk ''stop'' usage) s) s =
     write_all w (fst (mock_plan usage ws waits)) (snd (mock_plan usage ws waits)) s"
proof (induction ws arbitrary: waits s)
  case Nil
  show ?case by (auto split: prod.split option.split)
next
  case (Cons word rest)
  show ?case
  proof (cases waits)
    case Nil
    with Cons show ?thesis by (auto simp: Let_def split: prod.split option.split)
  next
    case (Cons a ws')
    with Cons.IH show ?thesis by (cases a) (auto simp: Let_def split: prod.split option.split)
  qed
qed

definition mock_outcome :: "unicode \<times> string option list \<Rightarrow> request \<Rightarrow> chunk list \<times> go_error option" where
  "mock_outcome i req =
     (case snd i of
        Some err # _ \<Rightarrow> ([], Some (OtherErr err))
      | _ \<Rightarrow> mock_plan (mock_usage (fst i) req)
               (Fields (mock_text ''streamed completion'' req (mock_usage (fst i) req))) (tl (snd i)))"

interpretation mock: stream_provider "\<lambda>(u, waits). mock_Stream u waits"
  "\<lambda>i req. fst (mock_outcome i req)" "\<lambda>i req. snd (mock_outcome i req)"
  by unfold_locales
    (auto simp: mock_Stream_def mock_outcome_def mock_words_plan Let_def split: list.split option.split)

section \<open>Bounds\<close>

lemma simulatedOutputTokens_le: "simulatedOutputTokens model n \<le> 4096"
  by (simp add: simulatedOutputTokens_def Let_def)

lemma sqrt_unit_le_1:
  assumes "0 < x" "x < 2 ^ 64"
  shows "sqrt_unit x \<le> 1"
proof -
  have "2 powi floor_log 2 x \<le> x" using floor_log_bounds [of 2 x] assms(1) by simp
  then have "(2::rat) powi floor_log 2 x < 2 powi 64" using assms(2) by simp
  then have "floor_log 2 x < 64" by (intro powi_lt_cancel [of 2]) simp_all
  then have "floor_log 2 x div 2 - 52 \<le> 0" by simp
  then show ?thesis using power_int_increasing [of "floor_log 2 x div 2 - 52" 0 "2::rat"] by (simp add: sqrt_unit_def)
qed

lemma f64_sqrt_le:
  assumes "x \<le> 2 ^ 63"
  shows "f64_sqrt x \<le> 2 ^ 33"
proof (cases "x \<le> 0")
  case True
  then show ?thesis by (simp add: f64_sqrt_def)
next
  case False
  define u where "u = sqrt_unit x"
  define m where "m = isqrt (nat \<lfloor>x / (u * u)\<rfloor>)"
  have u: "0 < u" "u \<le> 1" using sqrt_unit_pos [of x] sqrt_unit_le_1 [of x] False assms by (simp_all add: u_def)
  have "int (m * m) \<le> \<lfloor>x / (u * u)\<rfloor>"
    using isqrt_bounds [of "nat \<lfloor>x / (u * u)\<rfloor>"] u False unfolding m_def
    by (metis (no_types, lifting) divide_nonneg_pos le_nat_iff linorder_le_cases mult_pos_pos zero_le_floor)
  then have "of_nat (m * m) \<le> x / (u * u)" by linarith
  then have "(of_nat m * u) * (of_nat m * u) \<le> x" using u by (simp add: field_simps)
  then have "(of_nat m * u) ^ 2 \<le> (2 ^ 32) ^ 2" using assms by (simp add: power2_eq_square)
  then have "of_nat m * u \<le> 2 ^ 32" by (rule power2_le_imp_le) simp
  moreover have "f64_sqrt x \<le> (of_nat m + 1) * u"
    using False u by (simp add: f64_sqrt_def Let_def flip: u_def m_def)
  ultimately show ?thesis using u(2) by (simp add: algebra_simps)
qed

lemma simulatedOutputTokens_ge:
  assumes "0 \<le> n" "n \<le> max_int64"
  shows "12 \<le> simulatedOutputTokens model n"
proof -
  define scaled where "scaled = f64_mul (f64_sqrt (f64_of_int n)) 8"
  define mult where "mult = (if contains_str model ''large'' then f64 1.6
                  else if contains_str model ''small'' then f64 0.6 else 1)"
  have pow: "f64 (2 ^ k) = 2 ^ k" if "k \<le> 53" for k
    using f64_short_int [of "2 ^ k"] that power_increasing [of k 53 "2::int"] by simp
  have "f64_of_int n \<le> 2 ^ 63"
  proof -
    have "of_int n \<le> (of_int (2 ^ 63) :: rat)" using assms(2) by (simp only: of_int_le_iff) (simp add: max_int64_def)
    then have "of_int n \<le> (2::rat) ^ 63" by simp
    moreover have "f64 (2 ^ 63) = (2 :: rat) ^ 63" by (simp add: f64_eval)
    ultimately show ?thesis unfolding f64_of_int_def by (rule f64.r_le_fixed)
  qed
  then have "f64_sqrt (f64_of_int n) * 8 \<le> 2 ^ 36" using f64_sqrt_le by fastforce
  then have s: "0 \<le> scaled" "scaled \<le> 2 ^ 36"
    unfolding scaled_def f64_mul_def
    by (auto intro!: f64.r_nonneg f64.r_le_fixed pow mult_nonneg_nonneg f64_sqrt_nonneg)
  have m: "1 / 2 \<le> mult" "mult \<le> 2"
  proof -
    have "f64 (1 / 2) = 1 / 2" by (simp add: f64_eval)
    then show "1 / 2 \<le> mult" "mult \<le> 2"
      using f64.r_ge_fixed [of "1 / 2" "8 / 5"] f64.r_ge_fixed [of "1 / 2" "3 / 5"]
        f64.r_le_fixed [of "8 / 5" 2] f64.r_le_fixed [of "3 / 5" 2]
      by (simp_all add: mult_def)
  qed
  define w where "w = f64_add 24 scaled"
  have w: "24 \<le> w" "w \<le> 2 ^ 37"
    unfolding w_def f64_add_def using s by (auto intro!: f64.r_ge_fixed f64.r_le_fixed pow)
  have "24 * (1 / 2) \<le> w * mult" "w * mult \<le> 2 ^ 37 * 2" using w m by (intro mult_mono; simp)+
  then have "12 \<le> f64_mul w mult" "f64_mul w mult \<le> 2 ^ 38"
    unfolding f64_mul_def by (auto intro!: f64.r_ge_fixed f64.r_le_fixed pow)
  then have "12 \<le> trunc_rat (f64_mul w mult)" "trunc_rat (f64_mul w mult) \<le> 2 ^ 38"
    by (auto simp: trunc_rat_def le_floor_iff floor_le_iff)
  then have "12 \<le> int64_of_f64 (f64_mul w mult)"
    by (simp add: int64_of_f64_def Let_def in_int64_def min_int64_def max_int64_def)
  then show ?thesis by (simp add: simulatedOutputTokens_def Let_def flip: scaled_def mult_def w_def)
qed

lemma mock_usage_ge:
  assumes "int (EstimateMessagesTokens u (ReqSystem req) (Messages req)) \<le> max_int64"
  shows "0 \<le> TokensIn (mock_usage u req)" "1 \<le> TokensOut (mock_usage u req)"
  using simulatedOutputTokens_ge [OF _ assms, of "ReqModel req"] by (simp_all add: mock_usage_def Let_def)

lemma mock_usage_le:
  "0 < ReqMaxTokens req \<Longrightarrow> TokensOut (mock_usage u req) \<le> ReqMaxTokens req"
  "TokensOut (mock_usage u req) \<le> 4096"
  using simulatedOutputTokens_le [of "ReqModel req" "int (EstimateMessagesTokens u (ReqSystem req) (Messages req))"]
  by (simp_all add: mock_usage_def Let_def)

end
