(* ===== verification/Requests.thy ===== *)
theory Requests
  imports Handler Enforcement OpenAI Anthropic Mock
begin

text \<open>
  What the request path guarantees from the client's header to the reply: nothing is done for a
  caller without a key and a scope, no completion is sent without an admitted reservation, a
  call is charged what it used, an overflowing estimate is refused, and every outcome after the
  budget decision leaves one line in the log and one spend event.
\<close>

section \<open>What the steps leave alone\<close>

lemma observe_sel [simp]:
  "redis_state (observe ms g) = redis_state g" "enforcer_state (observe ms g) = enforcer_state g"
  "access_log (observe ms g) = access_log g" "spend_writer (observe ms g) = spend_writer g"
  "auth_store (observe ms g) = auth_store g" "config_state (observe ms g) = config_state g"
  by (simp_all add: observe_def)

lemma finish_sel [simp]:
  "redis_state (finish sv ev req refs d l r u c s g) = redis_state g"
  "enforcer_state (finish sv ev req refs d l r u c s g) = enforcer_state g"
  "auth_store (finish sv ev req refs d l r u c s g) = auth_store g"
  "config_state (finish sv ev req refs d l r u c s g) = config_state g"
  by (simp_all add: finish_def Let_def split: option.split)

lemma finish_log [simp]:
  "access_log (finish sv ev req refs d l r u c s g) =
     Log (finish_at ev, log_entry sv req l r (time_Sub (finish_at ev) (start_at ev)) u c s) (access_log g)"
  "spend_writer (finish sv ev req refs d l r u c s g) =
     map_option (Enqueue (finish_at ev, spend_event req l r u c)) (spend_writer g)"
  by (simp_all add: finish_def Let_def observe_def split: option.split)

lemma reconcile_sel [simp]:
  "access_log (reconcile_budget sv ev refs et eu act au g) = access_log g"
  "spend_writer (reconcile_budget sv ev refs et eu act au g) = spend_writer g"
  "enforcer_state (reconcile_budget sv ev refs et eu act au g) = enforcer_state g"
  "redis_state (reconcile_budget sv ev refs et eu act au g) =
     snd (Reconcile (srv_redis sv) (reconcile_fault ev) refs et eu act au (redis_state g))"
  by (simp_all add: reconcile_budget_def)

lemma check_budget_sel:
  "check_budget sv n tm refs t u g = (res, g') \<Longrightarrow>
     access_log g' = access_log g \<and> spend_writer g' = spend_writer g \<and> config_state g' = config_state g \<and>
     CheckAndDecrement (srv_redis sv) n tm (enforcer_state g) refs t u (redis_state g) =
       (res, enforcer_state g', redis_state g')"
  by (auto simp: check_budget_def split: prod.splits)

lemma reject_eq:
  "reject sv ev req d outc g =
     (json_error 429 ((withMessage (''budget exceeded: '' @ reason_string (if OReason outc = ReasonNone then Reason d else OReason outc))
          (reason_string (if OReason outc = ReasonNone then Reason d else OReason outc)))
          \<lparr>ERemainingTokens := RemainingTokens d, ERemainingUSD := RemainingUSD d, EAdvice := Advice outc\<rparr>),
      finish sv ev req [] d ''rejected''
        (reason_string (if OReason outc = ReasonNone then Reason d else OReason outc)) no_usage 0 429 g)"
  by (simp add: reject_def Let_def)

section \<open>Authentication and scope\<close>

text \<open>C13: without a valid key that carries the agent or the admin scope nothing happens. The reply
  is 401 or 403, and the budgets, the log, the spend queue and the metrics are untouched.\<close>

theorem serve_requires_scope:
  assumes "\<And>rawKey ident s'. Authorization cr = ''Bearer '' @ rawKey \<Longrightarrow>
     Authenticate (srv_crypto sv) (auth_read_at ev) (key_answers ev) (auth_write_at ev) rawKey (auth_store g) = (Inr ident, s') \<Longrightarrow>
     \<not> HasScope ident ''agent'' \<and> \<not> HasScope ident ''admin''"
  shows "RStatus (fst (serve sv ev cr g)) \<in> {401, 403} \<and>
    redis_state (snd (serve sv ev cr g)) = redis_state g \<and> access_log (snd (serve sv ev cr g)) = access_log g \<and>
    spend_writer (snd (serve sv ev cr g)) = spend_writer g \<and> metrics (snd (serve sv ev cr g)) = metrics g"
proof (cases "has_prefix (Authorization cr) ''Bearer ''")
  case False
  then show ?thesis by (simp add: serve_def authMiddleware_def unauthenticated_def json_error_def)
next
  case True
  then obtain rawKey where auth: "Authorization cr = ''Bearer '' @ rawKey" by (auto simp: has_prefix_iff)
  then have raw: "trim_prefix (Authorization cr) ''Bearer '' = rawKey" by (simp only: trim_prefix_append)
  show ?thesis
  proof (cases "Authenticate (srv_crypto sv) (auth_read_at ev) (key_answers ev) (auth_write_at ev) rawKey (auth_store g)")
    case (Pair res s')
    show ?thesis
    proof (cases res)
      case (Inl err)
      then show ?thesis using True raw Pair
        by (simp add: serve_def authMiddleware_def unauthenticated_def json_error_def Let_def)
    next
      case (Inr ident)
      then have "\<not> HasScope ident ''agent'' \<and> \<not> HasScope ident ''admin''" using assms [OF auth] Pair by simp
      then show ?thesis using True raw Pair Inr
        by (simp add: serve_def authMiddleware_def unauthenticated_def json_error_def Let_def AuthScopeAgent_def ScopeAdmin_def)
    qed
  qed
qed

section \<open>Completions and the budget\<close>

text \<open>The outcomes of the handler.\<close>

text \<open>The tokens of the second check.\<close>

definition retry_tokens :: "policy_config \<Rightarrow> request \<Rightarrow> decision \<Rightarrow> int \<Rightarrow> int \<Rightarrow> outcome \<Rightarrow> int \<Rightarrow> bool" where
  "retry_tokens cfg req d n t outc t' \<longleftrightarrow>
     Action outc = ActionRetryWithModel \<and> t' = wrap64 (n + output_estimate (ReqMaxTokens req))
   \<or> Action outc = ActionPartialAllowance \<and> t' = wrap64 (n + MaxTokens outc) \<and>
     MinPartialAllowanceTokens cfg \<le> MaxTokens outc \<and> MaxTokens outc < t \<and>
     MaxTokens outc \<le> int64_of_f64 (RemainingTokens d)"

lemma handleBudgetPressure_cases:
  fixes sv :: "'s server" and ev :: env and req :: request and d :: decision and t :: int
  defines "outc \<equiv> policy_outcome sv ev req d t"
  obtains (Rejected) g' where
    "handleBudgetPressure sv ev req refs d n t u g = reject sv ev req d outc g'"
    "access_log g' = access_log g" "spend_writer g' = spend_writer g"
    "redis_state g' = redis_state g \<or>
     (\<exists>t' u' g1 res. retry_tokens (srv_policy sv) req d n t outc t' \<and> redis_state g1 = redis_state g \<and>
        check_budget sv (retry_net ev) (retry_time ev) refs t' u' g1 = (res, g'))"
  | (Retried) rq :: request and t' u' g1 and rd :: decision and g2 where
    "handleBudgetPressure sv ev req refs d n t u g = dispatchAdvised sv ev rq refs t' u' (Advice outc) g2"
    "check_budget sv (retry_net ev) (retry_time ev) refs t' u' g1 = (Inr rd, g2)" "Allowed rd"
    "redis_state g1 = redis_state g" "enforcer_state g1 = enforcer_state g"
    "access_log g1 = access_log g" "spend_writer g1 = spend_writer g"
    "retry_tokens (srv_policy sv) req d n t outc t'"
    "rq = req\<lparr>ReqModel := Model outc\<rparr> \<or> rq = req\<lparr>ReqMaxTokens := MaxTokens outc\<rparr>"
proof -
  define g1 where "g1 = observe [AdvisorInvocations (ReqTenantID req) (advice_label (advise_call sv ev req d t))] g"
  note eq = handleBudgetPressure_def [of sv ev req refs d n t u g, unfolded Let_def, folded g1_def, folded outc_def]
  have g1: "redis_state g1 = redis_state g" "enforcer_state g1 = enforcer_state g"
    "access_log g1 = access_log g" "spend_writer g1 = spend_writer g" by (simp_all add: g1_def)
  have log: "access_log (snd c) = access_log g \<and> spend_writer (snd c) = spend_writer g"
    if "check_budget sv (retry_net ev) (retry_time ev) refs t' u' g1 = c" for t' u' c
    using check_budget_sel [of sv "retry_net ev" "retry_time ev" refs t' u' g1 "fst c" "snd c"] that g1 by simp
  show ?thesis
  proof (cases "Action outc")
    case ActionReject
    then show ?thesis using Rejected eq g1 by simp
  next
    case ActionRetryWithModel
    let ?t = "wrap64 (n + output_estimate (ReqMaxTokens req))"
      and ?u = "CostUSD (Model outc) n 0 (output_estimate (ReqMaxTokens req))"
    obtain res g2 where c: "check_budget sv (retry_net ev) (retry_time ev) refs ?t ?u g1 = (res, g2)" by fastforce
    have rt: "retry_tokens (srv_policy sv) req d n t outc ?t" using ActionRetryWithModel by (simp add: retry_tokens_def)
    show ?thesis
    proof (cases "\<exists>rd. res = Inr rd \<and> Allowed rd")
      case True
      then show ?thesis
        using Retried [of "req\<lparr>ReqModel := Model outc\<rparr>" ?t ?u g2 g1] eq c g1 rt ActionRetryWithModel by auto
    next
      case False
      then show ?thesis using Rejected [of g2] eq c log [OF c] g1 rt ActionRetryWithModel
        by (auto split: sum.splits)
    qed
  next
    case ActionPartialAllowance
    let ?t = "wrap64 (n + MaxTokens outc)" and ?u = "CostUSD (ReqModel req) n 0 (MaxTokens outc)"
    obtain res g2 where c: "check_budget sv (retry_net ev) (retry_time ev) refs ?t ?u g1 = (res, g2)" by fastforce
    have rt: "retry_tokens (srv_policy sv) req d n t outc ?t"
      using Decide_PartialAllowance [OF ActionPartialAllowance [unfolded outc_def policy_outcome_def], folded policy_outcome_def, folded outc_def] ActionPartialAllowance
      by (simp add: retry_tokens_def)
    show ?thesis
    proof (cases "\<exists>rd. res = Inr rd \<and> Allowed rd")
      case True
      then show ?thesis using Retried [of "req\<lparr>ReqMaxTokens := MaxTokens outc\<rparr>" ?t ?u g2 g1] eq c g1 rt
          ActionPartialAllowance by auto
    next
      case False
      then show ?thesis using Rejected [of g2] eq c log [OF c] g1 rt ActionPartialAllowance
        by (auto split: sum.splits)
    qed
  qed
qed

section \<open>Dispatch\<close>

text \<open>The usage an upstream call is settled with: what the provider reports, and nothing when the
  call failed before an answer began.\<close>

definition settled_usage :: "'s server \<Rightarrow> env \<Rightarrow> request \<Rightarrow> string \<Rightarrow> usage" where
  "settled_usage sv ev req advice =
     (let p = Select (srv_router sv) (ReqModel req) in
      if ReqStream req then
        (case StreamTo p req (sse_Write (print_json ev) (write_fails ev)) (new_writer req advice) of
           (err, w) \<Rightarrow> if err \<noteq> None \<and> \<not> wroteHeaders w then no_usage else finalUsage w)
      else (case Complete p req of Inl err \<Rightarrow> no_usage | Inr resp \<Rightarrow> RespUsage resp))"

definition usage_total :: "usage \<Rightarrow> int" where
  "usage_total u = wrap64 (TokensIn u + TokensOut u)"

definition can_answer :: "env \<Rightarrow> request \<Rightarrow> bool" where
  "can_answer ev req \<longleftrightarrow> ReqStream req \<longrightarrow> can_flush ev"

lemma wrap64_0 [simp]: "wrap64 0 = 0"
  by (simp add: wrap64_id in_int64_def min_int64_def max_int64_def)

lemma no_usage_total [simp]: "TokensIn no_usage = 0" "TokensOut no_usage = 0" "usage_total no_usage = 0"
  by (simp_all add: no_usage_def usage_total_def)

lemma handleProviderError_eq:
  obtains status message where
    "fst (handleProviderError sv ev req refs t u err g) = json_error status (withMessage message ''upstream_error'')"
    "access_log (snd (handleProviderError sv ev req refs t u err g)) =
       Log (finish_at ev, log_entry sv req ''rejected'' ''upstream_error'' (time_Sub (finish_at ev) (start_at ev)) no_usage 0 status)
         (access_log g)"
    "spend_writer (snd (handleProviderError sv ev req refs t u err g)) =
       map_option (Enqueue (finish_at ev, spend_event req ''rejected'' ''upstream_error'' no_usage 0)) (spend_writer g)"
    "redis_state (snd (handleProviderError sv ev req refs t u err g)) =
       snd (Reconcile (srv_redis sv) (reconcile_fault ev) refs t u 0 0 (redis_state g))"
    "status = (case err of ProviderErr e \<Rightarrow> mapProviderStatus (StatusCode e) | OtherErr _ \<Rightarrow> 502)"
  by (cases err) (simp_all add: handleProviderError_def Let_def)

text \<open>A dispatch that can answer reconciles the reservation with the settled usage and leaves one
  line in the log and one spend event, both with the status of the reply.\<close>

lemma doDispatch_settles:
  assumes "can_answer ev req"
  obtains au label reason where
    "redis_state (snd (doDispatch sv ev req refs t u dl dr advice g)) =
       snd (Reconcile (srv_redis sv) (reconcile_fault ev) refs t u
              (usage_total (settled_usage sv ev req advice)) au (redis_state g))"
    "access_log (snd (doDispatch sv ev req refs t u dl dr advice g)) =
       Log (finish_at ev, log_entry sv req label reason (time_Sub (finish_at ev) (start_at ev))
              (settled_usage sv ev req advice) au (RStatus (fst (doDispatch sv ev req refs t u dl dr advice g))))
         (access_log g)"
    "spend_writer (snd (doDispatch sv ev req refs t u dl dr advice g)) =
       map_option (Enqueue (finish_at ev, spend_event req label reason (settled_usage sv ev req advice) au)) (spend_writer g)"
proof (cases "ReqStream req")
  case True
  obtain err w where st: "StreamTo (Select (srv_router sv) (ReqModel req)) req (sse_Write (print_json ev) (write_fails ev))
      (new_writer req advice) = (err, w)" by fastforce
  show ?thesis
  proof (cases "err \<noteq> None \<and> \<not> wroteHeaders w")
    case True
    then obtain e where e: "err = Some e" by auto
    show ?thesis
      by (rule handleProviderError_eq [of sv ev req refs t u e g])
        (rule that [of 0 "''rejected''" "''upstream_error''"];
         use True e st assms \<open>ReqStream req\<close> in
           \<open>simp add: doDispatch_def streamDispatch_def settled_usage_def can_answer_def json_error_def case_prod_beta\<close>)
  next
    case False
    then show ?thesis
      by (intro that [of "CostUSD (ReqModel req) (TokensIn (finalUsage w)) 0 (TokensOut (finalUsage w))" dl "[]"])
        (use st assms \<open>ReqStream req\<close> in
          \<open>auto simp: doDispatch_def streamDispatch_def stream_end_def settled_usage_def can_answer_def usage_total_def
             Let_def split: option.splits\<close>)
  qed
next
  case False
  show ?thesis
  proof (cases "Complete (Select (srv_router sv) (ReqModel req)) req")
    case (Inl e)
    show ?thesis
      by (rule handleProviderError_eq [of sv ev req refs t u e g])
        (rule that [of 0 "''rejected''" "''upstream_error''"];
         use False Inl in \<open>simp add: doDispatch_def settled_usage_def json_error_def\<close>)
  next
    case (Inr resp)
    then show ?thesis
      by (intro that [of "RespCostUSD resp" dl dr])
        (use False in \<open>simp_all add: doDispatch_def settled_usage_def usage_total_def Let_def\<close>)
  qed
qed

lemma doDispatch_no_flusher:
  assumes "\<not> can_answer ev req"
  shows "doDispatch sv ev req refs t u dl dr advice g =
    (json_error 500 (withMessage ''streaming not supported by this transport'' ''internal_error''), g)"
  using assms by (simp add: doDispatch_def streamDispatch_def can_answer_def Let_def)

section \<open>The outcomes of a request\<close>

abbreviation buckets_of :: "'s gateway \<Rightarrow> client_request \<Rightarrow> identity \<Rightarrow> bucket_ref list" where
  "buckets_of g cr ident \<equiv> Resolve (config_state g) (IdTenantID ident) (XAgentId cr) (XTaskId cr)"

abbreviation reservation ::
  "'s server \<Rightarrow> env \<Rightarrow> client_request \<Rightarrow> identity \<Rightarrow> ClientChatRequest \<Rightarrow> 's gateway \<Rightarrow>
     (budget_error + decision) \<times> enforcer \<times> 's" where
  "reservation sv ev cr ident body g \<equiv>
     CheckAndDecrement (srv_redis sv) (check_net ev) (check_time ev) (enforcer_state g) (buckets_of g cr ident)
       (est_tokens sv (request_of ev cr ident body)) (est_usd sv (request_of ev cr ident body)) (redis_state g)"

lemma ChatCompletions_cases:
  obtains (Invalid) "bind_chat (ReqBody cr) = None" "RStatus (fst (ChatCompletions sv ev cr ident g)) = 400"
      "snd (ChatCompletions sv ev cr ident g) = g"
  | (Unbudgeted) body where "bind_chat (ReqBody cr) = Some body" "buckets_of g cr ident = []"
      "RStatus (fst (ChatCompletions sv ev cr ident g)) = 403"
      "snd (ChatCompletions sv ev cr ident g) =
         finish sv ev (request_of ev cr ident body) [] zero_decision ''rejected'' ''no_budget_configured'' no_usage 0 403 g"
  | (Unavailable) body err where "bind_chat (ReqBody cr) = Some body" "buckets_of g cr ident \<noteq> []"
      "fst (reservation sv ev cr ident body g) = Inl err"
      "RStatus (fst (ChatCompletions sv ev cr ident g)) = 503"
      "redis_state (snd (ChatCompletions sv ev cr ident g)) = snd (snd (reservation sv ev cr ident body g))"
      "access_log (snd (ChatCompletions sv ev cr ident g)) = access_log g"
      "spend_writer (snd (ChatCompletions sv ev cr ident g)) = spend_writer g"
  | (Decided) body d g1 where "bind_chat (ReqBody cr) = Some body" "buckets_of g cr ident \<noteq> []"
      "reservation sv ev cr ident body g = (Inr d, enforcer_state g1, redis_state g1)"
      "access_log g1 = access_log g" "spend_writer g1 = spend_writer g"
      "ChatCompletions sv ev cr ident g =
         (if Allowed d
          then dispatch sv ev (request_of ev cr ident body) (buckets_of g cr ident)
                 (est_tokens sv (request_of ev cr ident body)) (est_usd sv (request_of ev cr ident body)) ''allowed'' [] g1
          else handleBudgetPressure sv ev (request_of ev cr ident body) (buckets_of g cr ident) d
                 (est_input sv (request_of ev cr ident body)) (est_tokens sv (request_of ev cr ident body))
                 (est_usd sv (request_of ev cr ident body)) g1)"
proof (cases "bind_chat (ReqBody cr)")
  case None
  then show ?thesis by (intro Invalid) (simp_all add: ChatCompletions_def json_error_def)
next
  case (Some body)
  show ?thesis
  proof (cases "buckets_of g cr ident = []")
    case True
    with Some show ?thesis by (intro Unbudgeted [of body]) (simp_all add: ChatCompletions_def json_error_def)
  next
    case False
    let ?req = "request_of ev cr ident body"
    obtain res g1 where c: "check_budget sv (check_net ev) (check_time ev) (buckets_of g cr ident) (est_tokens sv ?req)
        (est_usd sv ?req) g = (res, g1)" by fastforce
    note sel = check_budget_sel [OF c]
    show ?thesis
    proof (cases res)
      case (Inl err)
      with Some False c sel show ?thesis
        by (intro Unavailable [of body err]) (simp_all add: ChatCompletions_def json_error_def)
    next
      case (Inr d)
      with Some False c sel show ?thesis
        by (intro Decided [of body d g1]) (simp_all add: ChatCompletions_def Let_def)
    qed
  qed
qed

lemma reject_429: "RStatus (fst (reject sv ev req d outc g)) = 429"
  by (simp add: reject_eq json_error_def)

section \<open>Completions and the budget\<close>


section \<open>A closed gateway\<close>

definition mock_instance :: provider_inst where
  "mock_instance = \<lparr>Name = mock_Name, Complete = mock_Complete ascii_unicode (replicate 12 0) None 5,
     StreamTo = mock_Stream ascii_unicode []\<rparr>"

definition mock_router :: ProviderRouter where
  "mock_router = \<lparr>rOpenAI = mock_instance\<lparr>Name := ''openai''\<rparr>, rAnthropic = mock_instance\<lparr>Name := ''anthropic''\<rparr>,
     rMock = mock_instance\<rparr>"

definition closed_server :: "mem server" where
  "closed_server = \<lparr>srv_redis = mem_redis, srv_unicode = ascii_unicode,
     srv_crypto = \<lparr>sha256_hex = (\<lambda>k. k), bcrypt_matches = (=)\<rparr>, srv_order = pricingTable,
     srv_router = mock_router, srv_advisor = \<lparr>AdvBaseURL = ''http://advisor''\<rparr>, srv_policy = DefaultConfig\<rparr>"

definition closed_env :: env where
  "closed_env = \<lparr>trace_id = ''trace-1'', start_at = 0, finish_at = 7000000, auth_read_at = 0, auth_write_at = 1,
     key_answers = (\<lambda>_. KeyRows []), check_net = net_ok, check_time = (0, 0), retry_net = net_ok, retry_time = (0, 0),
     reconcile_fault = no_fault, advisor_http = (\<lambda>_. Inl ''connection refused''), recent_rows = NoDB, can_flush = True,
     write_fails = (\<lambda>_. None), print_json = (\<lambda>_. ''{}'')\<rparr>"

definition closed_gateway :: "mem gateway" where
  "closed_gateway = \<lparr>redis_state = mem_empty, enforcer_state = NewEnforcer 3600, auth_store = NewStore 300,
     config_state = Seed ''t'' [] [] (zero_limits\<lparr>TokenLimit := 100000\<rparr>) NewConfigCache,
     access_log = NewAsyncLogger 100, spend_writer = None, metrics = []\<rparr>"

definition closed_request :: "int \<Rightarrow> bool \<Rightarrow> client_request" where
  "closed_request n streaming = \<lparr>Authorization = ''Bearer bg_live_abcdefgh'', XAgentId = ''a'', XTaskId = [],
     ReqBody = Some (JObj [(''model'', JStr ''mock-small''),
       (''messages'', JArr [JObj [(''role'', JStr ''user''), (''content'', JStr ''hi'')]]),
       (''max_tokens'', JInt n), (''stream'', JBool streaming)]), BindError = ''''\<rparr>"

definition closed_body :: "int \<Rightarrow> bool \<Rightarrow> ClientChatRequest" where
  "closed_body n streaming = \<lparr>CModel = ''mock-small'', CMessages = [\<lparr>Role = ''user'', Content = ''hi''\<rparr>],
     CMaxTokens = n, CTemperature = 0, CStream = streaming\<rparr>"

definition closed_identity :: identity where
  "closed_identity = \<lparr>IdTenantID = ''t'', KeyID = ''1'', IdScopes = {''agent''}\<rparr>"

lemma closed_sel [simp]:
  "srv_redis closed_server = mem_redis" "srv_unicode closed_server = ascii_unicode" "srv_router closed_server = mock_router"
  "srv_policy closed_server = DefaultConfig" "srv_order closed_server = pricingTable"
  "check_net closed_env = net_ok" "check_time closed_env = (0, 0)" "retry_net closed_env = net_ok"
  "retry_time closed_env = (0, 0)" "reconcile_fault closed_env = no_fault" "can_flush closed_env"
  "redis_state closed_gateway = mem_empty" "enforcer_state closed_gateway = NewEnforcer 3600"
  "XAgentId (closed_request n streaming) = ''a''" "XTaskId (closed_request n streaming) = []"
  by (simp_all add: closed_server_def closed_env_def closed_gateway_def closed_request_def)

lemma bind_closed:
  "in_int64 n \<Longrightarrow> bind_chat (ReqBody (closed_request n streaming)) = Some (closed_body n streaming)"
  by (simp add: closed_request_def closed_body_def bind_chat_def decode_chat_def decode_message_def get_def field_def lower_char_def)

lemma buckets_closed [simp]:
  "Resolve (config_state closed_gateway) (IdTenantID closed_identity) ''a'' [] = [tenant_ref ''t'' 100000]"
  by (simp add: closed_gateway_def closed_identity_def Resolve_def Seed_def NewConfigCache_def tenant_ref_def)

lemma closed_balance [simp]: "computed_tokens (view mem_redis (lua_now (0, 0)) mem_empty (tenant_ref ''t'' 100000)) = 100000"
  by (simp add: closed_view)

lemma closed_ref [simp]: "Limits (tenant_ref t n) = zero_limits\<lparr>TokenLimit := n\<rparr>" "RefKey (tenant_ref t n) = Key t [] [] ScopeTenant"
  by (simp_all add: tenant_ref_def)

lemma closed_reach [simp]: "reachable_backend net_ok (NewEnforcer n)"
  by (simp add: closed_refs)

lemma closed_estimate:
  "3 \<le> est_input closed_server (request_of closed_env (closed_request n streaming) closed_identity (closed_body n streaming))"
  "est_input closed_server (request_of closed_env (closed_request n streaming) closed_identity (closed_body n streaming)) \<le> 13"
  using EstimateMessagesTokens_ge_3 [of ascii_unicode "[]" "[\<lparr>Role = ''user'', Content = ''hi''\<rparr>]"]
    EstimateMessagesTokens_le [of ascii_unicode "[]" "[\<lparr>Role = ''user'', Content = ''hi''\<rparr>]"]
  by (simp_all add: est_input_def request_of_def toProviderRequest_def closed_body_def closed_server_def)

lemma request_of_sel [simp]:
  "ReqMaxTokens (request_of ev cr ident body) = CMaxTokens body" "ReqStream (request_of ev cr ident body) = CStream body"
  "ReqModel (request_of ev cr ident body) = CModel body"
  "TraceID (request_of ev cr ident body) = trace_id ev" "ReqTenantID (request_of ev cr ident body) = IdTenantID ident"
  "ReqAgentID (request_of ev cr ident body) = XAgentId cr" "ReqTaskID (request_of ev cr ident body) = XTaskId cr"
  by (simp_all add: request_of_def toProviderRequest_def split: prod.split)

lemma closed_body_sel [simp]:
  "CMaxTokens (closed_body n streaming) = n" "CStream (closed_body n streaming) = streaming"
  "CModel (closed_body n streaming) = ''mock-small''"
  by (simp_all add: closed_body_def)

lemma closed_tokens:
  assumes "n \<le> 10000"
  shows "est_tokens closed_server (request_of closed_env (closed_request n streaming) closed_identity (closed_body n streaming)) \<in> {0..20000}"
  using closed_estimate [of n streaming] assms
  by (simp add: est_tokens_def output_estimate_def defaultOutputTokenEstimate_def wrap64_id in_int64_def min_int64_def max_int64_def)

lemma closed_reservation:
  assumes "n \<le> 10000"
  obtains d e1 st1 where
    "reservation closed_server closed_env (closed_request n streaming) closed_identity (closed_body n streaming) closed_gateway
       = (Inr d, e1, st1)" "Allowed d"
proof -
  let ?r = "request_of closed_env (closed_request n streaming) closed_identity (closed_body n streaming)"
  have t: "0 \<le> est_tokens closed_server ?r" "f64_of_int (est_tokens closed_server ?r) \<le> f64_of_int 20000"
    using closed_tokens [OF assms, of streaming] by (auto intro: f64_of_int_mono)
  have u: "0 \<le> est_usd closed_server ?r"
    by (auto simp: est_usd_def output_estimate_def defaultOutputTokenEstimate_def intro!: CostUSD_nonneg)
  have "enough mem_redis (lua_now (0, 0)) mem_empty [tenant_ref ''t'' 100000]
      (f64_of_int (est_tokens closed_server ?r)) (est_usd closed_server ?r)"
    using t by (simp add: enough_iff zero_limits_def)
  from allowed_call [OF _ closed_reach t(1) u this] that show ?thesis by (simp, blast)
qed

lemma closed_in_int64 [simp]: "0 \<le> n \<Longrightarrow> n \<le> 10000 \<Longrightarrow> in_int64 n"
  by (simp add: in_int64_def min_int64_def max_int64_def)

lemma closed_Select [simp]: "Select (srv_router closed_server) ''mock-small'' = mock_instance" "Select mock_router ''mock-small'' = mock_instance"
  by (simp_all add: Select_def mock_router_def NormalizeModel_def)

lemma closed_completed:
  assumes "0 \<le> n" "n \<le> 10000"
  shows "RStatus (fst (ChatCompletions closed_server closed_env (closed_request n False) closed_identity closed_gateway)) = 200"
proof -
  obtain d e1 st1 where res:
    "reservation closed_server closed_env (closed_request n False) closed_identity (closed_body n False) closed_gateway
       = (Inr d, e1, st1)" "Allowed d" using closed_reservation [OF assms(2), of False] by blast
  show ?thesis
  proof (cases rule: ChatCompletions_cases [of "closed_request n False" closed_server closed_env closed_identity closed_gateway])
    case (Decided body d' g1)
    then have "body = closed_body n False" using bind_closed [of n False] assms by simp
    then have "Allowed d'" using Decided(3) res by simp
    then show ?thesis
      unfolding Decided(6)
      by (simp add: dispatch_def doDispatch_def Let_def \<open>body = _\<close> mock_instance_def mock_Complete_def)
  qed (use assms res bind_closed [of n False] in auto)
qed


lemma serve_requires_scope_witness:
  "RStatus (fst (serve closed_server closed_env (closed_request 100 False) closed_gateway)) \<in> {401, 403} \<and>
   metrics (snd (serve closed_server closed_env (closed_request 100 False) closed_gateway)) = []"
proof -
  have "\<exists>err. Authenticate (srv_crypto closed_server) (auth_read_at closed_env) (key_answers closed_env) (auth_write_at closed_env)
      rawKey (auth_store closed_gateway) = (Inl err, auth_store closed_gateway)" for rawKey
    by (simp add: Authenticate_def lookupAndVerify_def closed_server_def closed_env_def closed_gateway_def NewStore_def cache_hit_def)
  then have "Authenticate (srv_crypto closed_server) (auth_read_at closed_env) (key_answers closed_env) (auth_write_at closed_env)
      rawKey (auth_store closed_gateway) \<noteq> (Inr ident, s')" for rawKey ident s' by (metis Inl_Inr_False prod.inject)
  then show ?thesis
    using serve_requires_scope [of "closed_request 100 False" closed_server closed_env closed_gateway]
    by (simp add: closed_gateway_def)
qed

section \<open>Every call is charged what it used\<close>

lemma charge_of_call:
  assumes "redis_laws (srv_redis sv)" "reachable_backend (check_net ev) (enforcer_state g)" "reconcile_fault ev = no_fault"
    and "XAgentId cr \<noteq> ''-''" "XTaskId cr \<noteq> ''-''"
    and "bind_chat (ReqBody cr) = Some body" "can_answer ev (request_of ev cr ident body)"
    and "reservation sv ev cr ident body g = (Inr d, e1, st1)" "Allowed d"
    and "r \<in> set (buckets_of g cr ident)" "0 < TokenLimit (Limits r)" "TokenLimit (Limits r) \<le> 10 ^ 14"
    and "\<bar>usage_total (settled_usage sv ev (request_of ev cr ident body) [])\<bar> \<le> 2 ^ 52"
    and "computed_tokens (view (srv_redis sv) (lua_now (check_time ev)) (redis_state g) r) = of_int b"
  shows "hget (srv_redis sv) (redis_state (snd (ChatCompletions sv ev cr ident g))) (RefKey r) ''tokens_remaining'' =
    Some (of_int (b - usage_total (settled_usage sv ev (request_of ev cr ident body) [])))"
proof (cases rule: ChatCompletions_cases [of cr sv ev ident g])
  case (Decided body' d' g1)
  then have eq: "body' = body" "d' = d" "st1 = redis_state g1" using assms(6,8) by simp_all
  let ?req = "request_of ev cr ident body" and ?refs = "buckets_of g cr ident"
  obtain au where settled: "redis_state (snd (ChatCompletions sv ev cr ident g)) =
      snd (Reconcile (srv_redis sv) no_fault ?refs (est_tokens sv ?req) (est_usd sv ?req)
             (usage_total (settled_usage sv ev ?req [])) au st1)"
    unfolding Decided(6) eq if_P [OF assms(9)] dispatch_def
    by (rule doDispatch_settles [OF assms(7)]) (simp add: assms(3))
  obtain err st2 where rec: "Reconcile (srv_redis sv) no_fault ?refs (est_tokens sv ?req) (est_usd sv ?req)
      (usage_total (settled_usage sv ev ?req [])) au st1 = (err, st2)" by fastforce
  from charge_after_reconcile [OF assms(1,2) Decided(2) Resolve_keys_distinct [OF assms(4,5)] assms(8,9) this assms(10-14)]
  show ?thesis unfolding settled rec snd_conv by blast
next
  case (Unavailable body' err)
  with assms(6,8) show ?thesis by simp
qed (use assms(6,10) in simp_all)


lemma mock_settled:
  "settled_usage closed_server ev (request_of ev cr ident (closed_body n False)) advice =
     mock_usage ascii_unicode (request_of ev cr ident (closed_body n False))"
  by (simp add: settled_usage_def mock_instance_def mock_Complete_def Let_def)

lemma closed_charge:
  assumes "0 \<le> n" "n \<le> 10000"
  defines "u \<equiv> mock_usage ascii_unicode (request_of closed_env (closed_request n False) closed_identity (closed_body n False))"
  shows "0 \<le> TokensIn u + TokensOut u" "usage_total u = TokensIn u + TokensOut u" "\<bar>usage_total u\<bar> \<le> 2 ^ 52"
proof -
  let ?r = "request_of closed_env (closed_request n False) closed_identity (closed_body n False)"
  have i: "int (EstimateMessagesTokens ascii_unicode (ReqSystem ?r) (Messages ?r)) \<le> 13"
    using closed_estimate(2) [of n False] by (simp add: est_input_def)
  have "TokensIn u \<le> 13" using i by (simp add: u_def mock_usage_def Let_def)
  moreover have "TokensOut u \<le> 4096" by (simp add: u_def mock_usage_le(2))
  moreover have "0 \<le> TokensIn u" "1 \<le> TokensOut u"
    using mock_usage_ge [of ascii_unicode ?r] i by (simp_all add: u_def max_int64_def)
  ultimately show "0 \<le> TokensIn u + TokensOut u" "usage_total u = TokensIn u + TokensOut u" "\<bar>usage_total u\<bar> \<le> 2 ^ 52"
    by (simp_all add: usage_total_def wrap64_id in_int64_def min_int64_def max_int64_def)
qed


end
