(* ===== verification/Ledger.thy ===== *)
theory Ledger
  imports Enforcement Runs
begin

text \<open>
  Runs of the budget store: any number of gateway replicas send checks and reconciliations in
  any order and over faulty connections, and Redis may expire keys. \<open>ledger\<close> is the
  abstract contract of a metered account, with the no-overspend theorem proved once inside it;
  it is interpreted on the token balance of a bucket key as the enforcer's two calls move it.
\<close>

section \<open>The contract of an account\<close>

locale ledger =
  fixes step :: "'s \<Rightarrow> 'e \<Rightarrow> 's \<Rightarrow> bool"
    and funds :: "'s \<Rightarrow> 'n :: linordered_idom \<Rightarrow> 'n \<Rightarrow> bool"
    and charge :: "'e \<Rightarrow> 'n"
    and volume :: "'e \<Rightarrow> 'n"
    and admits :: "'e \<Rightarrow> bool"
    and cap :: 'n
  assumes step_funds: "step s ev s' \<Longrightarrow> funds s b m \<Longrightarrow> m + volume ev \<le> cap \<Longrightarrow>
      funds s' (b - charge ev) (m + volume ev)"
    and admits_funded: "step s ev s' \<Longrightarrow> funds s b m \<Longrightarrow> m + volume ev \<le> cap \<Longrightarrow> admits ev \<Longrightarrow> charge ev \<le> b"
    and volume_nonneg: "0 \<le> volume ev"
begin

lemma run_funds:
  assumes "run step s evs s'" "funds s b m" "m + (\<Sum>ev\<leftarrow>evs. volume ev) \<le> cap"
  shows "funds s' (b - (\<Sum>ev\<leftarrow>evs. charge ev)) (m + (\<Sum>ev\<leftarrow>evs. volume ev))"
  using assms
proof (induction rule: run.induct)
  case (run_snoc s evs s' ev s'')
  then have "m + (\<Sum>ev\<leftarrow>evs. volume ev) \<le> cap" using volume_nonneg [of ev] by simp
  with run_snoc have "funds s' (b - (\<Sum>ev\<leftarrow>evs. charge ev)) (m + (\<Sum>ev\<leftarrow>evs. volume ev))" by blast
  from step_funds [OF run_snoc.hyps(2) this] run_snoc.prems(2) show ?case by (simp add: algebra_simps)
qed simp

lemma admission_within:
  assumes "run step s (evs @ [ev]) s'" "funds s b m" "m + (\<Sum>e\<leftarrow>evs @ [ev]. volume e) \<le> cap" "admits ev"
  shows "(\<Sum>e\<leftarrow>evs @ [ev]. charge e) \<le> b"
proof -
  from assms(1) obtain s1 where 1: "run step s evs s1" "step s1 ev s'" by (rule run_snocE)
  have "m + (\<Sum>e\<leftarrow>evs. volume e) \<le> cap" using assms(3) volume_nonneg [of ev] by simp
  from admits_funded [OF 1(2) run_funds [OF 1(1) assms(2) this]] assms(3,4)
  show ?thesis by (simp add: algebra_simps)
qed

text \<open>What is charged other than at an admission is the overrun of the calls.\<close>

lemma total_within:
  assumes "run step s evs s'" "funds s b m" "m + (\<Sum>e\<leftarrow>evs. volume e) \<le> cap" "0 \<le> b"
  shows "(\<Sum>e\<leftarrow>evs. charge e) \<le> b + (\<Sum>e\<leftarrow>evs. if admits e then 0 else max 0 (charge e))"
  using assms
proof (induction rule: run.induct)
  case (run_snoc s evs s' ev s'')
  have nonneg: "0 \<le> (\<Sum>e\<leftarrow>evs. if admits e then 0 else max 0 (charge e))" by (induction evs) simp_all
  show ?case
  proof (cases "admits ev")
    case True
    have "run step s (evs @ [ev]) s''" using run_snoc.hyps by (rule run.run_snoc)
    from admission_within [OF this run_snoc.prems(1,2) True] True nonneg show ?thesis by simp
  next
    case False
    have "m + (\<Sum>e\<leftarrow>evs. volume e) \<le> cap" using run_snoc.prems(2) volume_nonneg [of ev] by simp
    with run_snoc False show ?thesis by simp
  qed
qed simp

end

section \<open>The events of the budget store\<close>

text \<open>
  A check carries the decision that reached its caller, \<open>None\<close> when an error did; a settlement is
  one call of \<open>Reconcile\<close>, with its estimate, the actual usage and whether it reported an error.
\<close>

datatype event =
  Check "bucket_ref list" int "decision option"
| Settle "bucket_ref list" int int bool
| Expired string

inductive budget_step :: "'s redis \<Rightarrow> 's \<Rightarrow> event \<Rightarrow> 's \<Rightarrow> bool" for rd where
  check: "runs_once net \<Longrightarrow> CheckAndDecrement rd net tm e refs t u st = (res, e', st') \<Longrightarrow>
     budget_step rd st (Check refs t (case res of Inl _ \<Rightarrow> None | Inr d \<Rightarrow> Some d)) st'"
| settle: "sent_once fault \<Longrightarrow> Reconcile rd fault refs et eu act au st = (err, st') \<Longrightarrow>
     budget_step rd st (Settle refs et act err) st'"
| expired: "budget_step rd st (Expired key) (drop_key rd st key)"

inductive_cases budget_checkE: "budget_step rd st (Check refs t d) st'"
inductive_cases budget_settleE: "budget_step rd st (Settle refs et act err) st'"
inductive_simps budget_expired_iff: "budget_step rd st (Expired key) st'"

text \<open>
  What an event charges to the bucket \<open>k\<close>. A reconciliation that reports an error may or may
  not have reached the bucket: its refund counts, its extra charge does not.
\<close>

definition mentions :: "string \<Rightarrow> bucket_ref list \<Rightarrow> bool" where
  "mentions k refs \<longleftrightarrow> k \<in> RefKey ` set refs"

fun token_charge :: "string \<Rightarrow> event \<Rightarrow> int" where
  "token_charge k (Check refs t (Some d)) = (if Allowed d \<and> mentions k refs then t else 0)"
| "token_charge k (Check refs t None) = 0"
| "token_charge k (Settle refs et act err) =
     (if mentions k refs then (if err then min 0 (act - et) else act - et) else 0)"
| "token_charge k (Expired key) = 0"

fun token_volume :: "string \<Rightarrow> event \<Rightarrow> int" where
  "token_volume k (Settle refs et act err) = (if mentions k refs then \<bar>et - act\<bar> else 0)"
| "token_volume k _ = 0"

fun admission :: "string \<Rightarrow> event \<Rightarrow> bool" where
  "admission k (Check refs t (Some d)) \<longleftrightarrow> Allowed d \<and> mentions k refs"
| "admission k _ \<longleftrightarrow> False"

text \<open>Every event uses the bucket \<open>k\<close> with the token limit \<open>L\<close> and no refill, and the key lives on.\<close>

definition uses_bucket :: "string \<Rightarrow> int \<Rightarrow> bucket_ref list \<Rightarrow> bool" where
  "uses_bucket k L refs \<longleftrightarrow> distinct (map RefKey refs) \<and>
     (\<forall>r\<in>set refs. RefKey r = k \<longrightarrow> TokenLimit (Limits r) = L \<and> RefillTokensPerSec (Limits r) = 0)"

fun fixed_budget :: "string \<Rightarrow> int \<Rightarrow> event \<Rightarrow> bool" where
  "fixed_budget k L (Check refs t d) \<longleftrightarrow> uses_bucket k L refs"
| "fixed_budget k L (Settle refs et act err) \<longleftrightarrow> uses_bucket k L refs \<and> \<bar>et - act\<bar> \<le> 2 ^ 53"
| "fixed_budget k L (Expired key) \<longleftrightarrow> key \<noteq> k"

section \<open>The two calls keep the account\<close>

definition token_funds :: "'s redis \<Rightarrow> string \<Rightarrow> int \<Rightarrow> 's \<Rightarrow> int \<Rightarrow> int \<Rightarrow> bool" where
  "token_funds rd k L st b m \<longleftrightarrow> redis_laws rd \<and> 0 < L \<and> L \<le> 10 ^ 14 \<and> L \<le> m \<and>
     (case hget rd st k ''tokens_remaining'' of
        None \<Rightarrow> L \<le> b
      | Some v \<Rightarrow> \<exists>n. v = of_int n \<and> n \<le> b \<and> \<bar>n\<bar> \<le> m)"

lemma token_fundsI:
  "redis_laws rd \<Longrightarrow> 0 < L \<Longrightarrow> L \<le> 10 ^ 14 \<Longrightarrow> L \<le> m \<Longrightarrow>
   hget rd st k ''tokens_remaining'' = Some (of_int n) \<Longrightarrow> n \<le> b \<Longrightarrow> \<bar>n\<bar> \<le> m \<Longrightarrow> token_funds rd k L st b m"
  by (auto simp: token_funds_def)

lemma view_fixed:
  assumes "TokenLimit (Limits r) = L" "RefillTokensPerSec (Limits r) = 0" "0 < L" "L \<le> 10 ^ 14"
  shows "computed_tokens (view rd now st r) =
    (case hget rd st (RefKey r) ''tokens_remaining'' of
       None \<Rightarrow> of_int L
     | Some v \<Rightarrow> min (f64 v) (of_int L))"
proof -
  have "f64_of_int L = of_int L" "f64 (of_int L) = of_int L"
    using assms(3,4) by (intro f64_of_int_exact f64_short_int; simp)+
  then show ?thesis
    using assms(3)
    by (simp add: view_def phase1_key_def ref_args_def lua_refill_def Let_def assms(1,2) f64_mul_def f64_add_def
        f64.r_idem min_def split: option.split)
qed

text \<open>An admitted request sees an integer balance no larger than the funds.\<close>

lemma admitted_view:
  assumes "token_funds rd k L st b m" "TokenLimit (Limits r) = L" "RefillTokensPerSec (Limits r) = 0" "RefKey r = k"
    and "0 \<le> t" "f64_of_int t \<le> computed_tokens (view rd now st r)"
  obtains c where "computed_tokens (view rd now st r) = of_int c" "c \<le> b" "c \<le> L"
proof -
  have L: "0 < L" "L \<le> 10 ^ 14" using assms(1) by (simp_all add: token_funds_def)
  show ?thesis
  proof (cases "hget rd st k ''tokens_remaining''")
    case None
    then show ?thesis
      using assms(1) that [of L] by (simp add: view_fixed [OF assms(2,3) L] assms(4) token_funds_def)
  next
    case (Some v)
    then obtain n where n: "v = of_int n" "n \<le> b" using assms(1) by (auto simp: token_funds_def)
    have view: "computed_tokens (view rd now st r) = min (f64 (of_int n)) (of_int L)"
      by (simp add: view_fixed [OF assms(2,3) L] assms(4) Some n(1))
    have "0 \<le> f64_of_int n" using assms(6) f64_of_int_nonneg [OF assms(5)] by (simp add: view f64_of_int_def)
    then have n0: "0 \<le> n" using f64_of_int_neg_iff [of n] by linarith
    show ?thesis
    proof (cases "n \<le> L")
      case True
      then have "f64 (of_int n) = of_int n" using n0 L by (intro f64_short_int) simp
      with True n(2) show ?thesis by (intro that [of n]) (simp_all add: view)
    next
      case False
      then have "of_int L \<le> f64 (of_int n)"
        using L by (intro f64.r_ge_fixed f64_short_int) simp_all
      with False n(2) show ?thesis by (intro that [of L]) (simp_all add: view)
    qed
  qed
qed

lemma check_keeps_funds:
  assumes "token_funds rd k L st b m" "uses_bucket k L refs" "runs_once net"
    and "CheckAndDecrement rd net tm e refs t u st = (res, e', st')"
  defines "ev \<equiv> Check refs t (case res of Inl _ \<Rightarrow> None | Inr d \<Rightarrow> Some d)"
  shows "token_funds rd k L st' (b - token_charge k ev) m" and "admission k ev \<Longrightarrow> token_charge k ev \<le> b"
proof -
  have laws: "redis_laws rd" and dist: "distinct (map RefKey refs)"
    using assms(1,2) by (simp_all add: token_funds_def uses_bucket_def)
  consider (same) "st' = st" "\<not> admission k ev"
    | (off) "\<not> mentions k refs" "hget rd st' k ''tokens_remaining'' = hget rd st k ''tokens_remaining''"
    | (on) r where "r \<in> set refs" "RefKey r = k" "0 \<le> t" "enough rd (lua_now tm) st refs (f64_of_int t) u"
        "st' = committed rd (lua_now tm) e refs (f64_of_int t) u st"
  proof (cases "st' = st \<and> (\<forall>d. res = Inr d \<longrightarrow> \<not> Allowed d)")
    case True
    then show ?thesis by (intro same) (auto simp: ev_def split: sum.splits)
  next
    case False
    with check_effect [OF assms(3,4)] have st': "0 \<le> t" "enough rd (lua_now tm) st refs (f64_of_int t) u"
      "st' = committed rd (lua_now tm) e refs (f64_of_int t) u st" by blast+
    show ?thesis
    proof (cases "mentions k refs")
      case True
      then show ?thesis using on st' by (auto simp: mentions_def)
    next
      case False
      then show ?thesis using off committed_other [OF laws dist] st'(3) by (simp add: mentions_def)
    qed
  qed
  then have "token_funds rd k L st' (b - token_charge k ev) m \<and> (admission k ev \<longrightarrow> token_charge k ev \<le> b)"
  proof cases
    case same
    then have "token_charge k ev = 0" by (cases res) (auto simp: ev_def)
    then show ?thesis using assms(1) same by simp
  next
    case off
    then have "token_charge k ev = 0" "\<not> admission k ev" by (cases res; auto simp: ev_def)+
    then show ?thesis using assms(1) off(2) by (simp add: token_funds_def)
  next
    case on
    have r: "TokenLimit (Limits r) = L" "RefillTokensPerSec (Limits r) = 0"
      using assms(2) on(1,2) by (auto simp: uses_bucket_def)
    have L: "0 < L" "L \<le> 10 ^ 14" "L \<le> m" using assms(1) by (simp_all add: token_funds_def)
    have ft: "f64_of_int t \<le> computed_tokens (view rd (lua_now tm) st r)"
      using on(1,4) r L by (auto simp: enough_iff)
    from admitted_view [OF assms(1) r on(2,3) ft] obtain c where
      c: "computed_tokens (view rd (lua_now tm) st r) = of_int c" "c \<le> b" "c \<le> L" by blast
    have "c \<le> 10 ^ 14" using c L by simp
    note left = left_tokens_int [OF c(1) on(3) ft [unfolded c(1)] this]
    have "hget rd st' k ''tokens_remaining'' = Some (of_int (c - t))"
      unfolding on(5) on(2) [symmetric] committed_bucket(1) [OF laws dist on(1)] left(2) ..
    moreover have "0 \<le> token_charge k ev" "token_charge k ev \<le> t" using on(3) by (cases res; simp add: ev_def)+
    ultimately show ?thesis
      using c left(1) on(3) L by (intro conjI token_fundsI [OF laws, of L m st' k "c - t"]) auto
  qed
  then show "token_funds rd k L st' (b - token_charge k ev) m" and "admission k ev \<Longrightarrow> token_charge k ev \<le> b"
    by blast+
qed

text \<open>A pipeline that is cut off has run a prefix of the increments of a field.\<close>

lemma filter_take: "\<exists>j. filter P (take i xs) = take j (filter P xs)"
proof (induction xs arbitrary: i)
  case (Cons x xs)
  show ?case
  proof (cases i)
    case 0
    then show ?thesis by (intro exI [of _ 0]) simp
  next
    case (Suc i')
    from Cons [of i'] obtain j where "filter P (take i' xs) = take j (filter P xs)" by blast
    then have "filter P (take i (x # xs)) = take (if P x then Suc j else j) (filter P (x # xs))"
      by (simp add: Suc)
    then show ?thesis by blast
  qed
qed simp

definition incrs_of :: "string \<Rightarrow> field \<Rightarrow> incr list \<Rightarrow> incr list" where
  "incrs_of k f = filter (\<lambda>c. fst c = k \<and> fst (snd c) = f)"

lemma hget_run_incrs:
  assumes "redis_laws rd"
  shows "hget rd (fold (run_incr rd) cmds st) k f =
    fold (\<lambda>c v. Some (incr_sum rd (case v of Some v \<Rightarrow> v | None \<Rightarrow> 0) (snd (snd c)))) (incrs_of k f cmds) (hget rd st k f)"
  by (induction cmds arbitrary: st) (simp_all add: incrs_of_def hget_run_incr [OF assms])

lemma incrs_of_other:
  "k \<notin> RefKey ` set refs \<Longrightarrow> incrs_of k f (concat (map (reconcile_cmds dt du) refs)) = []"
  by (induction refs) (auto simp: incrs_of_def reconcile_cmds_def)

lemma incrs_of_append [simp]: "incrs_of k f (xs @ ys) = incrs_of k f xs @ incrs_of k f ys"
  by (simp add: incrs_of_def)

lemma incrs_of_one:
  "incrs_of k f (reconcile_cmds dt du r) =
    (if RefKey r = k \<and> delta_of dt du r f \<noteq> 0 then [(k, f, delta_of dt du r f)] else [])"
  by (auto simp: incrs_of_def reconcile_cmds_def delta_of_def)

lemma incrs_of_reconcile:
  assumes "distinct (map RefKey refs)" "r \<in> set refs"
  shows "incrs_of (RefKey r) f (concat (map (reconcile_cmds dt du) refs)) =
    (if delta_of dt du r f \<noteq> 0 then [(RefKey r, f, delta_of dt du r f)] else [])"
  using assms
proof (induction refs)
  case (Cons a refs)
  show ?case
  proof (cases "r = a")
    case True
    then show ?thesis using Cons.prems(1) by (simp add: incrs_of_one incrs_of_other)
  next
    case False
    then have "r \<in> set refs" using Cons.prems by simp
    then have "RefKey a \<noteq> RefKey r" using Cons.prems(1) by (auto simp: image_iff)
    with Cons \<open>r \<in> set refs\<close> show ?thesis by (simp add: incrs_of_one)
  qed
qed simp

lemma Reconcile_prefix:
  assumes "sent_once fault" "Reconcile rd fault refs et eu act au st = (err, st')"
  defines "cmds \<equiv> concat (map (reconcile_cmds (f64_of_int (wrap64 (et - act))) (f64_sub eu au)) refs)"
  obtains i where "st' = fold (run_incr rd) (take i cmds) st" "\<not> err \<Longrightarrow> take i cmds = cmds"
proof (cases "f64_of_int (wrap64 (et - act)) = 0 \<and> f64_sub eu au = 0")
  case True
  then have "cmds = []" by (auto simp: cmds_def reconcile_cmds_def)
  with True assms(2) that show ?thesis by (auto simp: Reconcile_def Let_def)
next
  case False
  then have run: "pipe_exec rd fault cmds st = (err, st')"
    using assms(2) by (auto simp: Reconcile_def Let_def cmds_def)
  obtain n where "pipe_attempts fault cmds = take n cmds" "snd fault = None \<longrightarrow> take n cmds = cmds"
    using attempts_once [OF assms(1)] by blast
  then show ?thesis using run by (intro that [of n]) (auto simp: pipe_exec_def)
qed

text \<open>The one increment of the token field, run or not.\<close>

lemma Reconcile_tokens:
  assumes "redis_laws rd" "distinct (map RefKey refs)" "0 < L" "\<bar>et - act\<bar> \<le> 2 ^ 53"
    and "\<forall>r\<in>set refs. RefKey r = k \<longrightarrow> TokenLimit (Limits r) = L"
    and "sent_once fault" "Reconcile rd fault refs et eu act au st = (err, st')"
  defines "v0 \<equiv> hget rd st k ''tokens_remaining''" and "v1 \<equiv> hget rd st' k ''tokens_remaining''"
  shows "v1 = v0 \<and> (\<not> mentions k refs \<or> et = act \<or> err) \<or>
    v1 = Some (incr_sum rd (case v0 of Some v \<Rightarrow> v | None \<Rightarrow> 0) (of_int (et - act))) \<and> mentions k refs"
proof -
  let ?dt = "f64_of_int (wrap64 (et - act))" and ?f = "''tokens_remaining''"
  let ?cmds = "concat (map (reconcile_cmds ?dt (f64_sub eu au)) refs)"
  obtain i where i: "st' = fold (run_incr rd) (take i ?cmds) st" "\<not> err \<Longrightarrow> take i ?cmds = ?cmds"
    using Reconcile_prefix [OF assms(6,7)] by blast
  have dt: "?dt = of_int (et - act)"
    using assms(4) by (subst wrap64_id) (auto simp: in_int64_def min_int64_def max_int64_def intro!: f64_of_int_exact)
  show ?thesis
  proof (cases "mentions k refs \<and> et \<noteq> act")
    case True
    then obtain r where r: "r \<in> set refs" "RefKey r = k" by (auto simp: mentions_def)
    have delta: "delta_of ?dt (f64_sub eu au) r ?f = of_int (et - act)"
      using assms(3,5) r by (simp add: delta_of_def dt)
    have all: "incrs_of k ?f ?cmds = [(k, ?f, of_int (et - act))]"
      using incrs_of_reconcile [OF assms(2) r(1), of ?f ?dt "f64_sub eu au"] True by (simp add: r(2) delta)
    obtain j where j: "incrs_of k ?f (take i ?cmds) = take j (incrs_of k ?f ?cmds)"
      unfolding incrs_of_def using filter_take by blast
    have "err" if "j = 0"
    proof (rule ccontr)
      assume "\<not> err"
      have "incrs_of k ?f ?cmds = []" using j that unfolding i(2) [OF \<open>\<not> err\<close>] by simp
      with all show False by simp
    qed
    then show ?thesis
      using True all j by (cases j) (simp_all add: v0_def v1_def i(1) hget_run_incrs [OF assms(1)])
  next
    case False
    have "incrs_of k ?f ?cmds = []"
    proof (cases "mentions k refs")
      case True
      then obtain r where r: "r \<in> set refs" "RefKey r = k" by (auto simp: mentions_def)
      have "?dt = 0" using dt False True by simp
      then have "delta_of ?dt (f64_sub eu au) r ?f = 0" by (simp add: delta_of_def)
      then show ?thesis
        using incrs_of_reconcile [OF assms(2) r(1), of ?f ?dt "f64_sub eu au"] by (simp only: r(2) if_False simp_thms)
    qed (simp add: mentions_def incrs_of_other)
    then have "incrs_of k ?f (take i ?cmds) = []"
      using filter_take [of "\<lambda>c. fst c = k \<and> fst (snd c) = ?f" i ?cmds] by (auto simp only: incrs_of_def take_Nil)
    then show ?thesis using False i(1) by (auto simp: v0_def v1_def hget_run_incrs [OF assms(1)])
  qed
qed

lemma settle_keeps_funds:
  assumes "token_funds rd k L st b m" "uses_bucket k L refs" "\<bar>et - act\<bar> \<le> 2 ^ 53"
    and "sent_once fault" "Reconcile rd fault refs et eu act au st = (err, st')"
    and "m + token_volume k (Settle refs et act err) \<le> 2 ^ 62"
  defines "ev \<equiv> Settle refs et act err"
  shows "token_funds rd k L st' (b - token_charge k ev) (m + token_volume k ev)"
proof -
  note fields = assms(1) [unfolded token_funds_def]
  have laws: "redis_laws rd" and L: "0 < L" "L \<le> 10 ^ 14" "L \<le> m" using fields by simp_all
  have cfg: "distinct (map RefKey refs)" "\<forall>r\<in>set refs. RefKey r = k \<longrightarrow> TokenLimit (Limits r) = L"
    using assms(2) by (simp_all add: uses_bucket_def)
  have vol: "0 \<le> token_volume k ev" by (simp add: ev_def)
  from Reconcile_tokens [OF laws cfg(1) L(1) assms(3) cfg(2) assms(4,5)]
  consider (kept) "hget rd st' k ''tokens_remaining'' = hget rd st k ''tokens_remaining''"
      "\<not> mentions k refs \<or> et = act \<or> err"
    | (changed) "hget rd st' k ''tokens_remaining'' =
        Some (incr_sum rd (case hget rd st k ''tokens_remaining'' of Some v \<Rightarrow> v | None \<Rightarrow> 0) (of_int (et - act)))"
      "mentions k refs" by blast
  then show ?thesis
  proof cases
    case kept
    moreover from this have "b \<le> b - token_charge k ev" by (auto simp: ev_def)
    ultimately show ?thesis using fields vol by (fastforce simp: token_funds_def split: option.splits)
  next
    case changed
    then have ch: "token_charge k ev \<le> act - et" "token_volume k ev = \<bar>et - act\<bar>" by (simp_all add: ev_def)
    obtain n where n: "(case hget rd st k ''tokens_remaining'' of Some v \<Rightarrow> v | None \<Rightarrow> 0) = of_int n"
      "n \<le> b" "\<bar>n\<bar> \<le> m"
    proof (cases "hget rd st k ''tokens_remaining''")
      case None
      then show ?thesis using fields by (intro that [of 0]) auto
    next
      case (Some v)
      then show ?thesis using fields that by auto
    qed
    have "\<bar>n\<bar> \<le> 2 ^ 62" using n(3) vol assms(6) by (simp add: ev_def)
    moreover have "\<bar>et - act\<bar> \<le> 2 ^ 62" using assms(3) by simp
    ultimately have "hget rd st' k ''tokens_remaining'' = Some (of_int (n + (et - act)))"
      unfolding changed(1) n(1) using incr_sum_of_int [OF laws, of n "et - act"] by simp
    moreover have "\<bar>n + (et - act)\<bar> \<le> m + token_volume k ev" using n(3) ch(2) by linarith
    ultimately show ?thesis
      using n(2) ch(1) vol L by (intro token_fundsI [OF laws, where n = "n + (et - act)"]) simp_all
  qed
qed

section \<open>The token balance of a bucket is an account\<close>

definition token_step :: "'s redis \<Rightarrow> string \<Rightarrow> int \<Rightarrow> 's \<Rightarrow> event \<Rightarrow> 's \<Rightarrow> bool" where
  "token_step rd k L st ev st' \<longleftrightarrow> budget_step rd st ev st' \<and> fixed_budget k L ev"

interpretation tokens: ledger "token_step rd k L" "token_funds rd k L" "token_charge k" "token_volume k"
  "admission k" "2 ^ 62" for rd :: "'s redis" and k L
proof
  fix s s' :: 's and ev b m
  assume step: "token_step rd k L s ev s'" and f: "token_funds rd k L s b m" and cap: "m + token_volume k ev \<le> 2 ^ 62"
  then have "budget_step rd s ev s'" and fixed: "fixed_budget k L ev" by (simp_all add: token_step_def)
  then show "token_funds rd k L s' (b - token_charge k ev) (m + token_volume k ev)"
  proof cases
    case check
    then show ?thesis using check_keeps_funds(1) [OF f] fixed by simp
  next
    case settle
    then show ?thesis using settle_keeps_funds [OF f] fixed cap by simp
  next
    case (expired key)
    then show ?thesis using f fixed by (simp add: token_funds_def hget_drop_key)
  qed
  show "token_charge k ev \<le> b" if "admission k ev"
    using \<open>budget_step rd s ev s'\<close>
  proof cases
    case check
    then show ?thesis using check_keeps_funds(2) [OF f] fixed that by simp
  qed (use that in simp_all)
next
  show "0 \<le> token_volume k ev" for ev by (cases ev) simp_all
qed

section \<open>No overspend\<close>

lemma fixed_run:
  assumes "run (budget_step rd) st evs st'" "\<forall>ev\<in>set evs. fixed_budget k L ev"
  shows "run (token_step rd k L) st evs st'"
  using assms by (auto intro: run_mono simp: token_step_def)

lemma fresh_funds:
  "redis_laws rd \<Longrightarrow> 0 < L \<Longrightarrow> L \<le> 10 ^ 14 \<Longrightarrow> hget rd st k ''tokens_remaining'' = None \<Longrightarrow> token_funds rd k L st L L"
  by (simp add: token_funds_def)

text \<open>No request is admitted beyond the budget. Take any sequence of checks and
  reconciliations that any number of gateways send, in any interleaving and over connections
  that may lose commands and replies, against a bucket with a token limit and no refill, whose
  key does not expire. Whenever a check is allowed, what was charged to the bucket before
  (reservations, corrected by the reconciliations) plus the new reservation is within the limit.\<close>

theorem admission_within_budget:
  assumes "redis_laws rd" "0 < L" "L \<le> 10 ^ 14" "hget rd st k ''tokens_remaining'' = None"
    and "run (budget_step rd) st (evs @ [Check refs t (Some d)]) st'"
    and "\<forall>ev\<in>set (evs @ [Check refs t (Some d)]). fixed_budget k L ev"
    and "L + (\<Sum>ev\<leftarrow>evs. token_volume k ev) \<le> 2 ^ 62"
    and "Allowed d" "mentions k refs"
  shows "(\<Sum>ev\<leftarrow>evs. token_charge k ev) + t \<le> L"
  using tokens.admission_within [OF fixed_run [OF assms(5,6)] fresh_funds [OF assms(1-4)]] assms(7-9)
  by simp

definition first_check :: event where
  "first_check = Check [tenant_ref ''t'' 1000] 300 (Some \<lparr>Allowed = True, Reason = ReasonNone,
     FailedScope = NoScope, RemainingTokens = 700, RemainingUSD = 0\<rparr>)"

lemma first_check_step: "\<exists>st'. budget_step mem_redis mem_empty first_check st'"
proof -
  have "\<exists>e' st'. CheckAndDecrement mem_redis net_ok (0, 0) (NewEnforcer 3600) [tenant_ref ''t'' 1000] 300 0 mem_empty =
      (Inr \<lparr>Allowed = True, Reason = ReasonNone, FailedScope = NoScope, RemainingTokens = 700, RemainingUSD = 0\<rparr>, e', st')"
    by (simp add: closed_call)
  then obtain e' st' where "CheckAndDecrement mem_redis net_ok (0, 0) (NewEnforcer 3600) [tenant_ref ''t'' 1000] 300 0 mem_empty =
      (Inr \<lparr>Allowed = True, Reason = ReasonNone, FailedScope = NoScope, RemainingTokens = 700, RemainingUSD = 0\<rparr>, e', st')"
    by blast
  from budget_step.check [OF _ this] show ?thesis
    by (auto simp: first_check_def runs_once_def net_ok_def)
qed

lemma first_check_fixed: "fixed_budget (Key ''t'' [] [] ScopeTenant) 1000 first_check" "mentions (Key ''t'' [] [] ScopeTenant) [tenant_ref ''t'' 1000]"
  by (simp_all add: first_check_def uses_bucket_def mentions_def closed_refs)

lemma admission_within_budget_witness:
  "\<exists>st'. run (budget_step mem_redis) mem_empty ([] @ [first_check]) st' \<and> (0::int) + 300 \<le> 1000"
proof -
  obtain st' where "budget_step mem_redis mem_empty first_check st'" using first_check_step by blast
  then have r: "run (budget_step mem_redis) mem_empty ([] @ [first_check]) st'" by (simp add: run_one)
  with admission_within_budget [of mem_redis 1000 mem_empty "Key ''t'' [] [] ScopeTenant" "[]" "[tenant_ref ''t'' 1000]" 300
      "\<lparr>Allowed = True, Reason = ReasonNone, FailedScope = NoScope, RemainingTokens = 700, RemainingUSD = 0\<rparr>" st'] first_check_fixed
  show ?thesis by (auto simp: first_check_def mem_redis_def mem_empty_def)
qed

text \<open>The total charge is bounded at every moment of such a run, not only at admissions: it
  exceeds the limit by at most what the calls themselves used beyond their own reservations.\<close>

theorem total_charge_bounded:
  assumes "redis_laws rd" "0 < L" "L \<le> 10 ^ 14" "hget rd st k ''tokens_remaining'' = None"
    and "run (budget_step rd) st evs st'" "\<forall>ev\<in>set evs. fixed_budget k L ev"
    and "L + (\<Sum>ev\<leftarrow>evs. token_volume k ev) \<le> 2 ^ 62"
  shows "(\<Sum>ev\<leftarrow>evs. token_charge k ev) \<le> L + (\<Sum>ev\<leftarrow>evs. if admission k ev then 0 else max 0 (token_charge k ev))"
  using tokens.total_within [OF fixed_run [OF assms(5,6)] fresh_funds [OF assms(1-4)] assms(7)] assms(2)
  by simp

lemma total_charge_bounded_witness:
  "\<exists>st'. run (budget_step mem_redis) mem_empty [first_check] st' \<and>
     token_charge (Key ''t'' [] [] ScopeTenant) first_check \<le> 1000"
proof -
  obtain st' where "budget_step mem_redis mem_empty first_check st'" using first_check_step by blast
  then have r: "run (budget_step mem_redis) mem_empty [first_check] st'" by (simp add: run_one)
  with total_charge_bounded [of mem_redis 1000 mem_empty "Key ''t'' [] [] ScopeTenant" "[first_check]" st'] first_check_fixed
  show ?thesis by (auto simp: first_check_def mem_redis_def mem_empty_def)
qed

text \<open>An expired key is a full bucket. Redis removes the hash of a bucket some time after the
  last check that was allowed on it (\<open>EXPIRE\<close> is part of the commit only, a rejected check does
  not renew it); from then on the bucket has its whole limit again, refill rate or not.\<close>

theorem expiry_refills:
  assumes "redis_laws rd" "0 < TokenLimit (Limits r)" "TokenLimit (Limits r) \<le> 2 ^ 53"
    and "budget_step rd st (Expired (RefKey r)) st'"
  shows "computed_tokens (view rd now st' r) = of_int (TokenLimit (Limits r))"
proof -
  have "st' = drop_key rd st (RefKey r)" using assms(4) by (simp add: budget_expired_iff)
  then have "\<And>f. hget rd st' (RefKey r) f = None" by (simp add: hget_drop_key [OF assms(1)])
  moreover have "f64_of_int (TokenLimit (Limits r)) = of_int (TokenLimit (Limits r))"
    "f64 (of_int (TokenLimit (Limits r))) = of_int (TokenLimit (Limits r))"
    using assms(2,3) by (intro f64_of_int_exact f64_short_int; simp)+
  ultimately show ?thesis
    using assms(2)
    by (simp add: view_def phase1_key_def ref_args_def Let_def lua_refill_def f64_sub_def f64_mul_def f64_add_def)
qed

lemma expiry_refills_witness:
  "computed_tokens (view mem_redis 7
     (drop_key mem_redis (hset mem_redis mem_empty ''budget:t:-:-'' [(''tokens_remaining'', 0)]) ''budget:t:-:-'')
     (tenant_ref ''t'' 1000)) = 1000"
  using expiry_refills [OF redis_laws_mem, of "tenant_ref ''t'' 1000",
      OF _ _ budget_step.expired [of mem_redis "hset mem_redis mem_empty ''budget:t:-:-'' [(''tokens_remaining'', 0)]"]]
  by (simp add: closed_refs)

section \<open>A refund to a key that is gone\<close>

text \<open>A bucket with a balance and no time of a refill shows just that balance, at any time and any rate.\<close>

lemma untimed_view:
  assumes "hget rd st (RefKey r) ''tokens_remaining'' = Some v" "hget rd st (RefKey r) ''last_refill_ts'' = None"
  shows "computed_tokens (view rd now st r) \<le> f64 v"
  using assms
  by (simp add: view_def phase1_key_def ref_args_def Let_def lua_refill_def f64_sub_def f64_mul_def f64_add_def f64.r_idem)

lemma starved_check:
  assumes "hget rd st (RefKey r) ''tokens_remaining'' = Some (of_int n)" "hget rd st (RefKey r) ''last_refill_ts'' = None"
    and "r \<in> set refs" "0 < TokenLimit (Limits r)" "n < t" "\<bar>n\<bar> < 2 ^ 52"
    and "runs_once net" "CheckAndDecrement rd net tm e refs t u st = (res, e', st')"
  shows "st' = st" and "res = Inr d \<Longrightarrow> \<not> Allowed d"
proof -
  have "f64_of_int (n + 1) = of_int (n + 1)" "f64 (of_int n) = of_int n"
    using assms(6) by (intro f64_of_int_exact f64_short_int; simp)+
  moreover have "f64_of_int (n + 1) \<le> f64_of_int t" using assms(5) by (intro f64_of_int_mono) simp
  moreover have "computed_tokens (view rd (lua_now tm) st r) \<le> f64 (of_int n)" by (rule untimed_view [OF assms(1,2)])
  ultimately have "computed_tokens (view rd (lua_now tm) st r) < f64_of_int t" by simp
  then have "\<not> enough rd (lua_now tm) st refs (f64_of_int t) u" using assms(3,4) by (auto simp: enough_iff not_le)
  with check_effect [OF assms(7,8)] show "st' = st" and "res = Inr d \<Longrightarrow> \<not> Allowed d" by blast+
qed



end
