(* ===== verification/Timed.thy ===== *)
theory Timed
  imports Ledger
begin

text \<open>
  The budget store command by command and second by second. \<open>Ledger\<close> takes a reconciliation as one
  step and buckets without a refill; here every increment of a reconciliation is a step of its own,
  time passes between the steps, and a bucket refills at its rate, in both dimensions. The contract
  \<open>ledger\<close> of a metered account is interpreted a second time, on the balance of a bucket as the
  script and the increments move it, with the clock as part of the state and the refill as a
  charge that is negative.
\<close>

section \<open>The two dimensions of a bucket\<close>

datatype dimension = TokenDim | DollarDim

fun dim_field :: "dimension \<Rightarrow> field" where
  "dim_field TokenDim = ''tokens_remaining''"
| "dim_field DollarDim = ''usd_remaining''"

fun dim_limit :: "dimension \<Rightarrow> limits \<Rightarrow> rat" where
  "dim_limit TokenDim l = f64_of_int (TokenLimit l)"
| "dim_limit DollarDim l = DollarLimit l"

fun dim_rate :: "dimension \<Rightarrow> limits \<Rightarrow> rat" where
  "dim_rate TokenDim l = RefillTokensPerSec l"
| "dim_rate DollarDim l = RefillUSDPerSec l"

fun dim_balance :: "dimension \<Rightarrow> computed \<Rightarrow> rat" where
  "dim_balance TokenDim c = computed_tokens c"
| "dim_balance DollarDim c = computed_usd c"

text \<open>What a request asks for, and the double the script receives for it.\<close>

fun dim_amount :: "dimension \<Rightarrow> int \<Rightarrow> rat \<Rightarrow> rat" where
  "dim_amount TokenDim t u = of_int t"
| "dim_amount DollarDim t u = u"

fun dim_sent :: "dimension \<Rightarrow> int \<Rightarrow> rat \<Rightarrow> rat" where
  "dim_sent TokenDim t u = f64_of_int t"
| "dim_sent DollarDim t u = u"

definition elapsed_at :: "'s redis \<Rightarrow> rat \<Rightarrow> 's \<Rightarrow> string \<Rightarrow> rat" where
  "elapsed_at rd now st k =
     max 0 (f64 (now - (case hget rd st k ''last_refill_ts'' of None \<Rightarrow> now | Some c \<Rightarrow> f64 c)))"

lemma dim_view:
  "dim_balance d (view rd now st r) =
     lua_refill (dim_limit d (Limits r)) (dim_rate d (Limits r)) (elapsed_at rd now st (RefKey r))
       (case hget rd st (RefKey r) (dim_field d) of None \<Rightarrow> dim_limit d (Limits r) | Some v \<Rightarrow> f64 v)"
  by (cases d)
    (auto simp: view_def phase1_key_def ref_args_def Let_def elapsed_at_def f64_sub_def max_def not_le
      option.case_eq_if option.map_sel)

lemma dim_view_le: "0 < dim_limit d (Limits r) \<Longrightarrow> dim_balance d (view rd now st r) \<le> dim_limit d (Limits r)"
  by (simp add: dim_view lua_refill_le_limit)

lemma dim_enough:
  assumes "enough rd now st refs (f64_of_int t) u" "r \<in> set refs" "0 < dim_limit d (Limits r)"
  shows "dim_sent d t u \<le> dim_balance d (view rd now st r)"
  using assms by (cases d) (auto simp: enough_iff)

lemma dim_committed:
  assumes "redis_laws rd" "distinct (map RefKey refs)" "r \<in> set refs"
  shows "hget rd (committed rd now e refs (f64_of_int t) u st) (RefKey r) (dim_field d) =
    Some (dec14 (f64_sub (dim_balance d (view rd now st r)) (dim_sent d t u)))"
  by (cases d) (simp_all add: committed_bucket [OF assms])

section \<open>How far one refill can be off\<close>

lemma f64_near: "\<bar>x\<bar> \<le> m \<Longrightarrow> \<bar>f64 x - x\<bar> \<le> m / 2 ^ 53"
  using f64.r_err [of x] by (simp add: field_simps)

lemma dec14_near: "\<bar>x\<bar> \<le> m \<Longrightarrow> \<bar>dec14 x - x\<bar> \<le> 5 * m / 10 ^ 14"
  using dec14.r_err [of x] by (simp add: field_simps)

text \<open>The stored time has 14 digits: until the year 2096 it is right to 0.3 ms.\<close>

lemma stored_time:
  assumes "0 \<le> c" "c \<le> 4 * 10 ^ 9"
  shows "\<bar>f64 (dec14 c) - c\<bar> \<le> 3 / 10 ^ 4"
proof -
  have 1: "\<bar>dec14 c - c\<bar> \<le> 5 * (4 * 10 ^ 9) / 10 ^ 14" by (rule dec14_near) (use assms in simp)
  then have "\<bar>dec14 c\<bar> \<le> 5 * 10 ^ 9" using assms by (simp add: abs_le_iff abs_if split: if_splits) 
  then have "\<bar>f64 (dec14 c) - dec14 c\<bar> \<le> 5 * 10 ^ 9 / 2 ^ 53" by (rule f64_near)
  with 1 show ?thesis by (simp add: abs_if split: if_splits)
qed

lemma elapsed_le:
  assumes "0 \<le> c" "c \<le> now" "now \<le> 4 * 10 ^ 9"
    and "hget rd st k ''last_refill_ts'' \<in> {None, Some (dec14 c)}"
  shows "0 \<le> elapsed_at rd now st k" and "elapsed_at rd now st k \<le> (1 + 1 / 2 ^ 53) * (now - c + 3 / 10 ^ 4)"
proof -
  define x where "x = now - (case hget rd st k ''last_refill_ts'' of None \<Rightarrow> now | Some c \<Rightarrow> f64 c)"
  have x: "x \<le> now - c + 3 / 10 ^ 4"
  proof (cases "hget rd st k ''last_refill_ts''")
    case None
    then show ?thesis using assms(2) by (simp add: x_def)
  next
    case (Some c')
    then have "x = now - f64 (dec14 c)" using assms(4) by (simp add: x_def)
    moreover have "\<bar>f64 (dec14 c) - c\<bar> \<le> 3 / 10 ^ 4" using assms by (intro stored_time) simp_all
    ultimately show ?thesis by linarith
  qed
  have pos: "0 \<le> now - c + 3 / 10 ^ 4" using assms(2) by simp
  have "f64 x \<le> (1 + 1 / 2 ^ 53) * (now - c + 3 / 10 ^ 4)"
    using f64.r_mono [OF x] f64.r_le_err [OF pos] by linarith
  then show "elapsed_at rd now st k \<le> (1 + 1 / 2 ^ 53) * (now - c + 3 / 10 ^ 4)"
    using pos by (simp add: elapsed_at_def x_def)
qed (simp add: elapsed_at_def)

lemma refill_le:
  assumes "0 < lm" "0 \<le> rate" "0 \<le> e" "e \<le> (1 + 1 / 2 ^ 53) * x" "\<bar>w - v\<bar> \<le> m / 2 ^ 53" "\<bar>v\<bar> \<le> m" "lm \<le> m"
  shows "lua_refill lm rate e w \<le> v + (1 + 1 / 2 ^ 51) * rate * x + 4 * m / 2 ^ 53"
proof -
  define g where "g = f64 (e * rate)"
  have x: "0 \<le> x" using assms(3,4) by (simp add: zero_le_mult_iff)
  have er: "0 \<le> e * rate" using assms(2,3) by simp
  have g0: "0 \<le> g" unfolding g_def by (rule f64.r_nonneg [OF er])
  have "g \<le> (1 + 1 / 2 ^ 53) * (e * rate)" unfolding g_def by (rule f64.r_le_err [OF er])
  also have "\<dots> \<le> (1 + 1 / 2 ^ 53) * ((1 + 1 / 2 ^ 53) * x * rate)"
    using assms(2,4) by (intro mult_left_mono mult_right_mono) simp_all
  also have "\<dots> = ((1 + 1 / 2 ^ 53) * (1 + 1 / 2 ^ 53)) * (rate * x)" by simp
  also have "\<dots> \<le> (1 + 1 / 2 ^ 51) * (rate * x)"
    using assms(2) x by (intro mult_right_mono) simp_all
  finally have g: "g \<le> (1 + 1 / 2 ^ 51) * rate * x" by simp
  have m: "0 < m" using assms(1,7) by simp
  have "lua_refill lm rate e w \<le> w + g + 3 * m / 2 ^ 53"
  proof (cases "lm \<le> w + g")
    case True
    then show ?thesis using lua_refill_le_limit [OF assms(1), of rate e w] m by simp
  next
    case False
    have "\<bar>w\<bar> \<le> 2 * m" using assms(5,6) m by (simp add: abs_if split: if_splits)
    with False g0 assms(7) have "\<bar>w + g\<bar> \<le> 3 * m" by simp
    from f64_near [OF this] have "f64 (w + g) \<le> w + g + 3 * m / 2 ^ 53" by linarith
    moreover have "lua_refill lm rate e w \<le> f64 (w + g)"
      using assms(1) by (simp add: lua_refill_def Let_def f64_add_def f64_mul_def flip: g_def)
    ultimately show ?thesis by simp
  qed
  moreover have "w \<le> v + m / 2 ^ 53" using assms(5) by linarith
  ultimately show ?thesis using g by linarith
qed


section \<open>The commands and the clock\<close>

text \<open>
  A check is one command, the script, and carries the decision that reached its caller; a
  reconciliation is a list of increments. Every command comes with the time that has passed since
  the one before. A key that expires takes with it what it held.
\<close>

datatype command =
  Asked "bucket_ref list" int rat "decision option"
| Added string field rat
| Gone string "field \<Rightarrow> rat option"

definition reported :: "budget_error + decision \<Rightarrow> decision option" where
  "reported res = (case res of Inl _ \<Rightarrow> None | Inr d \<Rightarrow> Some d)"

text \<open>
  Only a commit gives a key a lifetime, in the script that writes the time of the refill, and only if
  the lifetime is positive; so the server removes a key no earlier than that long after the time it
  holds, to a millisecond, and never one without it.
\<close>

definition lapsed :: "int \<Rightarrow> rat \<Rightarrow> (field \<Rightarrow> rat option) \<Rightarrow> bool" where
  "lapsed life now h \<longleftrightarrow> 0 < life \<and>
     (case h ''last_refill_ts'' of None \<Rightarrow> False | Some ts \<Rightarrow> ts + of_int life \<le> now + 1 / 10 ^ 3)"

inductive timed_step :: "'s redis \<Rightarrow> int \<Rightarrow> 's \<times> rat \<Rightarrow> rat \<times> command \<Rightarrow> 's \<times> rat \<Rightarrow> bool" for rd life where
  asked: "0 \<le> dt \<Longrightarrow> runs_once net \<Longrightarrow> stateTTL e = life \<Longrightarrow> lua_now tm = T + dt \<Longrightarrow>
     CheckAndDecrement rd net tm e refs t u st = (res, e', st') \<Longrightarrow>
     timed_step rd life (st, T) (dt, Asked refs t u (reported res)) (st', T + dt)"
| added: "0 \<le> dt \<Longrightarrow> timed_step rd life (st, T) (dt, Added k f x) (run_incr rd (k, f, x) st, T + dt)"
| gone: "0 \<le> dt \<Longrightarrow> lapsed life (T + dt) (hget rd st k) \<Longrightarrow>
     timed_step rd life (st, T) (dt, Gone k (hget rd st k)) (drop_key rd st k, T + dt)"

inductive_cases timed_stepE: "timed_step rd life w l w'"

text \<open>What a command takes from the bucket \<open>k\<close>: a reservation that was granted, or an increment.\<close>

fun cost :: "string \<Rightarrow> dimension \<Rightarrow> command \<Rightarrow> rat" where
  "cost k d (Asked refs t u (Some dec)) = (if Allowed dec \<and> mentions k refs then dim_amount d t u else 0)"
| "cost k d (Asked refs t u None) = 0"
| "cost k d (Added k' f x) = (if k' = k \<and> f = dim_field d then - x else 0)"
| "cost k d (Gone k' h) = 0"

fun moved :: "string \<Rightarrow> dimension \<Rightarrow> command \<Rightarrow> rat" where
  "moved k d (Added k' f x) = (if k' = k \<and> f = dim_field d then \<bar>x\<bar> else 0)"
| "moved k d c = 0"

fun granted :: "string \<Rightarrow> command \<Rightarrow> bool" where
  "granted k (Asked refs t u (Some dec)) \<longleftrightarrow> Allowed dec \<and> mentions k refs"
| "granted k c \<longleftrightarrow> False"

text \<open>What an increment takes beyond a reservation.\<close>

fun overdraft :: "string \<Rightarrow> dimension \<Rightarrow> command \<Rightarrow> rat" where
  "overdraft k d (Added k' f x) = (if k' = k \<and> f = dim_field d then max 0 (- x) else 0)"
| "overdraft k d c = 0"

lemma overdraft_alt: "(if granted k c then 0 else max 0 (cost k d c)) = overdraft k d c"
  by (cases "(k, d, c)" rule: cost.cases) auto

text \<open>
  What the bucket \<open>k\<close> gains when it expires: it is full again. A debt is forgiven, and where the refill
  would not have filled the bucket in its lifetime, the difference is a present.
\<close>

fun forgiven :: "string \<Rightarrow> dimension \<Rightarrow> command \<Rightarrow> rat" where
  "forgiven k d (Gone k' h) = (if k' = k then (case h (dim_field d) of None \<Rightarrow> 0 | Some v \<Rightarrow> max 0 (- v)) else 0)"
| "forgiven k d c = 0"

fun expiry_of :: "string \<Rightarrow> command \<Rightarrow> bool" where
  "expiry_of k (Gone k' h) \<longleftrightarrow> k' = k"
| "expiry_of k c \<longleftrightarrow> False"

definition lifetime :: "int \<Rightarrow> rat" where
  "lifetime life = of_int life - 2 / 10 ^ 3"

definition windfall :: "string \<Rightarrow> dimension \<Rightarrow> rat \<Rightarrow> rat \<Rightarrow> int \<Rightarrow> command \<Rightarrow> rat" where
  "windfall k d lm rate life c = forgiven k d c + (if expiry_of k c then max 0 (lm - rate * lifetime life) else 0)"

lemma forgiven_nonneg [simp]: "0 \<le> forgiven k d c"
  by (cases "(k, d, c)" rule: forgiven.cases) (simp_all split: option.split)

lemma windfall_nonneg [simp]: "0 \<le> windfall k d lm rate life c"
  by (simp add: windfall_def)

lemma windfall_other [simp]:
  "windfall k d lm rate life (Asked refs t u dec) = 0" "windfall k d lm rate life (Added k' f x) = 0"
  "k' \<noteq> k \<Longrightarrow> windfall k d lm rate life (Gone k' h) = 0"
  by (simp_all add: windfall_def)

text \<open>The configuration may change during a run, within a limit and a rate.\<close>

definition capped_bucket :: "string \<Rightarrow> dimension \<Rightarrow> rat \<Rightarrow> rat \<Rightarrow> bucket_ref list \<Rightarrow> bool" where
  "capped_bucket k d lm rate refs \<longleftrightarrow> distinct (map RefKey refs) \<and>
     (\<forall>r\<in>set refs. RefKey r = k \<longrightarrow>
        0 < dim_limit d (Limits r) \<and> dim_limit d (Limits r) \<le> lm \<and> f64 (dim_limit d (Limits r)) = dim_limit d (Limits r) \<and>
        0 \<le> dim_rate d (Limits r) \<and> dim_rate d (Limits r) \<le> rate)"

fun steady :: "string \<Rightarrow> dimension \<Rightarrow> rat \<Rightarrow> rat \<Rightarrow> command \<Rightarrow> bool" where
  "steady k d lm rate (Asked refs t u dec) \<longleftrightarrow> capped_bucket k d lm rate refs"
| "steady k d lm rate (Added k' f x) \<longleftrightarrow> (k' = k \<longrightarrow> f \<noteq> ''last_refill_ts'')"
| "steady k d lm rate (Gone k' h) \<longleftrightarrow> True"

section \<open>The balance of a bucket is an account\<close>

text \<open>
  \<open>m\<close> bounds the balance; \<open>c\<close> is the time of the last commit. What the clock has added since then is
  not in the stored balance yet, so it is kept apart from the funds \<open>b\<close>.
\<close>

definition drift :: rat where
  "drift = 1 + 1 / 2 ^ 51"

definition slack :: "rat \<Rightarrow> rat \<Rightarrow> rat" where
  "slack rate M = rate * 4 / 10 ^ 4 + M / 10 ^ 13"

definition dim_funds :: "'s redis \<Rightarrow> string \<Rightarrow> dimension \<Rightarrow> rat \<Rightarrow> rat \<Rightarrow> rat \<Rightarrow> 's \<times> rat \<Rightarrow> rat \<Rightarrow> rat \<Rightarrow> bool" where
  "dim_funds rd k d lm rate M w b m \<longleftrightarrow> m \<le> M \<and> 2 * lm \<le> m \<and>
     (\<exists>c. 0 \<le> c \<and> c \<le> snd w \<and> hget rd (fst w) k ''last_refill_ts'' \<in> {None, Some (dec14 c)} \<and>
        (case hget rd (fst w) k (dim_field d) of
           None \<Rightarrow> lm \<le> b - drift * rate * (snd w - c)
         | Some v \<Rightarrow> v \<le> b - drift * rate * (snd w - c) \<and> \<bar>v\<bar> \<le> m))"

definition dim_charge :: "string \<Rightarrow> dimension \<Rightarrow> rat \<Rightarrow> rat \<Rightarrow> int \<Rightarrow> rat \<Rightarrow> rat \<times> command \<Rightarrow> rat" where
  "dim_charge k d lm rate life M l =
     cost k d (snd l) - drift * rate * fst l - slack rate M - windfall k d lm rate life (snd l)"

definition dim_volume :: "string \<Rightarrow> dimension \<Rightarrow> rat \<Rightarrow> rat \<times> command \<Rightarrow> rat" where
  "dim_volume k d M l = moved k d (snd l) + max 0 M / 10 ^ 13"

definition metered_bucket :: "'s redis \<Rightarrow> dimension \<Rightarrow> rat \<Rightarrow> rat \<Rightarrow> rat \<Rightarrow> bool" where
  "metered_bucket rd d lm rate M \<longleftrightarrow>
     redis_laws rd \<and> 0 < lm \<and> lm \<le> 2 ^ 52 \<and> 0 \<le> rate \<and> 1 \<le> M"

lemma dim_funds_mono:
  "dim_funds rd k d lm rate M w b m \<Longrightarrow> b \<le> b' \<Longrightarrow> m \<le> m' \<Longrightarrow> m' \<le> M \<Longrightarrow> dim_funds rd k d lm rate M w b' m'"
  unfolding dim_funds_def by (fastforce split: option.splits)

lemma dim_fundsE:
  assumes "dim_funds rd k d lm rate M (st, T) b m"
  obtains c where "m \<le> M" "2 * lm \<le> m" "0 \<le> c" "c \<le> T" "hget rd st k ''last_refill_ts'' \<in> {None, Some (dec14 c)}"
    "case hget rd st k (dim_field d) of None \<Rightarrow> lm \<le> b - drift * rate * (T - c)
       | Some v \<Rightarrow> v \<le> b - drift * rate * (T - c) \<and> \<bar>v\<bar> \<le> m"
  using assms unfolding dim_funds_def fst_conv snd_conv by blast

text \<open>A command that leaves the bucket alone: only time passes.\<close>

lemma time_passes:
  assumes "dim_funds rd k d lm rate M (st, T) b m" "0 \<le> dt"
    and same: "\<And>f. f \<in> {dim_field d, ''last_refill_ts''} \<Longrightarrow> hget rd st' k f = hget rd st k f"
  shows "dim_funds rd k d lm rate M (st', T + dt) (b + drift * rate * dt) m"
proof -
  from assms(1) obtain c where m: "m \<le> M" "2 * lm \<le> m"
    and c: "0 \<le> c" "c \<le> T" "hget rd st k ''last_refill_ts'' \<in> {None, Some (dec14 c)}"
    "case hget rd st k (dim_field d) of None \<Rightarrow> lm \<le> b - drift * rate * (T - c)
       | Some v \<Rightarrow> v \<le> b - drift * rate * (T - c) \<and> \<bar>v\<bar> \<le> m" by (rule dim_fundsE)
  have eq: "b + drift * rate * dt - drift * rate * (T + dt - c) = b - drift * rate * (T - c)"
    by (simp add: algebra_simps)
  have "c \<le> T + dt" using c(2) assms(2) by simp
  with c m show ?thesis 
    unfolding dim_funds_def fst_conv snd_conv
    by (intro conjI exI [of _ c]) (simp_all only: eq same [of "dim_field d"] same [of "''last_refill_ts''"] insertI1 insertI2)
qed

lemma view_funds:
  assumes "metered_bucket rd d lm rate M" "dim_funds rd k d lm rate M (st, T) b m"
    and lim: "0 < dim_limit d (Limits r)" "dim_limit d (Limits r) \<le> lm"
    and rate: "0 \<le> dim_rate d (Limits r)" "dim_rate d (Limits r) \<le> rate" and k: "RefKey r = k"
    and dt: "0 \<le> dt" "T + dt \<le> 4 * 10 ^ 9"
  shows "dim_balance d (view rd (T + dt) st r) \<le>
    b + drift * rate * dt + drift * rate * 3 / 10 ^ 4 + 4 * M / 2 ^ 53"
proof -
  have b: "0 < lm" "0 \<le> rate" using assms(1) by (simp_all add: metered_bucket_def)
  from assms(2) obtain c where m: "m \<le> M" "2 * lm \<le> m"
    and c: "0 \<le> c" "c \<le> T" "hget rd st k ''last_refill_ts'' \<in> {None, Some (dec14 c)}"
    and bal: "case hget rd st k (dim_field d) of None \<Rightarrow> lm \<le> b - drift * rate * (T - c)
       | Some v \<Rightarrow> v \<le> b - drift * rate * (T - c) \<and> \<bar>v\<bar> \<le> m" by (rule dim_fundsE)
  have ct: "c \<le> T + dt" using c(2) dt(1) by simp
  define w where "w = (case hget rd st k (dim_field d) of None \<Rightarrow> dim_limit d (Limits r) | Some v \<Rightarrow> f64 v)"
  define v where "v = (case hget rd st k (dim_field d) of None \<Rightarrow> dim_limit d (Limits r) | Some v \<Rightarrow> v)"
  have v: "v \<le> b - drift * rate * (T - c)" "\<bar>v\<bar> \<le> m" "\<bar>w - v\<bar> \<le> m / 2 ^ 53"
    using bal b m lim f64_near by (auto simp: v_def w_def split: option.splits)
  have "dim_balance d (view rd (T + dt) st r) =
      lua_refill (dim_limit d (Limits r)) (dim_rate d (Limits r)) (elapsed_at rd (T + dt) st k) w"
    by (simp add: dim_view k w_def cong: option.case_cong)
  also have "\<dots> \<le> v + drift * dim_rate d (Limits r) * (T + dt - c + 3 / 10 ^ 4) + 4 * m / 2 ^ 53"
    unfolding drift_def
    using elapsed_le [OF c(1) ct dt(2) c(3)] m b lim rate by (intro refill_le v) simp_all
  also have "\<dots> \<le> v + drift * rate * (T + dt - c + 3 / 10 ^ 4) + 4 * m / 2 ^ 53"
    using rate ct by (intro add_mono order_refl mult_right_mono) (simp_all add: drift_def)
  also have "\<dots> \<le> b + drift * rate * dt + drift * rate * 3 / 10 ^ 4 + 4 * M / 2 ^ 53"
  proof -
    have "drift * rate * (T + dt - c + 3 / 10 ^ 4) =
        drift * rate * (T - c) + drift * rate * dt + drift * rate * 3 / 10 ^ 4" by (simp add: distrib_left right_diff_distrib)
    moreover have "v + e + 4 * m / 2 ^ 53 \<le> b + q + s + 4 * M / 2 ^ 53" if "e = p + q + s" "v \<le> b - p" for e p q s
      using that m(1) by simp
    ultimately show ?thesis using v(1) by blast
  qed
  finally show ?thesis .
qed

text \<open>A commit rounds the balance twice, to 53 bits and to 14 digits.\<close>

lemma stored_balance:
  assumes "0 \<le> x" "x \<le> bal" "bal \<le> lm" "f64 lm = lm" "2 * lm \<le> m"
  shows "dec14 (f64_sub bal x) \<le> bal - x + 3 * m / 10 ^ 14" and "\<bar>dec14 (f64_sub bal x)\<bar> \<le> m"
proof -
  have d: "0 \<le> bal - x" "bal - x \<le> lm" using assms(1-3) by simp_all
  have f: "0 \<le> f64_sub bal x" "f64_sub bal x \<le> lm"
    using d assms(4) by (auto simp: f64_sub_def intro: f64.r_nonneg f64.r_le_fixed)
  have "\<bar>bal - x\<bar> \<le> lm" using d by simp
  from f64_near [OF this] have 1: "f64_sub bal x \<le> bal - x + lm / 2 ^ 53" unfolding f64_sub_def by linarith
  have "\<bar>f64_sub bal x\<bar> \<le> lm" using f by simp
  from dec14_near [OF this] have 2: "\<bar>dec14 (f64_sub bal x) - f64_sub bal x\<bar> \<le> 5 * lm / 10 ^ 14" .
  then show "dec14 (f64_sub bal x) \<le> bal - x + 3 * m / 10 ^ 14"
    using 1 d assms(5) by (simp add: abs_if split: if_splits)
  show "\<bar>dec14 (f64_sub bal x)\<bar> \<le> m"
    using 2 f d assms(5) by (simp add: abs_if split: if_splits)
qed

lemma slack_covers:
  assumes "0 \<le> rate" "1 \<le> M" "m \<le> M"
  shows "drift * rate * 3 / 10 ^ 4 + 4 * M / 2 ^ 53 + 3 * m / 10 ^ 14 \<le> slack rate M"
proof -
  have "drift * rate * 3 / 10 ^ 4 \<le> rate * 4 / 10 ^ 4"
    using assms(1) by (simp add: drift_def)
  moreover have "4 * M / 2 ^ 53 + 3 * m / 10 ^ 14 \<le> M / 10 ^ 13" using assms by simp
  ultimately show ?thesis unfolding slack_def by linarith
qed

text \<open>The double a request is sent as is its amount, as soon as a bucket has enough for it.\<close>

lemma sent_amount:
  assumes "0 \<le> t" "dim_sent d t u \<le> lm" "lm \<le> 2 ^ 52"
  shows "dim_sent d t u = dim_amount d t u"
proof (cases d)
  case TokenDim
  then have "f64_of_int t \<le> of_int (2 ^ 52)" using assms(2,3) by simp
  then have "t \<le> 2 ^ 52" by (rule f64_of_int_le_imp) simp
  with TokenDim assms(1) show ?thesis by simp
qed simp

lemma check_timed:
  assumes "metered_bucket rd d lm rate M" "dim_funds rd k d lm rate M (st, T) b m" "capped_bucket k d lm rate refs"
    and "runs_once net" "lua_now tm = T + dt" "0 \<le> dt" "T + dt \<le> 4 * 10 ^ 9"
    and "CheckAndDecrement rd net tm e refs t u st = (res, e', st')"
  defines "l \<equiv> (dt, Asked refs t u (reported res))"
  shows "dim_funds rd k d lm rate M (st', T + dt) (b - dim_charge k d lm rate life M l) m"
    and "granted k (snd l) \<Longrightarrow> dim_charge k d lm rate life M l \<le> b"
proof -
  have laws: "redis_laws rd" and dist: "distinct (map RefKey refs)"
    and pos: "0 < lm" "lm \<le> 2 ^ 52" "0 \<le> rate" "1 \<le> M"
    using assms(1,3) by (simp_all add: metered_bucket_def capped_bucket_def)
  have m: "m \<le> M" "2 * lm \<le> m" using assms(2) by (simp_all add: dim_funds_def)
  have slack: "0 \<le> slack rate M" using pos by (simp add: slack_def)
  have charge: "dim_charge k d lm rate life M l = cost k d (snd l) - drift * rate * dt - slack rate M"
    by (simp add: dim_charge_def l_def)
  note idle = time_passes [OF assms(2,6), of st']
  have quiet: "dim_funds rd k d lm rate M (st', T + dt) (b - dim_charge k d lm rate life M l) m \<and>
      (granted k (snd l) \<longrightarrow> dim_charge k d lm rate life M l \<le> b)"
    if "cost k d (snd l) = 0" "\<not> granted k (snd l)" "\<And>f. hget rd st' k f = hget rd st k f"
    using dim_funds_mono [OF idle [OF that(3)], of "b - dim_charge k d lm rate life M l" m] that(1,2) slack m by (simp add: charge)
  show "dim_funds rd k d lm rate M (st', T + dt) (b - dim_charge k d lm rate life M l) m"
    and "granted k (snd l) \<Longrightarrow> dim_charge k d lm rate life M l \<le> b"
  proof (atomize (full), cases "st' = st \<and> (\<forall>d. res = Inr d \<longrightarrow> \<not> Allowed d) \<or> \<not> mentions k refs", goal_cases)
    case 1
    then have "\<not> granted k (snd l)" "cost k d (snd l) = 0" by (cases res; auto simp: l_def reported_def)+
    moreover have "hget rd st' k f = hget rd st k f" for f
      using 1 check_effect [OF assms(4,8)] committed_other [OF laws dist] by (auto simp: mentions_def)
    ultimately show ?case by (simp add: quiet)
  next
    case 2
    with check_effect [OF assms(4,8)] have st': "0 \<le> t" "0 \<le> u"
      "enough rd (T + dt) st refs (f64_of_int t) u" "st' = committed rd (T + dt) e refs (f64_of_int t) u st"
      unfolding assms(5) by blast+
    from 2 obtain r where r: "r \<in> set refs" "RefKey r = k" by (auto simp: mentions_def)
    then have cfg: "0 < dim_limit d (Limits r)" "dim_limit d (Limits r) \<le> lm" "0 \<le> dim_rate d (Limits r)"
      "dim_rate d (Limits r) \<le> rate" and fixed: "f64 (dim_limit d (Limits r)) = dim_limit d (Limits r)"
      using assms(3) by (auto simp: capped_bucket_def)
    define bal x where "bal = dim_balance d (view rd (T + dt) st r)" and "x = dim_sent d t u"
    have x: "0 \<le> x" "x \<le> bal" "bal \<le> dim_limit d (Limits r)"
      using dim_enough [OF st'(3) r(1) cfg(1)] dim_view_le [OF cfg(1), of rd "T + dt" st] st'(1,2)
      by (cases d; simp add: x_def bal_def f64_of_int_nonneg)+
    then have amount: "dim_amount d t u = x"
      using sent_amount [OF st'(1), of d u lm] pos(2) cfg(2) unfolding x_def by simp
    have "2 * dim_limit d (Limits r) \<le> m" using m(2) cfg(2) by simp
    note stored = stored_balance [OF x fixed this]
    have bal: "bal \<le> b + drift * rate * dt + drift * rate * 3 / 10 ^ 4 + 4 * M / 2 ^ 53"
      unfolding bal_def by (rule view_funds [OF assms(1,2) cfg r(2) assms(6,7)])
    note covers = slack_covers [OF pos(3,4) m(1)]
    have cost: "0 \<le> cost k d (snd l)" "cost k d (snd l) \<le> x"
      using amount x(1) by (cases res; simp add: l_def reported_def)+
    have "hget rd st' k (dim_field d) = Some (dec14 (f64_sub bal x))"
      using dim_committed [OF laws dist r(1), of "T + dt" e t u st d] by (simp add: st'(4) r(2) bal_def x_def)
    moreover have "hget rd st' k ''last_refill_ts'' = Some (dec14 (T + dt))"
      using committed_bucket(3) [OF laws dist r(1)] by (simp add: st'(4) r(2))
    moreover have "0 \<le> T + dt" using assms(2,6) by (auto simp: dim_funds_def)
    moreover have "dec14 (f64_sub bal x) \<le> b - dim_charge k d lm rate life M l"
      using stored(1) bal covers cost(2) unfolding charge by linarith
    moreover have "dim_charge k d lm rate life M l \<le> b"
    proof -
      have "0 \<le> 3 * m / 10 ^ 14" using m pos by simp
      then show ?thesis using bal x(2) covers cost(2) unfolding charge by linarith
    qed
    ultimately show ?case
      using m stored(2) unfolding dim_funds_def fst_conv snd_conv by (intro conjI exI [of _ "T + dt"]) simp_all
  qed
qed

lemma incr_timed:
  assumes "metered_bucket rd d lm rate M" "dim_funds rd k d lm rate M (st, T) b m" "k' = k \<Longrightarrow> f \<noteq> ''last_refill_ts''"
    and "0 \<le> dt" "m + dim_volume k d M (dt, Added k' f x) \<le> M"
  defines "l \<equiv> (dt, Added k' f x)"
  shows "dim_funds rd k d lm rate M (run_incr rd (k', f, x) st, T + dt) (b - dim_charge k d lm rate life M l) (m + dim_volume k d M l)"
proof -
  have laws: "redis_laws rd" and pos: "0 < lm" "0 \<le> rate" "1 \<le> M" using assms(1) by (simp_all add: metered_bucket_def)
  have slack: "M / 10 ^ 13 \<le> slack rate M" using pos by (simp add: slack_def)
  have vol: "0 \<le> dim_volume k d M l" using pos by (simp add: dim_volume_def l_def)
  have cap: "m + dim_volume k d M l \<le> M" using assms(5) by (simp add: l_def)
  let ?st' = "run_incr rd (k', f, x) st"
  show ?thesis
  proof (cases "k' = k \<and> f = dim_field d")
    case False
    have "dim_funds rd k d lm rate M (?st', T + dt) (b + drift * rate * dt) m"
    proof (rule time_passes [OF assms(2,4)])
      fix g assume "g \<in> {dim_field d, ''last_refill_ts''}"
      then have "\<not> (k = k' \<and> g = f)" using False assms(3) by blast
      then show "hget rd ?st' k g = hget rd st k g" unfolding hget_run_incr [OF laws] fst_conv snd_conv by (rule if_not_P)
    qed
    moreover have "dim_charge k d lm rate life M l \<le> - (drift * rate * dt)"
    proof -
      have "cost k d (snd l) = 0" unfolding l_def snd_conv cost.simps by (rule if_not_P [OF False])
      moreover have "0 \<le> slack rate M" using pos by (simp add: slack_def)
      ultimately show ?thesis by (simp add: dim_charge_def l_def)
    qed
    ultimately show ?thesis using vol cap by (elim dim_funds_mono) simp_all
  next
    case True
    obtain c where m: "m \<le> M" "2 * lm \<le> m"
      and c: "0 \<le> c" "c \<le> T" "hget rd st k ''last_refill_ts'' \<in> {None, Some (dec14 c)}"
      and bal: "case hget rd st k (dim_field d) of None \<Rightarrow> lm \<le> b - drift * rate * (T - c)
       | Some v \<Rightarrow> v \<le> b - drift * rate * (T - c) \<and> \<bar>v\<bar> \<le> m"
      using assms(2) by (rule dim_fundsE)
    define v where "v = (case hget rd st k (dim_field d) of None \<Rightarrow> 0 | Some v \<Rightarrow> v)"
    have v: "v \<le> b - drift * rate * (T - c)" "\<bar>v\<bar> \<le> m"
      using bal m pos by (auto simp: v_def split: option.splits)
    have lvol: "dim_volume k d M l = \<bar>x\<bar> + M / 10 ^ 13" using True pos by (simp add: dim_volume_def l_def)
    define y where "y = incr_sum rd v x"
    have "\<bar>y - (v + x)\<bar> \<le> 1 / 10 ^ 17 + (\<bar>v\<bar> + \<bar>x\<bar>) / 2 ^ 52" unfolding y_def by (rule incr_sum_err [OF laws])
    also have "\<dots> \<le> M / 10 ^ 13"
    proof -
      have "\<bar>v\<bar> + \<bar>x\<bar> \<le> M" using v(2) cap pos lvol by simp
      then have "(\<bar>v\<bar> + \<bar>x\<bar>) / 2 ^ 52 \<le> M / 2 ^ 52" by (intro divide_right_mono) simp_all
      moreover have "1 / 10 ^ 17 + M / 2 ^ 52 \<le> M / 10 ^ 13" using pos(3) by simp
      ultimately show ?thesis by linarith
    qed
    finally have y: "\<bar>y - (v + x)\<bar> \<le> M / 10 ^ 13" .
    have "hget rd ?st' k (dim_field d) = Some y"
      using True by (simp add: hget_run_incr [OF laws] y_def v_def)
    moreover have "hget rd ?st' k ''last_refill_ts'' = hget rd st k ''last_refill_ts''"
      using True assms(3) by (simp add: hget_run_incr [OF laws])
    moreover have "y \<le> b - dim_charge k d lm rate life M l - drift * rate * (T + dt - c)"
    proof -
      have "drift * rate * (T + dt - c) = drift * rate * (T - c) + drift * rate * dt" by (simp add: algebra_simps)
      moreover have "dim_charge k d lm rate life M l = - x - drift * rate * dt - slack rate M" using True by (simp add: dim_charge_def l_def)
      moreover have "y \<le> v + x + M / 10 ^ 13" using y by linarith
      ultimately show ?thesis using v(1) slack by simp
    qed
    moreover have "\<bar>y\<bar> \<le> m + dim_volume k d M l" using y v(2) unfolding lvol by linarith
    ultimately show ?thesis
      using m vol cap c assms(4) unfolding dim_funds_def fst_conv snd_conv by (intro conjI exI [of _ c]) simp_all
  qed
qed

lemma lapsed_after:
  assumes "lapsed life now h" "h ''last_refill_ts'' \<in> {None, Some (dec14 c)}" "0 \<le> c" "c \<le> now" "now \<le> 4 * 10 ^ 9"
  shows "lifetime life \<le> now - c"
proof -
  have "\<bar>dec14 c - c\<bar> \<le> 5 * (4 * 10 ^ 9) / 10 ^ 14" by (rule dec14_near) (use assms(3-5) in simp)
  moreover have "dec14 c + of_int life \<le> now + 1 / 10 ^ 3" using assms(1,2) by (auto simp: lapsed_def)
  ultimately show ?thesis unfolding lifetime_def by (simp add: abs_if split: if_splits)
qed

lemma gone_timed:
  assumes "metered_bucket rd d lm rate M" "dim_funds rd k d lm rate M (st, T) b m" "0 \<le> dt" "T + dt \<le> 4 * 10 ^ 9"
    and "lapsed life (T + dt) (hget rd st k')"
  defines "l \<equiv> (dt, Gone k' (hget rd st k'))"
  shows "dim_funds rd k d lm rate M (drop_key rd st k', T + dt) (b - dim_charge k d lm rate life M l) m"
proof -
  have pos: "0 \<le> slack rate M" "redis_laws rd" "0 \<le> rate"
    using assms(1) by (simp_all add: metered_bucket_def slack_def)
  have charge: "dim_charge k d lm rate life M l =
      - drift * rate * dt - slack rate M - windfall k d lm rate life (Gone k' (hget rd st k'))"
    by (simp add: dim_charge_def l_def)
  have m: "m \<le> M" using assms(2) by (simp add: dim_funds_def)
  show ?thesis
  proof (cases "k' = k")
    case False
    have "dim_funds rd k d lm rate M (drop_key rd st k', T + dt) (b + drift * rate * dt) m"
      by (rule time_passes [OF assms(2,3)]) (use False pos in \<open>simp add: hget_drop_key\<close>)
    then show ?thesis
      by (rule dim_funds_mono) (use pos(1) m False in \<open>simp_all add: charge\<close>)
  next
    case True
    obtain c where m: "m \<le> M" "2 * lm \<le> m" and c: "0 \<le> c" "c \<le> T" "hget rd st k ''last_refill_ts'' \<in> {None, Some (dec14 c)}"
      and bal: "case hget rd st k (dim_field d) of None \<Rightarrow> lm \<le> b - drift * rate * (T - c)
       | Some v \<Rightarrow> v \<le> b - drift * rate * (T - c) \<and> \<bar>v\<bar> \<le> m"
      using assms(2) by (rule dim_fundsE)
    have "lifetime life \<le> T + dt - c"
      using assms(3-5) c True by (intro lapsed_after [of life _ "hget rd st k"]) simp_all
    then have "rate * lifetime life \<le> rate * (T + dt - c)" using pos(3) by (intro mult_left_mono)
    also have "\<dots> \<le> drift * (rate * (T + dt - c))"
      using pos(3) c(2) assms(3) mult_right_mono [of 1 drift "rate * (T + dt - c)"] by (simp add: drift_def)
    also have "\<dots> = drift * rate * (T - c) + drift * rate * dt" by (simp add: algebra_simps)
    finally have refill: "rate * lifetime life \<le> drift * rate * (T - c) + drift * rate * dt" .
    have "0 \<le> drift * rate * (T - c)" "0 \<le> drift * rate * dt" using pos(3) c(2) assms(3) by (simp_all add: drift_def)
    then have "lm \<le> b - dim_charge k d lm rate life M l"
      using refill bal pos(1) True by (cases "hget rd st k (dim_field d)") (simp_all add: charge windfall_def max_def)
    then show ?thesis
      using m c(1,2) assms(3) True pos(2) by (auto simp: dim_funds_def hget_drop_key intro!: exI [of _ "T + dt"])
  qed
qed

definition metered_step :: "'s redis \<Rightarrow> int \<Rightarrow> string \<Rightarrow> dimension \<Rightarrow> rat \<Rightarrow> rat \<Rightarrow> rat \<Rightarrow> 's \<times> rat \<Rightarrow> rat \<times> command \<Rightarrow> 's \<times> rat \<Rightarrow> bool" where
  "metered_step rd life k d lm rate M w l w' \<longleftrightarrow> timed_step rd life w l w' \<and> steady k d lm rate (snd l) \<and>
     snd w' \<le> 4 * 10 ^ 9 \<and> metered_bucket rd d lm rate M"

lemma moved_nonneg [simp]: "0 \<le> moved k d c"
  by (cases "(k, d, c)" rule: moved.cases) simp_all

lemma dim_volume_nonneg: "0 \<le> dim_volume k d M l"
  by (simp add: dim_volume_def)

lemma metered_keeps:
  assumes "metered_step rd life k d lm rate M w l w'" "dim_funds rd k d lm rate M w b m" "m + dim_volume k d M l \<le> M"
  shows "dim_funds rd k d lm rate M w' (b - dim_charge k d lm rate life M l) (m + dim_volume k d M l) \<and>
    (granted k (snd l) \<longrightarrow> dim_charge k d lm rate life M l \<le> b)"
proof -
  have met: "metered_bucket rd d lm rate M" and steady: "steady k d lm rate (snd l)" and now: "snd w' \<le> 4 * 10 ^ 9"
    and step: "timed_step rd life w l w'" using assms(1) by (simp_all add: metered_step_def)
  note more = dim_funds_mono [where b = "b - dim_charge k d lm rate life M l" and b' = "b - dim_charge k d lm rate life M l",
      OF _ order_refl _ assms(3)]
  from step show ?thesis
  proof cases
    case (asked dt net e tm T refs t u st res e' st')
    have "capped_bucket k d lm rate refs" "T + dt \<le> 4 * 10 ^ 9" using steady now asked by simp_all
    note chk = check_timed [OF met assms(2) [unfolded asked(1)] this(1) asked(5,7,4) this(2) asked(8), folded asked(2,3)]
    show ?thesis using more [OF chk(1)] chk(2) dim_volume_nonneg by simp
  next
    case (added dt st T k' f x)
    then have "k' = k \<Longrightarrow> f \<noteq> ''last_refill_ts''" using steady by simp
    from incr_timed [OF met assms(2) [unfolded added(1)] this added(4) assms(3) [unfolded added(2)], folded added(2,3)]
    show ?thesis by (simp add: added(2))
  next
    case (gone dt T st k')
    have "T + dt \<le> 4 * 10 ^ 9" using now gone(3) by simp
    note ends = gone_timed [OF met assms(2) [unfolded gone(1)] gone(4) this gone(5), folded gone(2,3)]
    show ?thesis using more [OF ends] dim_volume_nonneg by (simp add: gone(2))
  qed
qed

interpretation timed: ledger "metered_step rd life k d lm rate M" "dim_funds rd k d lm rate M" "dim_charge k d lm rate life M"
  "dim_volume k d M" "\<lambda>l. granted k (snd l)" M for rd :: "'s redis" and life k d lm rate M
  by unfold_locales (use metered_keeps dim_volume_nonneg in blast)+


section \<open>No overspend, second by second\<close>

text \<open>
  How far \<open>n\<close> commands can be off together: every check may see a refill of 0.4 ms too much, the
  14 digits of the stored time, and every command may be off by \<open>10 ^ - 13\<close> of what moved in all.
\<close>

definition scale :: "rat \<Rightarrow> rat \<Rightarrow> rat" where
  "scale lm vol = 4 * (lm + vol + 1)"

definition imprecision :: "rat \<Rightarrow> rat \<Rightarrow> rat \<Rightarrow> nat \<Rightarrow> rat" where
  "imprecision lm rate vol n = of_nat n * slack rate (scale lm vol)"

lemma timed_clock: "run (timed_step rd life) w ls w' \<Longrightarrow> snd w' = snd w + (\<Sum>l\<leftarrow>ls. fst l) \<and> (\<forall>l\<in>set ls. 0 \<le> fst l)"
  by (induction rule: run.induct) (auto elim!: timed_stepE)

lemma sum_dim_charge:
  "(\<Sum>l\<leftarrow>ls. dim_charge k d lm rate life M l) =
     (\<Sum>l\<leftarrow>ls. cost k d (snd l)) - drift * rate * (\<Sum>l\<leftarrow>ls. fst l) - of_nat (length ls) * slack rate M -
     (\<Sum>l\<leftarrow>ls. windfall k d lm rate life (snd l))"
  by (induction ls) (simp_all add: dim_charge_def algebra_simps)

lemma sum_dim_volume:
  "(\<Sum>l\<leftarrow>ls. dim_volume k d M l) = (\<Sum>l\<leftarrow>ls. moved k d (snd l)) + of_nat (length ls) * (max 0 M / 10 ^ 13)"
  by (induction ls) (simp_all add: dim_volume_def algebra_simps)

lemma metered_run:
  assumes "run (timed_step rd life) w ls w'" "\<forall>l\<in>set ls. steady k d lm rate (snd l)" "snd w' \<le> 4 * 10 ^ 9"
    and "metered_bucket rd d lm rate M"
  shows "run (metered_step rd life k d lm rate M) w ls w'"
  using assms(1-3)
proof (induction rule: run.induct)
  case (run_snoc w ls w1 l w2)
  have "snd w1 \<le> snd w2" using run_snoc.hyps(2) by (auto elim!: timed_stepE)
  with run_snoc.prems have "run (metered_step rd life k d lm rate M) w ls w1" by (intro run_snoc.IH) auto
  then show ?case
    by (rule run.run_snoc) (use run_snoc assms(4) in \<open>simp add: metered_step_def\<close>)
qed (rule run_Nil)

text \<open>Any run of commands over a bucket that is new, and its funds at the end.\<close>

lemma timed_volume:
  fixes k :: string and d :: dimension
  assumes "0 < lm" "length ls \<le> 10 ^ 12"
  defines "M \<equiv> scale lm (\<Sum>l\<leftarrow>ls. moved k d (snd l))"
  shows "1 \<le> M" "2 * lm \<le> M" "2 * lm + (\<Sum>l\<leftarrow>ls. dim_volume k d M l) \<le> M"
proof -
  have vol: "0 \<le> (\<Sum>l\<leftarrow>ls. moved k d (snd l))" by (induction ls) simp_all
  show M: "1 \<le> M" "2 * lm \<le> M" using assms(1) vol by (simp_all add: M_def scale_def)
  have "of_nat (length ls) * (M / 10 ^ 13) \<le> 10 ^ 12 * (M / 10 ^ 13)"
    using M(1) assms(2) of_nat_mono [OF assms(2), where 'a = rat] by (intro mult_right_mono) simp_all
  then show "2 * lm + (\<Sum>l\<leftarrow>ls. dim_volume k d M l) \<le> M"
    using assms(1) vol M(1) unfolding sum_dim_volume by (simp add: M_def scale_def)
qed

text \<open>
  Commands over a bucket \<open>k\<close> that is new at time \<open>T\<close>, with a limit of at most \<open>lm\<close> and a refill of at
  most \<open>rate\<close>, until \<open>T'\<close>; the clock is that of this century.
\<close>

definition new_bucket ::
  "'s redis \<Rightarrow> string \<Rightarrow> dimension \<Rightarrow> rat \<Rightarrow> rat \<Rightarrow> 's \<Rightarrow> rat \<Rightarrow> command list \<Rightarrow> rat \<Rightarrow> bool" where
  "new_bucket rd k d lm rate st T cs T' \<longleftrightarrow>
     redis_laws rd \<and> 0 < lm \<and> lm \<le> 2 ^ 52 \<and> 0 \<le> rate \<and>
     hget rd st k ''last_refill_ts'' = None \<and> hget rd st k (dim_field d) = None \<and> 0 \<le> T \<and> T' \<le> 4 * 10 ^ 9 \<and>
     (\<forall>c\<in>set cs. steady k d lm rate c) \<and> length cs \<le> 10 ^ 12"

abbreviation fresh_run :: "'s redis \<Rightarrow> int \<Rightarrow> string \<Rightarrow> dimension \<Rightarrow> rat \<Rightarrow> rat \<Rightarrow> 's \<Rightarrow> rat \<Rightarrow> (rat \<times> command) list \<Rightarrow> 's \<times> rat \<Rightarrow> bool" where
  "fresh_run rd life k d lm rate st T ls w' \<equiv>
     run (timed_step rd life) (st, T) ls w' \<and> new_bucket rd k d lm rate st T (map snd ls) (snd w')"

lemma fresh_run_funds:
  assumes "fresh_run rd life k d lm rate st T ls w'"
  defines "M \<equiv> scale lm (\<Sum>l\<leftarrow>ls. moved k d (snd l))"
  shows "run (metered_step rd life k d lm rate M) (st, T) ls w'" "dim_funds rd k d lm rate M (st, T) lm (2 * lm)"
    "2 * lm + (\<Sum>l\<leftarrow>ls. dim_volume k d M l) \<le> M" "0 \<le> lm"
    "(\<Sum>l\<leftarrow>ls. dim_charge k d lm rate life M l) = (\<Sum>l\<leftarrow>ls. cost k d (snd l)) - drift * rate * (snd w' - T) -
       imprecision lm rate (\<Sum>l\<leftarrow>ls. moved k d (snd l)) (length ls) - (\<Sum>l\<leftarrow>ls. windfall k d lm rate life (snd l))"
proof -
  have f: "0 < lm" "length ls \<le> 10 ^ 12" "run (timed_step rd life) (st, T) ls w'"
    "hget rd st k ''last_refill_ts'' = None" "hget rd st k (dim_field d) = None" "0 \<le> T"
    using assms(1) by (simp_all add: new_bucket_def)
  note vol = timed_volume [OF f(1,2), of k d, folded M_def]
  have "metered_bucket rd d lm rate M" using assms(1) vol(1) by (simp add: metered_bucket_def new_bucket_def)
  then show "run (metered_step rd life k d lm rate M) (st, T) ls w'"
    using assms(1) by (intro metered_run) (simp_all add: new_bucket_def)
  show "dim_funds rd k d lm rate M (st, T) lm (2 * lm)"
    using vol(2) f by (auto simp: dim_funds_def intro!: exI [of _ T])
  show "2 * lm + (\<Sum>l\<leftarrow>ls. dim_volume k d M l) \<le> M" by (rule vol(3))
  show "0 \<le> lm" using f(1) by simp
  show "(\<Sum>l\<leftarrow>ls. dim_charge k d lm rate life M l) = (\<Sum>l\<leftarrow>ls. cost k d (snd l)) - drift * rate * (snd w' - T) -
       imprecision lm rate (\<Sum>l\<leftarrow>ls. moved k d (snd l)) (length ls) - (\<Sum>l\<leftarrow>ls. windfall k d lm rate life (snd l))"
    using timed_clock [OF f(3)] by (simp add: sum_dim_charge imprecision_def M_def)
qed

lemma timed_admission:
  assumes "fresh_run rd life k d lm rate st T (ls @ [l]) w'" "granted k (snd l)"
  shows "(\<Sum>l\<leftarrow>ls @ [l]. cost k d (snd l)) \<le>
    lm + drift * rate * (snd w' - T) + imprecision lm rate (\<Sum>l\<leftarrow>ls @ [l]. moved k d (snd l)) (length (ls @ [l])) +
    (\<Sum>l\<leftarrow>ls @ [l]. windfall k d lm rate life (snd l))"
  using timed.admission_within [OF fresh_run_funds(1-3) [OF assms(1)] assms(2)]
  unfolding fresh_run_funds(5) [OF assms(1)] by linarith

text \<open>Only an increment that takes more than was reserved can bring the total above that.\<close>

lemma timed_total:
  assumes "fresh_run rd life k d lm rate st T ls w'"
  shows "(\<Sum>l\<leftarrow>ls. cost k d (snd l)) \<le> lm + drift * rate * (snd w' - T) +
    imprecision lm rate (\<Sum>l\<leftarrow>ls. moved k d (snd l)) (length ls) +
    (\<Sum>l\<leftarrow>ls. windfall k d lm rate life (snd l)) + (\<Sum>l\<leftarrow>ls. overdraft k d (snd l))"
proof -
  let ?M = "scale lm (\<Sum>l\<leftarrow>ls. moved k d (snd l))"
  have "(\<Sum>l\<leftarrow>ls. if granted k (snd l) then 0 else max 0 (dim_charge k d lm rate life ?M l)) \<le>
      (\<Sum>l\<leftarrow>ls. overdraft k d (snd l))"
  proof (rule sum_list_mono)
    fix l assume "l \<in> set ls"
    have "0 \<le> fst l" using timed_clock [of rd life "(st, T)" ls w'] assms \<open>l \<in> set ls\<close> by (simp add: new_bucket_def)
    moreover have "0 \<le> rate" "1 \<le> ?M" using assms timed_volume(1) by (simp_all add: new_bucket_def)
    ultimately have "0 \<le> drift * rate * fst l + slack rate ?M" by (simp add: drift_def slack_def)
    then have "dim_charge k d lm rate life ?M l \<le> cost k d (snd l)"
      using windfall_nonneg [of k d lm rate life "snd l"] unfolding dim_charge_def by linarith
    then show "(if granted k (snd l) then 0 else max 0 (dim_charge k d lm rate life ?M l)) \<le>
        overdraft k d (snd l)" unfolding overdraft_alt [symmetric] by (simp add: max.coboundedI2)
  qed
  with timed.total_within [OF fresh_run_funds(1-4) [OF assms]] show ?thesis
    unfolding fresh_run_funds(5) [OF assms] by linarith
qed

section \<open>Expiry of a bucket that had time to refill\<close>

lemma lua_refill_full:
  assumes "0 < lm" "f64 lm = lm" "0 \<le> w" "lm \<le> e * rate"
  shows "lua_refill lm rate e w = lm"
proof -
  have "lm \<le> f64_mul e rate" unfolding f64_mul_def by (rule f64.r_ge_fixed [OF assms(4,2)])
  then have "lm \<le> f64_add w (f64_mul e rate)"
    unfolding f64_add_def using assms(2,3) by (intro f64.r_ge_fixed) simp_all
  then show ?thesis using assms(1) by (simp add: lua_refill_def Let_def)
qed

lemma new_bucket_view:
  assumes "0 < dim_limit d (Limits r)" "f64 (dim_limit d (Limits r)) = dim_limit d (Limits r)"
    and "hget rd st (RefKey r) (dim_field d) = None" "hget rd st (RefKey r) ''last_refill_ts'' = None"
  shows "dim_balance d (view rd now st r) = dim_limit d (Limits r)"
  using assms f64_01(1) by (simp add: dim_view elapsed_at_def lua_refill_def Let_def f64_mul_def f64_add_def)

text \<open>C35: the lifetime of a key loses nothing that a refill would not have restored. When a bucket
  that is not in debt expires after as much time as it takes to refill it, no check, now or later,
  can tell: the balance it sees is the limit, with the key or without.\<close>

theorem refilled_expiry_unobservable:
  assumes "redis_laws rd" "0 < dim_limit d (Limits r)" "f64 (dim_limit d (Limits r)) = dim_limit d (Limits r)"
    and "hget rd st (RefKey r) (dim_field d) = Some v" "0 \<le> v"
    and "dim_limit d (Limits r) \<le> elapsed_at rd now st (RefKey r) * dim_rate d (Limits r)"
  shows "dim_balance d (view rd now (drop_key rd st (RefKey r)) r) = dim_balance d (view rd now st r) \<and>
    dim_balance d (view rd now st r) = dim_limit d (Limits r)"
proof -
  have "dim_balance d (view rd now (drop_key rd st (RefKey r)) r) = dim_limit d (Limits r)"
    by (rule new_bucket_view [OF assms(2,3)]) (simp_all add: hget_drop_key [OF assms(1)])
  moreover have "dim_balance d (view rd now st r) = dim_limit d (Limits r)"
    using lua_refill_full [OF assms(2,3) f64.r_nonneg [OF assms(5)] assms(6)] by (simp add: dim_view assms(4))
  ultimately show ?thesis by simp
qed

lemma refilled_expiry_unobservable_witness:
  "let r = (tenant_ref ''t'' 1000)\<lparr>Limits := zero_limits\<lparr>TokenLimit := 1000, RefillTokensPerSec := 1\<rparr>\<rparr>;
       st = hset mem_redis mem_empty ''budget:t:-:-'' [(''tokens_remaining'', 3), (''last_refill_ts'', 0)]
   in dim_balance TokenDim (view mem_redis 86400 (drop_key mem_redis st ''budget:t:-:-'') r) =
      dim_balance TokenDim (view mem_redis 86400 st r)"
  using refilled_expiry_unobservable [of mem_redis TokenDim
      "(tenant_ref ''t'' 1000)\<lparr>Limits := zero_limits\<lparr>TokenLimit := 1000, RefillTokensPerSec := 1\<rparr>\<rparr>"
      "hset mem_redis mem_empty ''budget:t:-:-'' [(''tokens_remaining'', 3), (''last_refill_ts'', 0)]" 3 86400]
  by (simp add: Let_def closed_refs elapsed_at_def) (simp add: mem_redis_def)

section \<open>How often a bucket can expire\<close>

text \<open>\<open>n\<close> expiries of the bucket \<open>k\<close> took as many lifetimes, and the time it holds is later than that.\<close>

definition aged :: "'s redis \<Rightarrow> int \<Rightarrow> string \<Rightarrow> rat \<Rightarrow> 's \<times> rat \<Rightarrow> nat \<Rightarrow> bool" where
  "aged rd life k T w n \<longleftrightarrow>
     (\<exists>c. 0 \<le> c \<and> T + of_nat n * lifetime life \<le> c \<and> c \<le> snd w \<and> hget rd (fst w) k ''last_refill_ts'' \<in> {None, Some (dec14 c)})"

lemma aged_later:
  assumes "aged rd life k T0 (st, T) n" "0 \<le> dt"
    and "hget rd st' k ''last_refill_ts'' \<in> {hget rd st k ''last_refill_ts'', None, Some (dec14 (T + dt))}"
  shows "aged rd life k T0 (st', T + dt) n"
proof -
  from assms(1) obtain c where c: "0 \<le> c" "T0 + of_nat n * lifetime life \<le> c" "c \<le> T"
    "hget rd st k ''last_refill_ts'' \<in> {None, Some (dec14 c)}" by (auto simp: aged_def)
  then have le: "0 \<le> T + dt" "T0 + of_nat n * lifetime life \<le> T + dt" "c \<le> T + dt" using assms(2) by simp_all
  show ?thesis
  proof (cases "hget rd st' k ''last_refill_ts'' = hget rd st k ''last_refill_ts''")
    case True
    then show ?thesis unfolding aged_def using c le by (intro exI [of _ c]) simp
  next
    case False
    then show ?thesis unfolding aged_def using assms(3) le by (intro exI [of _ "T + dt"]) simp
  qed
qed

lemma aged_step:
  assumes "aged rd life k T0 w n" "timed_step rd life w l w'" "steady k d lm rate (snd l)" "redis_laws rd" "snd w' \<le> 4 * 10 ^ 9"
  shows "aged rd life k T0 w' (if expiry_of k (snd l) then Suc n else n)"
  using assms(2)
proof cases
  case (asked dt net e tm T refs t u st res e' st')
  have dist: "distinct (map RefKey refs)" using assms(3) by (simp add: asked(2) capped_bucket_def)
  have "hget rd st' k ''last_refill_ts'' \<in> {hget rd st k ''last_refill_ts'', None, Some (dec14 (T + dt))}"
    using check_effect [OF asked(5,8)] committed_other [OF assms(4) dist] committed_bucket(3) [OF assms(4) dist]
    unfolding asked(7) by (cases "k \<in> RefKey ` set refs") auto
  then have "aged rd life k T0 (st', T + dt) n" using aged_later [OF assms(1) [unfolded asked(1)] asked(4)] by blast
  then show ?thesis by (simp add: asked(2,3))
next
  case (added dt st T k' f x)
  have "hget rd (run_incr rd (k', f, x) st) k ''last_refill_ts'' = hget rd st k ''last_refill_ts''"
    using assms(3) by (auto simp: added(2) hget_run_incr [OF assms(4)])
  then have "aged rd life k T0 (run_incr rd (k', f, x) st, T + dt) n"
    using aged_later [OF assms(1) [unfolded added(1)] added(4)] by blast
  then show ?thesis by (simp add: added(2,3))
next
  case (gone dt T st k')
  show ?thesis
  proof (cases "k' = k")
    case False
    then have "hget rd (drop_key rd st k') k ''last_refill_ts'' = hget rd st k ''last_refill_ts''"
      by (simp add: hget_drop_key [OF assms(4)])
    then have "aged rd life k T0 (drop_key rd st k', T + dt) n" using aged_later [OF assms(1) [unfolded gone(1)] gone(4)] by blast
    then show ?thesis using False by (simp add: gone(2,3))
  next
    case True
    from assms(1) obtain c where c: "0 \<le> c" "T0 + of_nat n * lifetime life \<le> c" "c \<le> T"
      "hget rd st k ''last_refill_ts'' \<in> {None, Some (dec14 c)}" by (auto simp: aged_def gone(1))
    have "lifetime life \<le> T + dt - c"
      using c gone(4,5) True assms(5) by (intro lapsed_after [of life _ "hget rd st k"]) (simp_all add: gone(3))
    then have "0 \<le> T + dt" "T0 + of_nat (Suc n) * lifetime life \<le> T + dt" using c gone(4) by (simp_all add: algebra_simps)
    then show ?thesis using True by (auto simp: aged_def gone hget_drop_key [OF assms(4)])
  qed
qed

definition expiries :: "string \<Rightarrow> command list \<Rightarrow> nat" where
  "expiries k cs = length (filter (expiry_of k) cs)"

lemma expiries_snoc: "expiries k (cs @ [c]) = (if expiry_of k c then Suc (expiries k cs) else expiries k cs)"
  by (simp add: expiries_def)

lemma run_aged:
  assumes "run (timed_step rd life) w ls w'" "\<forall>l\<in>set ls. steady k d lm rate (snd l)" "redis_laws rd" "snd w' \<le> 4 * 10 ^ 9"
    and "aged rd life k T0 w 0"
  shows "aged rd life k T0 w' (expiries k (map snd ls))"
  using assms(1,2,4,5)
proof (induction rule: run.induct)
  case (run_snoc w ls w1 l w2)
  have "snd w1 \<le> snd w2" using run_snoc.hyps(2) by (auto elim!: timed_stepE)
  then have "aged rd life k T0 w1 (expiries k (map snd ls))" using run_snoc.prems by (intro run_snoc.IH) auto
  from aged_step [OF this run_snoc.hyps(2) _ assms(3), of d lm rate] run_snoc.prems
  show ?case by (simp add: expiries_snoc)
qed (simp add: expiries_def)

lemma sum_windfall:
  "(\<Sum>l\<leftarrow>ls. windfall k d lm rate life (snd l)) =
     (\<Sum>l\<leftarrow>ls. forgiven k d (snd l)) + of_nat (expiries k (map snd ls)) * max 0 (lm - rate * lifetime life)"
  by (induction ls) (simp_all add: windfall_def expiries_def algebra_simps)



end
