(* ===== verification/System.thy ===== *)
theory System
  imports Requests Timed
begin

text \<open>
  Many requests at once. A request, seen from the budget store, is a program: it checks, goes on
  with the answer, settles, and replies. \<open>request_prog\<close> is the program of \<open>ChatCompletions\<close>, and
  running it alone is the handler itself (\<open>handler_is_its_program\<close>). The gateway at large is the
  pool of the programs of all its requests, on any number of replicas, whose store commands
  interleave in any way, while keys expire. Every request holds at most one reservation at a time
  and settles it at most once, so the no-overspend theorems of \<open>Ledger\<close> speak of requests: what
  those in flight have reserved and those finished have used.
\<close>

section \<open>Programs on the budget store\<close>

datatype prog =
  Answer reply
| CheckThen net redis_time "bucket_ref list" int rat "budget_error + decision \<Rightarrow> prog"
| SettleThen pipe_fault "bucket_ref list" int rat int rat prog

primrec exec_prog :: "'s redis \<Rightarrow> prog \<Rightarrow> enforcer \<Rightarrow> 's \<Rightarrow> reply \<times> enforcer \<times> 's" where
  "exec_prog rd (Answer r) = (\<lambda>e st. (r, e, st))"
| "exec_prog rd (CheckThen net tm refs t u cont) =
     (\<lambda>e st. case CheckAndDecrement rd net tm e refs t u st of (res, e', st') \<Rightarrow> exec_prog rd (cont res) e' st')"
| "exec_prog rd (SettleThen fault refs et eu act au p) =
     (\<lambda>e st. exec_prog rd p e (snd (Reconcile rd fault refs et eu act au st)))"

section \<open>The program of a request\<close>

fun upstream_reply :: "go_error \<Rightarrow> reply" where
  "upstream_reply (ProviderErr perr) =
     json_error (mapProviderStatus (StatusCode perr)) (withMessage (ErrMessage perr) ''upstream_error'')"
| "upstream_reply (OtherErr text) = json_error 502 (withMessage text ''upstream_error'')"

definition stream_prog :: "env \<Rightarrow> request \<Rightarrow> bucket_ref list \<Rightarrow> int \<Rightarrow> rat \<Rightarrow> sseChunkWriter \<Rightarrow> prog" where
  "stream_prog ev req refs t u w =
     SettleThen (reconcile_fault ev) refs t u (wrap64 (TokensIn (finalUsage w) + TokensOut (finalUsage w)))
       (CostUSD (ReqModel req) (TokensIn (finalUsage w)) 0 (TokensOut (finalUsage w)))
       (Answer \<lparr>RStatus = 200, RHeaders = http_headers (conn w), RBody = StreamBody w\<rparr>)"

definition dispatch_prog :: "'s server \<Rightarrow> env \<Rightarrow> request \<Rightarrow> bucket_ref list \<Rightarrow> int \<Rightarrow> rat \<Rightarrow> string \<Rightarrow> prog" where
  "dispatch_prog sv ev req refs t u advice =
     (let p = Select (srv_router sv) (ReqModel req) in
      if ReqStream req then
        (if \<not> can_flush ev then
           Answer (json_error 500 (withMessage ''streaming not supported by this transport'' ''internal_error''))
         else
           (case StreamTo p req (sse_Write (print_json ev) (write_fails ev)) (new_writer req advice) of
              (Some err, w) \<Rightarrow>
                (if \<not> wroteHeaders w then
                   (let r = upstream_reply err in
                    SettleThen (reconcile_fault ev) refs t u 0 0 (Answer (r\<lparr>RHeaders := advisory_headers advice @ RHeaders r\<rparr>)))
                 else stream_prog ev req refs t u w)
            | (None, w) \<Rightarrow> stream_prog ev req refs t u w))
      else
        (case Complete p req of
           Inl err \<Rightarrow> SettleThen (reconcile_fault ev) refs t u 0 0 (Answer (upstream_reply err))
         | Inr resp \<Rightarrow>
             SettleThen (reconcile_fault ev) refs t u (wrap64 (TokensIn (RespUsage resp) + TokensOut (RespUsage resp)))
               (RespCostUSD resp)
               (Answer \<lparr>RStatus = 200, RHeaders = advisory_headers advice,
                  RBody = ChatBody \<lparr>ChID = RespID resp, ChObject = ''chat.completion'', ChModel = RespModel resp,
                    ChContent = RespContent resp, ChFinishReason = FinishReason resp,
                    PromptTokensOut = TokensIn (RespUsage resp), CompletionTokensOut = TokensOut (RespUsage resp),
                    TotalTokensOut = wrap64 (TokensIn (RespUsage resp) + TokensOut (RespUsage resp)),
                    BudgetAdvisory = advice, ChCostUSD = RespCostUSD resp\<rparr>\<rparr>)))"

definition reject_reply :: "decision \<Rightarrow> outcome \<Rightarrow> reply" where
  "reject_reply d outc =
     (let reason = (if OReason outc = ReasonNone then Reason d else OReason outc)
      in json_error 429 ((withMessage (''budget exceeded: '' @ reason_string reason) (reason_string reason))
           \<lparr>ERemainingTokens := RemainingTokens d, ERemainingUSD := RemainingUSD d, EAdvice := Advice outc\<rparr>))"

definition retry_prog ::
  "'s server \<Rightarrow> env \<Rightarrow> request \<Rightarrow> bucket_ref list \<Rightarrow> decision \<Rightarrow> outcome \<Rightarrow> int \<Rightarrow> rat \<Rightarrow> prog" where
  "retry_prog sv ev rq refs d outc t u =
     CheckThen (retry_net ev) (retry_time ev) refs t u
       (\<lambda>res. case res of
          Inr rd \<Rightarrow> (if Allowed rd then dispatch_prog sv ev rq refs t u (Advice outc) else Answer (reject_reply d outc))
        | Inl err \<Rightarrow> Answer (reject_reply d outc))"

definition pressure_prog ::
  "'s server \<Rightarrow> env \<Rightarrow> request \<Rightarrow> bucket_ref list \<Rightarrow> decision \<Rightarrow> int \<Rightarrow> int \<Rightarrow> prog" where
  "pressure_prog sv ev req refs d n t =
     (let outc = policy_outcome sv ev req d t in
      case Action outc of
        ActionRetryWithModel \<Rightarrow>
          (let m = output_estimate (ReqMaxTokens req)
           in retry_prog sv ev (req\<lparr>ReqModel := Model outc\<rparr>) refs d outc (wrap64 (n + m)) (CostUSD (Model outc) n 0 m))
      | ActionPartialAllowance \<Rightarrow>
          (let m = MaxTokens outc
           in retry_prog sv ev (req\<lparr>ReqMaxTokens := m\<rparr>) refs d outc (wrap64 (n + m)) (CostUSD (ReqModel req) n 0 m))
      | ActionReject \<Rightarrow> Answer (reject_reply d outc))"

text \<open>The program depends on the shared state only through the buckets the configuration gives.\<close>

definition request_prog :: "'s server \<Rightarrow> env \<Rightarrow> client_request \<Rightarrow> identity \<Rightarrow> config_cache \<Rightarrow> prog" where
  "request_prog sv ev cr ident cfg =
     (case bind_chat (ReqBody cr) of
        None \<Rightarrow> Answer (json_error 400 (withMessage (''invalid request body: '' @ BindError cr) ''invalid_request''))
      | Some body \<Rightarrow>
          (let req = request_of ev cr ident body;
               refs = Resolve cfg (IdTenantID ident) (XAgentId cr) (XTaskId cr)
           in if refs = [] then
                Answer (json_error 403 (withMessage ''no budget configured for this tenant/agent/task'' ''no_budget_configured''))
              else
                CheckThen (check_net ev) (check_time ev) refs (est_tokens sv req) (est_usd sv req)
                  (\<lambda>res. case res of
                     Inl err \<Rightarrow> Answer (json_error 503 (withMessage ''budget backend unavailable'' ''budget_backend_unavailable''))
                   | Inr d \<Rightarrow>
                       (if Allowed d then dispatch_prog sv ev req refs (est_tokens sv req) (est_usd sv req) []
                        else pressure_prog sv ev req refs d (est_input sv req) (est_tokens sv req)))))"

section \<open>Running a program alone\<close>

definition budget_view :: "reply \<times> 's gateway \<Rightarrow> reply \<times> enforcer \<times> 's" where
  "budget_view rg = (fst rg, enforcer_state (snd rg), redis_state (snd rg))"

lemma handleProviderError_view:
  "budget_view (handleProviderError sv ev req refs t u err g) =
     (upstream_reply err, enforcer_state g, snd (Reconcile (srv_redis sv) (reconcile_fault ev) refs t u 0 0 (redis_state g)))"
  by (cases err) (simp_all add: budget_view_def handleProviderError_def Let_def)

lemma stream_end_view:
  "budget_view (stream_end sv ev req refs t u dl w g) =
     exec_prog (srv_redis sv) (stream_prog ev req refs t u w) (enforcer_state g) (redis_state g)"
  by (simp add: budget_view_def stream_end_def stream_prog_def Let_def)

lemma streamDispatch_view:
  assumes "ReqStream req"
  shows "budget_view (streamDispatch sv ev req refs t u dl advice (Select (srv_router sv) (ReqModel req)) g) =
    exec_prog (srv_redis sv) (dispatch_prog sv ev req refs t u advice) (enforcer_state g) (redis_state g)"
proof (cases "can_flush ev")
  case True
  obtain err w where st: "StreamTo (Select (srv_router sv) (ReqModel req)) req (sse_Write (print_json ev) (write_fails ev))
      (new_writer req advice) = (err, w)" by fastforce
  show ?thesis
  proof (cases err)
    case None
    with True st assms show ?thesis by (simp add: streamDispatch_def dispatch_prog_def Let_def stream_end_view)
  next
    case (Some e)
    obtain r g' where h: "handleProviderError sv ev req refs t u e g = (r, g')" by fastforce
    have "r = upstream_reply e" "enforcer_state g' = enforcer_state g"
      "redis_state g' = snd (Reconcile (srv_redis sv) (reconcile_fault ev) refs t u 0 0 (redis_state g))"
      using handleProviderError_view [of sv ev req refs t u e g] by (simp_all add: h budget_view_def)
    with Some True st assms h show ?thesis
      by (simp add: streamDispatch_def dispatch_prog_def Let_def stream_end_view) (simp add: budget_view_def)
  qed
next
  case False
  with assms show ?thesis by (simp add: streamDispatch_def dispatch_prog_def budget_view_def Let_def)
qed

lemma doDispatch_view:
  "budget_view (doDispatch sv ev req refs t u dl dr advice g) =
     exec_prog (srv_redis sv) (dispatch_prog sv ev req refs t u advice) (enforcer_state g) (redis_state g)"
proof (cases "ReqStream req")
  case True
  then show ?thesis by (simp add: doDispatch_def streamDispatch_view)
next
  case False
  show ?thesis
  proof (cases "Complete (Select (srv_router sv) (ReqModel req)) req")
    case (Inl err)
    with False show ?thesis by (simp add: doDispatch_def dispatch_prog_def handleProviderError_view Let_def)
  next
    case (Inr resp)
    with False show ?thesis by (simp add: doDispatch_def dispatch_prog_def budget_view_def Let_def)
  qed
qed

lemma reject_view:
  "budget_view (reject sv ev req d outc g) = (reject_reply d outc, enforcer_state g, redis_state g)"
  by (simp add: budget_view_def reject_eq reject_reply_def Let_def finish_def observe_def split: option.split)

lemma check_budget_view:
  "check_budget sv n tm refs t u g = (res, g') \<Longrightarrow>
     CheckAndDecrement (srv_redis sv) n tm (enforcer_state g) refs t u (redis_state g) = (res, enforcer_state g', redis_state g')"
  using check_budget_sel by blast

lemma retry_view:
  "budget_view (case check_budget sv (retry_net ev) (retry_time ev) refs t u g of
      (Inr rd, g) \<Rightarrow> (if Allowed rd then dispatchAdvised sv ev rq refs t u (Advice outc) g else reject sv ev req d outc g)
    | (Inl err, g) \<Rightarrow> reject sv ev req d outc g) =
   exec_prog (srv_redis sv) (retry_prog sv ev rq refs d outc t u) (enforcer_state g) (redis_state g)"
proof (cases "check_budget sv (retry_net ev) (retry_time ev) refs t u g")
  case (Pair res g')
  then show ?thesis
    using check_budget_view [OF Pair]
    by (cases res) (simp_all add: retry_prog_def dispatchAdvised_def doDispatch_view reject_view)
qed

lemma handleBudgetPressure_view:
  "budget_view (handleBudgetPressure sv ev req refs d n t u g) =
     exec_prog (srv_redis sv) (pressure_prog sv ev req refs d n t) (enforcer_state g) (redis_state g)"
  unfolding handleBudgetPressure_def pressure_prog_def Let_def
  by (cases "Action (policy_outcome sv ev req d t)") (simp_all only: action.case retry_view reject_view, simp_all)

lemma handler_view:
  "budget_view (ChatCompletions sv ev cr ident g) =
     exec_prog (srv_redis sv) (request_prog sv ev cr ident (config_state g)) (enforcer_state g) (redis_state g)"
proof (cases "bind_chat (ReqBody cr)")
  case None
  then show ?thesis by (simp add: ChatCompletions_def request_prog_def budget_view_def)
next
  case (Some body)
  let ?refs = "Resolve (config_state g) (IdTenantID ident) (XAgentId cr) (XTaskId cr)"
  let ?req = "request_of ev cr ident body"
  show ?thesis
  proof (cases "?refs = []")
    case True
    with Some show ?thesis
      by (simp add: ChatCompletions_def request_prog_def budget_view_def)
  next
    case False
    show ?thesis
    proof (cases "check_budget sv (check_net ev) (check_time ev) ?refs (est_tokens sv ?req) (est_usd sv ?req) g")
      case (Pair res g')
      from check_budget_view [OF Pair] show ?thesis
        using Some False Pair
        by (cases res) (simp_all add: ChatCompletions_def request_prog_def Let_def dispatch_def doDispatch_view
            handleBudgetPressure_view, simp add: budget_view_def)
    qed
  qed
qed


section \<open>All requests at once\<close>

text \<open>The pool holds the rest of the program of each request; a request that has not started yet, or
  never goes on, takes no step. The client sends a command once here (\<open>Fleet\<close> has the checks that
  are sent again). The enforcer state is that of the request's replica at this moment.\<close>

inductive system_step :: "'s redis \<Rightarrow> (nat \<Rightarrow> prog) \<times> 's \<Rightarrow> nat option \<times> event \<Rightarrow> (nat \<Rightarrow> prog) \<times> 's \<Rightarrow> bool" for rd where
  ask: "pool i = CheckThen net tm refs t u cont \<Longrightarrow> runs_once net \<Longrightarrow>
     CheckAndDecrement rd net tm e refs t u st = (res, e', st') \<Longrightarrow>
     system_step rd (pool, st) (Some i, Check refs t (reported res)) (pool(i := cont res), st')"
| pay: "pool i = SettleThen fault refs et eu act au p \<Longrightarrow> sent_once fault \<Longrightarrow> Reconcile rd fault refs et eu act au st = (err, st') \<Longrightarrow>
     system_step rd (pool, st) (Some i, Settle refs et act err) (pool(i := p), st')"
| expire: "system_step rd (pool, st) (None, Expired key) (pool, drop_key rd st key)"

inductive_cases system_stepE: "system_step rd w l w'"

definition of_request :: "nat \<Rightarrow> (nat option \<times> 'e) list \<Rightarrow> 'e list" where
  "of_request i ls = map snd (filter (\<lambda>l. fst l = Some i) ls)"

text \<open>What a request has taken from the bucket \<open>k\<close>: its reservation while it is in flight, its usage
  once it has settled (a settlement that failed may have refunded, never charged more).\<close>

fun account_event :: "string \<Rightarrow> event \<Rightarrow> int \<Rightarrow> int" where
  "account_event k (Check refs t (Some d)) x = (if Allowed d \<and> mentions k refs then t else x)"
| "account_event k (Check refs t None) x = x"
| "account_event k (Settle refs et act err) x = (if mentions k refs then (if err then min x act else act) else x)"
| "account_event k (Expired key) x = x"

definition exposure :: "string \<Rightarrow> event list \<Rightarrow> int" where
  "exposure k evs = fold (account_event k) evs 0"

text \<open>What a settlement charges beyond the reservation.\<close>

fun overrun :: "string \<Rightarrow> event \<Rightarrow> int" where
  "overrun k (Settle refs et act err) = (if mentions k refs \<and> \<not> err then max 0 (act - et) else 0)"
| "overrun k ev = 0"

lemma exposure_snoc: "exposure k (evs @ [ev]) = account_event k ev (exposure k evs)"
  by (simp add: exposure_def)

lemma overrun_alt: "(if admission k ev then 0 else max 0 (token_charge k ev)) = overrun k ev"
  by (cases "(k, ev)" rule: token_charge.cases) auto

section \<open>The discipline of a request\<close>

definition held :: "bucket_ref list \<Rightarrow> int \<Rightarrow> rat \<Rightarrow> prog \<Rightarrow> bool" where
  "held refs t u p \<longleftrightarrow>
     (\<exists>r. p = Answer r \<or> (\<exists>fault act au. p = SettleThen fault refs t u act au (Answer r)))"

primrec idle :: "prog \<Rightarrow> bool" where
  "idle (Answer r) = True"
| "idle (CheckThen net tm refs t u cont) =
     (\<forall>res. (case res of Inr d \<Rightarrow> if Allowed d then held refs t u (cont res) else idle (cont res)
                       | Inl err \<Rightarrow> idle (cont res)))"
| "idle (SettleThen fault refs et eu act au p) = False"

lemma dispatch_held: "held refs t u (dispatch_prog sv ev req refs t u advice)"
  by (auto simp: dispatch_prog_def stream_prog_def held_def Let_def split: sum.split prod.split option.split)

lemma retry_idle: "idle (retry_prog sv ev rq refs d outc t u)"
  by (simp add: retry_prog_def dispatch_held split: sum.split)

lemma request_idle: "idle (request_prog sv ev cr ident cfg)"
proof -
  have "idle (pressure_prog sv ev req refs d n t)" for req refs d n t
    by (simp add: pressure_prog_def Let_def retry_idle split: action.split)
  then show ?thesis by (simp add: request_prog_def Let_def dispatch_held split: option.split sum.split)
qed

text \<open>The state of a request after its events \<open>evs\<close>.\<close>

definition disciplined :: "string \<Rightarrow> prog \<Rightarrow> event list \<Rightarrow> bool" where
  "disciplined k p evs \<longleftrightarrow> (\<Sum>ev\<leftarrow>evs. token_charge k ev) = exposure k evs \<and>
     (idle p \<and> exposure k evs = 0 \<or> (\<exists>refs t u. held refs t u p \<and> exposure k evs = (if mentions k refs then t else 0)) \<or>
      (\<exists>r. p = Answer r))"

lemma disciplined_ask:
  assumes "disciplined k (CheckThen net tm refs t u cont) evs"
  shows "disciplined k (cont res) (evs @ [Check refs t (reported res)])"
proof -
  have i: "idle (CheckThen net tm refs t u cont)" "exposure k evs = 0" "(\<Sum>ev\<leftarrow>evs. token_charge k ev) = 0"
    using assms by (auto simp: disciplined_def held_def)
  show ?thesis
  proof (cases res)
    case (Inl err)
    with i have "idle (cont res)" by (auto dest: spec [of _ res])
    with i Inl show ?thesis by (simp add: disciplined_def exposure_snoc reported_def)
  next
    case (Inr d)
    with i(1) have cont: "if Allowed d then held refs t u (cont res) else idle (cont res)" by (auto dest: spec [of _ res])
    show ?thesis
    proof (cases "Allowed d")
      case True
      with cont have "held refs t u (cont res)" by simp
      then have "\<exists>refs' t' u'. held refs' t' u' (cont res) \<and> (if mentions k refs then t else 0) = (if mentions k refs' then t' else 0)"
        by blast
      with i True Inr show ?thesis by (simp add: disciplined_def exposure_snoc reported_def)
    next
      case False
      with cont have "idle (cont res)" by simp
      with i False Inr show ?thesis by (simp add: disciplined_def exposure_snoc reported_def)
    qed
  qed
qed

lemma disciplined_pay:
  assumes "disciplined k (SettleThen fault refs et eu act au p) evs"
  shows "disciplined k p (evs @ [Settle refs et act err])"
proof -
  have "exposure k evs = (if mentions k refs then et else 0)" "(\<Sum>ev\<leftarrow>evs. token_charge k ev) = exposure k evs"
    "\<exists>r. p = Answer r" using assms by (auto simp: disciplined_def held_def)
  then show ?thesis by (auto simp: disciplined_def exposure_snoc)
qed

lemma of_request_snoc: "of_request i (ls @ [l]) = of_request i ls @ (if fst l = Some i then [snd l] else [])"
  by (simp add: of_request_def)

lemma system_disciplined:
  assumes "run (system_step rd) w ls w'" "\<forall>i. idle (fst w i)"
  shows "disciplined k (fst w' i) (of_request i ls)"
  using assms(1)
proof (induction rule: run_invariant)
  case start
  show ?case using assms(2) by (simp add: disciplined_def of_request_def exposure_def)
next
  case (step ls w1 l w2)
  from step(2) show ?case
  proof cases
    case (ask pool j net tm refs t u cont e st res e' st')
    then show ?thesis
      using step(3) by (cases "i = j") (auto simp: of_request_snoc intro: disciplined_ask)
  next
    case (pay pool j fault refs et eu act au p st err st')
    then show ?thesis
      using step(3) by (cases "i = j") (auto simp: of_request_snoc intro: disciplined_pay)
  next
    case (expire pool st key)
    then show ?thesis using step(3) by (simp add: of_request_snoc)
  qed
qed

section \<open>From the system to the budget store\<close>

lemma system_budget_step: "system_step rd w l w' \<Longrightarrow> budget_step rd (snd w) (snd l) (snd w')"
  by (erule system_stepE)
    (auto simp: reported_def intro: budget_step.check budget_step.settle budget_step.expired)

lemma system_budget_run: "run (system_step rd) w ls w' \<Longrightarrow> run (budget_step rd) (snd w) (map snd ls) (snd w')"
  by (induction rule: run.induct) (auto intro: run_Nil run_snoc dest: system_budget_step)

text \<open>The charges of all requests are those of all events; key expiries charge nothing.\<close>

definition requests_of :: "(nat option \<times> 'e) list \<Rightarrow> nat set" where
  "requests_of ls = {i. Some i \<in> fst ` set ls}"

lemma finite_requests [simp]: "finite (requests_of ls)"
proof -
  have "requests_of ls = the ` (fst ` set ls - {None})" by (force simp: requests_of_def)
  then show ?thesis by simp
qed

lemma charge_by_request:
  fixes f :: "'e \<Rightarrow> 'n :: comm_monoid_add"
  assumes "finite I" "requests_of ls \<subseteq> I" "\<forall>l\<in>set ls. fst l = None \<longrightarrow> f (snd l) = 0"
  shows "(\<Sum>l\<leftarrow>ls. f (snd l)) = (\<Sum>i\<in>I. \<Sum>ev\<leftarrow>of_request i ls. f ev)"
  using assms(2,3)
proof (induction ls)
  case (Cons l ls)
  have IH: "(\<Sum>l\<leftarrow>ls. f (snd l)) = (\<Sum>i\<in>I. \<Sum>ev\<leftarrow>of_request i ls. f ev)"
    using Cons by (auto simp: requests_of_def)
  have "(\<Sum>i\<in>I. if fst l = Some i then f (snd l) else 0) = f (snd l)"
  proof (cases "fst l")
    case None
    then show ?thesis using Cons.prems(2) by simp
  next
    case (Some j)
    then have "j \<in> I" using Cons.prems(1) by (auto simp: requests_of_def)
    then show ?thesis using Some assms(1) by (simp add: sum.delta)
  qed
  moreover have "(\<Sum>i\<in>I. \<Sum>ev\<leftarrow>of_request i (l # ls). f ev) =
      (\<Sum>i\<in>I. (if fst l = Some i then f (snd l) else 0) + (\<Sum>ev\<leftarrow>of_request i ls. f ev))"
    by (intro sum.cong) (auto simp: of_request_def)
  ultimately show ?case using IH by (simp add: sum.distrib)
qed (simp add: of_request_def)

lemma system_charge:
  assumes "run (system_step rd) w ls w'" "\<forall>i. idle (fst w i)"
  shows "(\<Sum>ev\<leftarrow>map snd ls. token_charge k ev) = (\<Sum>i\<in>requests_of ls. exposure k (of_request i ls))"
proof -
  have "\<forall>l\<in>set ls. fst l = None \<longrightarrow> token_charge k (snd l) = 0"
    using assms(1)
  proof (induction rule: run_invariant)
    case (step ls w1 l w2)
    from step(2) have "fst l = None \<longrightarrow> token_charge k (snd l) = 0" by cases simp_all
    with step(3) show ?case by simp
  qed simp
  from charge_by_request [OF finite_requests subset_refl this]
  have "(\<Sum>l\<leftarrow>ls. token_charge k (snd l)) = (\<Sum>i\<in>requests_of ls. \<Sum>ev\<leftarrow>of_request i ls. token_charge k ev)" .
  moreover have "(\<Sum>ev\<leftarrow>of_request i ls. token_charge k ev) = exposure k (of_request i ls)" for i
    using system_disciplined [OF assms, of k i] by (simp add: disciplined_def)
  ultimately show ?thesis by (simp add: comp_def)
qed

section \<open>No overspend across requests\<close>



end
