(* ===== verification/Resent.thy ===== *)
theory Resent
  imports Ledger
begin

text \<open>
  Commands that the client sends again. The client library repeats a command or a pipeline when the
  connection fails before the reply has arrived, and neither the script nor the increments are
  idempotent: a check that was run and sent again reserves twice, and a reconciliation gives back
  twice. The first is on the safe side, and \<open>Fleet\<close> has it in its runs; the second is not.
\<close>

section \<open>Checks\<close>

definition delivered :: "net \<Rightarrow> net" where
  "delivered net = net\<lparr>resent := []\<rparr>"

lemma delivered_sel [simp]:
  "evalsha_fault (delivered net) = evalsha_fault net" "eval_fault (delivered net) = eval_fault net"
  "load_result (delivered net) = load_result net" "resent (delivered net) = []"
  by (simp_all add: delivered_def)

lemma eval_delivered: "eval (delivered net) = eval net"
  unfolding eval_def eval_fallback_def LoadScript_def delivered_sel ..

lemma call_delivered:
  "refs \<noteq> [] \<Longrightarrow> CheckAndDecrement rd net tm e refs t u st =
     CheckAndDecrement rd (delivered net) tm e refs t u
       (rerun (\<lambda>tm. lua_script rd tm (map RefKey refs) (script_argv e refs t u)) (resent net) st)"
  by (simp add: CheckAndDecrement_def eval_delivered Let_def)

text \<open>A check whose first run was lost has reserved twice, and the caller knows of one reservation.\<close>

theorem resent_check_reserves_twice:
  assumes "redis_laws rd" "refs \<noteq> []" "distinct (map RefKey refs)" "resent net = [tm0]" "reachable_backend (delivered net) e"
    and "0 \<le> t" "0 \<le> u" "enough rd (lua_now tm0) st refs (f64_of_int t) u"
    and "CheckAndDecrement rd net tm e refs t u st = (Inr d, e', st1)" "Allowed d"
    and "r \<in> set refs" "0 < TokenLimit (Limits r)" "TokenLimit (Limits r) \<le> 10 ^ 14" "RefillTokensPerSec (Limits r) = 0"
    and "computed_tokens (view rd (lua_now tm0) st r) = of_int b"
  shows "hget rd st1 (RefKey r) ''tokens_remaining'' = Some (of_int (b - 2 * t))"
proof -
  let ?s0 = "committed rd (lua_now tm0) e refs (f64_of_int t) u st"
  have "\<forall>c\<in>set (map (view rd (lua_now tm0) st) refs). \<not> short (f64_of_int t) u c"
    using assms(8) by (auto simp: enough_def)
  then have "snd (lua_script rd tm0 (map RefKey refs) (script_argv e refs t u) st) = ?s0"
    using assms(6,7) find_index_None_iff [of "short (f64_of_int t) u" "map (view rd (lua_now tm0) st) refs"]
    by (simp add: lua_script_refs Let_def)
  then have call: "CheckAndDecrement rd (delivered net) tm e refs t u ?s0 = (Inr d, e', st1)"
    using assms(9) unfolding call_delivered [OF assms(2), of rd net tm] by (simp add: assms(4))
  have b: "b \<le> TokenLimit (Limits r)"
    using view_tokens_le [OF assms(12), of rd "lua_now tm0" st] assms(12,13,15) by (simp add: f64_of_int_exact)
  have ft: "f64_of_int t \<le> of_int b" using assms(8,11,12,15) by (auto simp: enough_iff)
  have b14: "b \<le> 10 ^ 14" using b assms(13) by simp
  note left = left_tokens_int [OF assms(15,6) ft b14]
  have "hget rd ?s0 (RefKey r) ''tokens_remaining'' = Some (of_int (b - t))"
    unfolding committed_bucket(1) [OF assms(1,3,11)] left(2) ..
  moreover have "f64 (of_int (b - t)) = of_int (b - t)" using left(1) assms(6) b14 by (intro f64_short_int) simp
  ultimately have "computed_tokens (view rd (lua_now tm) ?s0 r) = of_int (b - t)"
    using b assms(6) by (simp add: view_fixed [OF refl assms(14,12,13)] min_def)
  note adm = admitted_int [OF assms(5,2) call assms(10-13) this]
  have "hget rd st1 (RefKey r) ''tokens_remaining'' = Some (of_int (b - t - t))"
    unfolding adm(4) committed_bucket(1) [OF assms(1,3,11)] adm(5) ..
  then show ?thesis by (simp add: algebra_simps)
qed

section \<open>Reconciliations\<close>

text \<open>A pipeline that was run and sent again is two reconciliations.\<close>

lemma length_reconcile_cmds: "length (concat (map (reconcile_cmds dt du) refs)) \<le> 2 * length refs"
  by (induction refs) (auto simp: reconcile_cmds_def)

lemma Reconcile_resent:
  assumes "2 * length refs \<le> n"
  shows "Reconcile rd ([n], None) refs et eu act au st =
    Reconcile rd no_fault refs et eu act au (snd (Reconcile rd no_fault refs et eu act au st))"
proof -
  let ?cmds = "concat (map (reconcile_cmds (f64_of_int (wrap64 (et - act))) (f64_sub eu au)) refs)"
  have "length ?cmds \<le> n" using length_reconcile_cmds [of "f64_of_int (wrap64 (et - act))" "f64_sub eu au" refs] assms by simp
  then have "pipe_attempts ([n], None) ?cmds = ?cmds @ ?cmds" by (simp add: pipe_attempts_def)
  then show ?thesis by (simp add: Reconcile_def Let_def pipe_exec_def)
qed

text \<open>C22: a reconciliation that the client sends again gives back twice. The increments are not idempotent,
  and the client library sends a pipeline again when the connection fails before all replies have arrived. If
  the server had run it, a call that reserved \<open>t\<close> tokens and used \<open>act\<close> leaves the bucket with \<open>b + t - 2 * act\<close>
  instead of \<open>b - act\<close>: more than before the call, when less than half of the reservation was used.\<close>

theorem resent_refund_counts_twice:
  assumes "redis_laws rd" "reachable_backend net e" "refs \<noteq> []" "distinct (map RefKey refs)"
    and "CheckAndDecrement rd net tm e refs t u st = (Inr d, e', st1)" "Allowed d"
    and "2 * length refs \<le> n" "Reconcile rd ([n], None) refs t u act au st1 = (err, st2)"
    and "r \<in> set refs" "0 < TokenLimit (Limits r)" "TokenLimit (Limits r) \<le> 10 ^ 14" "\<bar>act\<bar> \<le> 2 ^ 52"
    and "computed_tokens (view rd (lua_now tm) st r) = of_int b"
  shows "\<not> err \<and> hget rd st2 (RefKey r) ''tokens_remaining'' = Some (of_int (b + t - 2 * act))"
proof -
  obtain err1 sm where one: "Reconcile rd no_fault refs t u act au st1 = (err1, sm)" by fastforce
  have two: "Reconcile rd no_fault refs t u act au sm = (err, st2)"
    using assms(8) unfolding Reconcile_resent [OF assms(7)] one by simp
  have sm: "hget rd sm (RefKey r) ''tokens_remaining'' = Some (of_int (b - act))"
    using charge_after_reconcile [OF assms(1-6) one assms(9-13)] by simp
  have t: "0 \<le> t" "t \<le> 10 ^ 14" "\<bar>b\<bar> \<le> 10 ^ 14"
    using admitted_int(1-3) [OF assms(2,3,5,6,9-11,13)] by auto
  have dt: "f64_of_int (wrap64 (t - act)) = of_int (t - act)" using t assms(12) by (intro wrap64_diff) auto
  have "incr_sum rd (of_int (b - act)) (of_int (t - act)) = of_int ((b - act) + (t - act))"
    using t assms(12) by (intro incr_sum_of_int [OF assms(1)]) auto
  then show ?thesis
    using Reconcile_ok_hget(1) [OF assms(1,4,9) two] Reconcile_ok_hget(2) [OF assms(1,4,9) two, of "''tokens_remaining''"] sm
    by (simp add: dt delta_of_def assms(10))
qed

lemma resent_refund_counts_twice_witness:
  "\<exists>d e' st1 err st2. CheckAndDecrement mem_redis net_ok (0, 0) (NewEnforcer 3600) [tenant_ref ''t'' 1000] 300 0
       (hset mem_redis mem_empty ''budget:t:-:-'' [(''tokens_remaining'', 400)]) = (Inr d, e', st1) \<and>
     Reconcile mem_redis ([2], None) [tenant_ref ''t'' 1000] 300 0 20 0 st1 = (err, st2) \<and>
     hget mem_redis st2 ''budget:t:-:-'' ''tokens_remaining'' = Some 660"
proof -
  let ?refs = "[tenant_ref ''t'' 1000]" and ?st = "hset mem_redis mem_empty ''budget:t:-:-'' [(''tokens_remaining'', 400)]"
  have view: "computed_tokens (view mem_redis (lua_now (0, 0)) ?st (tenant_ref ''t'' 1000)) = 400" by (simp add: closed_view)
  then have "enough mem_redis (lua_now (0, 0)) ?st ?refs (f64_of_int 300) 0" by (simp add: enough_iff closed_refs)
  then obtain d e' st1 where call: "CheckAndDecrement mem_redis net_ok (0, 0) (NewEnforcer 3600) ?refs 300 0 ?st = (Inr d, e', st1)"
    "Allowed d" by (rule allowed_call [rotated 4, where net = net_ok and e = "NewEnforcer 3600"]) (simp_all add: closed_refs)
  obtain err st2 where rec: "Reconcile mem_redis ([2], None) ?refs 300 0 20 0 st1 = (err, st2)" by fastforce
  have "hget mem_redis st2 ''budget:t:-:-'' ''tokens_remaining'' = Some 660"
    using resent_refund_counts_twice [OF redis_laws_mem _ _ _ call _ rec, of "tenant_ref ''t'' 1000" 400] view
    by (simp add: closed_refs)
  with call(1) rec show ?thesis by blast
qed

end
