(* ===== verification/Fleet.thy ===== *)
theory Fleet
  imports System Resent
begin

text \<open>
  The pool of requests at the grain of the commands Redis executes. A check is one command; a
  reconciliation is the list of increments the server runs, sent one by one, with commands of other
  requests, expiries and time in between. A connection that breaks cuts the list short. The
  client may send checks again, but not reconciliations (\<open>Resent\<close> shows why). The
  discipline of a request is shown on the commands themselves, one reservation and at most one
  increment of each balance after it, and carries the theorems of \<open>Timed\<close> over to the pool.
\<close>

section \<open>The increments of a reconciliation\<close>

text \<open>What the server runs of a reconciliation, with a connection that may break.\<close>

definition sent_cmds :: "pipe_fault \<Rightarrow> bucket_ref list \<Rightarrow> int \<Rightarrow> rat \<Rightarrow> int \<Rightarrow> rat \<Rightarrow> incr list" where
  "sent_cmds fault refs et eu act au =
     pipe_attempts fault (concat (map (reconcile_cmds (f64_of_int (wrap64 (et - act))) (f64_sub eu au)) refs))"

lemma reconcile_cmds_0 [simp]: "concat (map (reconcile_cmds 0 0) refs) = []"
  by (simp add: reconcile_cmds_def)

lemma Reconcile_sent:
  "snd (Reconcile rd fault refs et eu act au st) = fold (run_incr rd) (sent_cmds fault refs et eu act au) st"
proof (cases "f64_of_int (wrap64 (et - act)) = 0 \<and> f64_sub eu au = 0")
  case True
  then show ?thesis by (simp add: Reconcile_def sent_cmds_def Let_def)
next
  case False
  then show ?thesis by (auto simp: Reconcile_def sent_cmds_def pipe_exec_def Let_def)
qed

section \<open>Jobs\<close>

text \<open>A request between two commands: at a point of its program, or with increments still to be run.\<close>

datatype job =
  AtStep prog
| Paying "incr list" prog

primrec resume :: "prog \<Rightarrow> job" where
  "resume (Answer r) = AtStep (Answer r)"
| "resume (CheckThen net tm refs t u cont) = AtStep (CheckThen net tm refs t u cont)"
| "resume (SettleThen fault refs et eu act au p) =
     (case sent_cmds fault refs et eu act au of [] \<Rightarrow> resume p | c # cs \<Rightarrow> Paying (c # cs) p)"

text \<open>
  A check that is sent again is several commands: the server ran the script for each (\<open>lost\<close>), and the
  answer to the last one is the answer of the call.
\<close>

inductive fleet_step ::
  "'s redis \<Rightarrow> int \<Rightarrow> (nat \<Rightarrow> job) \<times> 's \<times> rat \<Rightarrow> nat option \<times> rat \<times> command \<Rightarrow> (nat \<Rightarrow> job) \<times> 's \<times> rat \<Rightarrow> bool"
for rd life where
  ask: "jobs i = AtStep (CheckThen net tm refs t u cont) \<Longrightarrow> 0 \<le> dt \<Longrightarrow> runs_once (delivered net) \<Longrightarrow>
     stateTTL e = life \<Longrightarrow> lua_now tm = T + dt \<Longrightarrow> CheckAndDecrement rd (delivered net) tm e refs t u st = (res, e', st') \<Longrightarrow>
     fleet_step rd life (jobs, st, T) (Some i, dt, Asked refs t u (reported res)) (jobs(i := resume (cont res)), st', T + dt)"
| lost: "jobs i = AtStep (CheckThen net tm refs t u cont) \<Longrightarrow> 0 \<le> dt \<Longrightarrow> refs \<noteq> [] \<Longrightarrow>
     stateTTL e = life \<Longrightarrow> lua_now tm' = T + dt \<Longrightarrow>
     fleet_step rd life (jobs, st, T) (Some i, dt, Asked refs t u None)
       (jobs, snd (lua_script rd tm' (map RefKey refs) (script_argv e refs t u) st), T + dt)"
| pay: "jobs i = Paying ((k, f, x) # cs) p \<Longrightarrow> 0 \<le> dt \<Longrightarrow>
     fleet_step rd life (jobs, st, T) (Some i, dt, Added k f x)
       (jobs(i := (if cs = [] then resume p else Paying cs p)), run_incr rd (k, f, x) st, T + dt)"
| lapse: "0 \<le> dt \<Longrightarrow> lapsed life (T + dt) (hget rd st k) \<Longrightarrow>
     fleet_step rd life (jobs, st, T) (None, dt, Gone k (hget rd st k)) (jobs, drop_key rd st k, T + dt)"

inductive_cases fleet_stepE: "fleet_step rd life w l w'"

text \<open>A lost check is one that failed after the server had run it.\<close>

definition lost_reply :: net where
  "lost_reply = \<lparr>resent = [], evalsha_fault = Some (''EOF'', True), eval_fault = Some (''EOF'', True), load_result = None\<rparr>"

lemma lost_call:
  "refs \<noteq> [] \<Longrightarrow> CheckAndDecrement rd lost_reply tm e refs t u st =
     (Inl (ErrBackendUnavailable ''EOF''), e, snd (lua_script rd tm (map RefKey refs) (script_argv e refs t u) st))"
  by (simp add: CheckAndDecrement_def lost_reply_def eval_def eval_fallback_def run_cmd_def isNoScriptErr_def)

lemma fleet_timed_step: "fleet_step rd life w l w' \<Longrightarrow> timed_step rd life (snd w) (snd l) (snd w')"
proof -
  assume "fleet_step rd life w l w'"
  then show ?thesis
  proof cases
    case (lost jobs i net tm refs t u cont dt e tm' T st)
    have "runs_once lost_reply" by (simp add: runs_once_def lost_reply_def isNoScriptErr_def)
    then have "timed_step rd life (st, T) (dt, Asked refs t u (reported (Inl (ErrBackendUnavailable ''EOF''))))
        (snd (lua_script rd tm' (map RefKey refs) (script_argv e refs t u) st), T + dt)"
      by (rule timed_step.asked [OF lost(5) _ lost(7,8) lost_call [OF lost(6)]])
    then show ?thesis by (simp add: lost reported_def)
  qed (auto intro: timed_step.asked timed_step.added timed_step.gone)
qed

lemma fleet_timed_run: "run (fleet_step rd life) w ls w' \<Longrightarrow> run (timed_step rd life) (snd w) (map snd ls) (snd w')"
  by (induction rule: run.induct) (auto intro: run_Nil run_snoc dest: fleet_timed_step)

section \<open>A program run alone\<close>

text \<open>The clock of a program goes forward, and no answer is \<open>NOSCRIPT\<close> after the script was run.\<close>

primrec clocked :: "rat \<Rightarrow> prog \<Rightarrow> bool" where
  "clocked T (Answer r) = True"
| "clocked T (CheckThen net tm refs t u cont) =
     (sorted (T # map lua_now (resent net) @ [lua_now tm]) \<and> runs_once (delivered net) \<and> (\<forall>res. clocked (lua_now tm) (cont res)))"
| "clocked T (SettleThen fault refs et eu act au p) = clocked T p"

lemma pay_all:
  assumes "jobs i = Paying (c # cs) p"
  shows "\<exists>ls. run (fleet_step rd life) (jobs, st, T) ls (jobs(i := resume p), fold (run_incr rd) (c # cs) st, T) \<and>
    fst ` set ls \<subseteq> {Some i}"
  using assms
proof (induction cs arbitrary: jobs st c)
  case Nil
  obtain k f x where c: "c = (k, f, x)" by (cases c)
  have "fleet_step rd life (jobs, st, T) (Some i, 0, Added k f x)
      (jobs(i := (if ([] :: incr list) = [] then resume p else Paying [] p)), run_incr rd (k, f, x) st, T + 0)"
    by (rule fleet_step.pay) (use Nil in \<open>simp_all add: c\<close>)
  then have "fleet_step rd life (jobs, st, T) (Some i, 0, Added k f x) (jobs(i := resume p), fold (run_incr rd) [c] st, T)"
    by (simp add: c)
  then have "run (fleet_step rd life) (jobs, st, T) [(Some i, 0, Added k f x)] (jobs(i := resume p), fold (run_incr rd) [c] st, T)"
    by (rule run_one)
  then show ?case by (intro exI conjI) (assumption, simp)
next
  case (Cons c' cs)
  obtain k f x where c: "c = (k, f, x)" by (cases c)
  have "fleet_step rd life (jobs, st, T) (Some i, 0, Added k f x)
      (jobs(i := (if c' # cs = [] then resume p else Paying (c' # cs) p)), run_incr rd (k, f, x) st, T + 0)"
    by (rule fleet_step.pay) (use Cons.prems in \<open>simp_all add: c\<close>)
  then have step: "fleet_step rd life (jobs, st, T) (Some i, 0, Added k f x) (jobs(i := Paying (c' # cs) p), run_incr rd (k, f, x) st, T)"
    by simp
  have "(jobs(i := Paying (c' # cs) p)) i = Paying (c' # cs) p" by simp
  from Cons.IH [where jobs = "jobs(i := Paying (c' # cs) p)" and c = c' and st = "run_incr rd (k, f, x) st", OF this]
  obtain ls where
    ls: "run (fleet_step rd life) (jobs(i := Paying (c' # cs) p), run_incr rd (k, f, x) st, T) ls
      (jobs(i := resume p), fold (run_incr rd) (c' # cs) (run_incr rd (k, f, x) st), T)" "fst ` set ls \<subseteq> {Some i}"
    unfolding fun_upd_upd by blast
  from run_Cons [where step = "fleet_step rd life", OF step ls(1)] ls(2) show ?case
    unfolding c fold_simps by (intro exI conjI) (assumption, simp)
qed

lemma check_keeps_ttl:
  "CheckAndDecrement rd net tm e refs t u st = (res, e', st') \<Longrightarrow> stateTTL e' = stateTTL e"
  by (auto simp: CheckAndDecrement_def eval_def eval_fallback_def LoadScript_def Let_def split: if_splits option.splits prod.splits sum.splits)

lemma lost_all:
  fixes rd :: "'s redis" and e :: enforcer
  assumes "sorted (T # map lua_now tms)" "refs \<noteq> []" "jobs i = AtStep (CheckThen net tm refs t u cont)"
  defines "script \<equiv> (\<lambda>tm. lua_script rd tm (map RefKey refs) (script_argv e refs t u))"
  shows "\<exists>ls. run (fleet_step rd (stateTTL e)) (jobs, st, T) ls (jobs, rerun script tms st, last (T # map lua_now tms)) \<and>
    fst ` set ls \<subseteq> {Some i}"
  using assms(1)
proof (induction tms arbitrary: T st)
  case Nil
  then show ?case by (auto intro!: exI [of _ "[]"] run_Nil)
next
  case (Cons tm1 tms)
  have "fleet_step rd (stateTTL e) (jobs, st, T) (Some i, lua_now tm1 - T, Asked refs t u None)
      (jobs, snd (lua_script rd tm1 (map RefKey refs) (script_argv e refs t u) st), T + (lua_now tm1 - T))"
    by (rule fleet_step.lost [where jobs = jobs and i = i and net = net and tm = tm and cont = cont and e = e and tm' = tm1])
      (use assms(2,3) Cons.prems in auto)
  then have step: "fleet_step rd (stateTTL e) (jobs, st, T) (Some i, lua_now tm1 - T, Asked refs t u None)
      (jobs, snd (script tm1 st), lua_now tm1)" by (simp add: script_def)
  have "sorted (lua_now tm1 # map lua_now tms)" using Cons.prems by simp
  from Cons.IH [OF this, of "snd (script tm1 st)"] obtain ls where
    ls: "run (fleet_step rd (stateTTL e)) (jobs, snd (script tm1 st), lua_now tm1) ls
      (jobs, rerun script tms (snd (script tm1 st)), last (lua_now tm1 # map lua_now tms))" "fst ` set ls \<subseteq> {Some i}" by blast
  from run_Cons [where step = "fleet_step rd (stateTTL e)", OF step ls(1)] ls(2) show ?case
    by (intro exI [of _ "(Some i, lua_now tm1 - T, Asked refs t u None) # ls"] conjI) (simp_all)
qed

text \<open>A check, with the runs whose replies were lost before it.\<close>

lemma check_alone:
  assumes "sorted (T # map lua_now (resent net) @ [lua_now tm])" "runs_once (delivered net)"
    and "jobs i = AtStep (CheckThen net tm refs t u cont)" "CheckAndDecrement rd net tm e refs t u st = (res, e1, st1)"
  shows "\<exists>ls. run (fleet_step rd (stateTTL e)) (jobs, st, T) ls (jobs(i := resume (cont res)), st1, lua_now tm) \<and>
    fst ` set ls \<subseteq> {Some i}"
proof -
  have one: "\<exists>ls. run (fleet_step rd (stateTTL e)) (jobs, st0, T0) ls (jobs(i := resume (cont res)), st1, lua_now tm) \<and>
      fst ` set ls \<subseteq> {Some i}"
    if "T0 \<le> lua_now tm" "CheckAndDecrement rd (delivered net) tm e refs t u st0 = (res, e1, st1)" for T0 st0
  proof -
    have "fleet_step rd (stateTTL e) (jobs, st0, T0) (Some i, lua_now tm - T0, Asked refs t u (reported res))
        (jobs(i := resume (cont res)), st1, T0 + (lua_now tm - T0))"
      by (rule fleet_step.ask [where jobs = jobs and i = i and net = net and tm = tm and cont = cont and e = e and e' = e1])
        (use assms(2,3) that in simp_all)
    from run_one [where step = "fleet_step rd (stateTTL e)", OF this] show ?thesis
      by (intro exI conjI) (simp, simp)
  qed
  show ?thesis
  proof (cases "refs = []")
    case True
    then have "CheckAndDecrement rd (delivered net) tm e refs t u st = (res, e1, st1)"
      using assms(4) by (simp add: CheckAndDecrement_def)
    moreover have "T \<le> lua_now tm" using assms(1) by simp
    ultimately show ?thesis by (intro one)
  next
    case False
    let ?tms = "resent net" and ?script = "\<lambda>tm. lua_script rd tm (map RefKey refs) (script_argv e refs t u)"
    have "sorted (T # map lua_now ?tms)" "last (T # map lua_now ?tms) \<le> lua_now tm"
      using assms(1) last_in_set [of "map lua_now ?tms"] by (auto simp: sorted_append)
    from lost_all [where jobs = jobs and i = i and rd = rd and e = e and st = st, OF this(1) False assms(3)] obtain ls where
      ls: "run (fleet_step rd (stateTTL e)) (jobs, st, T) ls (jobs, rerun ?script ?tms st, last (T # map lua_now ?tms))"
        "fst ` set ls \<subseteq> {Some i}" by blast
    have "CheckAndDecrement rd (delivered net) tm e refs t u (rerun ?script ?tms st) = (res, e1, st1)"
      using assms(4) unfolding call_delivered [OF False, of rd net tm] .
    from one [OF \<open>last (T # map lua_now ?tms) \<le> lua_now tm\<close> this] obtain ls' where
      ls': "run (fleet_step rd (stateTTL e)) (jobs, rerun ?script ?tms st, last (T # map lua_now ?tms)) ls'
          (jobs(i := resume (cont res)), st1, lua_now tm)" "fst ` set ls' \<subseteq> {Some i}" by blast
    from run_append [OF ls(1) ls'(1)] ls(2) ls'(2) show ?thesis
      by (intro exI [of _ "ls @ ls'"] conjI) auto
  qed
qed

lemma program_alone:
  assumes "clocked T p" "stateTTL e = life" "exec_prog rd p e st = (r, e', st')"
  shows "\<exists>ls T'. run (fleet_step rd life) (jobs(i := resume p), st, T) ls (jobs(i := AtStep (Answer r)), st', T') \<and>
    fst ` set ls \<subseteq> {Some i}"
  using assms
proof (induction p arbitrary: jobs T e st)
  case (Answer r')
  then show ?case by (auto intro!: exI [of _ "[]"] run_Nil)
next
  case (CheckThen net tm refs t u cont)
  obtain res e1 st1 where call: "CheckAndDecrement rd net tm e refs t u st = (res, e1, st1)"
    using prod_cases3 by blast
  let ?jobs = "jobs(i := resume (CheckThen net tm refs t u cont))"
  have "?jobs i = AtStep (CheckThen net tm refs t u cont)" by simp
  from check_alone [where jobs = ?jobs and i = i and T = T, OF _ _ this call] CheckThen.prems(1,2) obtain ls0 where
    ls0: "run (fleet_step rd life) (?jobs, st, T) ls0 (jobs(i := resume (cont res)), st1, lua_now tm)" "fst ` set ls0 \<subseteq> {Some i}"
    by auto
  have "clocked (lua_now tm) (cont res)" "stateTTL e1 = life" "exec_prog rd (cont res) e1 st1 = (r, e', st')"
    using CheckThen.prems call check_keeps_ttl [OF call] by auto
  from CheckThen.IH [OF rangeI this, of jobs] obtain ls T' where
    ls: "run (fleet_step rd life) (jobs(i := resume (cont res)), st1, lua_now tm) ls (jobs(i := AtStep (Answer r)), st', T')"
      "fst ` set ls \<subseteq> {Some i}" by blast
  from run_append [OF ls0(1) ls(1)] ls0(2) ls(2) show ?case
    by (intro exI [of _ "ls0 @ ls"] exI [of _ T'] conjI) (assumption, auto)
next
  case (SettleThen fault refs et eu act au p)
  let ?cmds = "sent_cmds fault refs et eu act au" and ?jobs = "jobs(i := resume (SettleThen fault refs et eu act au p))"
  have "\<exists>ls. run (fleet_step rd life) (?jobs, st, T) ls (jobs(i := resume p), fold (run_incr rd) ?cmds st, T) \<and> fst ` set ls \<subseteq> {Some i}"
  proof (cases ?cmds)
    case Nil
    then show ?thesis by (auto intro!: exI [of _ "[]"] run_Nil)
  next
    case (Cons c cs)
    then have "?jobs i = Paying (c # cs) p" by simp
    from pay_all [where jobs = ?jobs and i = i, OF this, of rd life st T] show ?thesis unfolding Cons by simp
  qed
  then obtain ls where ls: "run (fleet_step rd life) (?jobs, st, T) ls (jobs(i := resume p), fold (run_incr rd) ?cmds st, T)"
    "fst ` set ls \<subseteq> {Some i}" by blast
  have "exec_prog rd p e (fold (run_incr rd) ?cmds st) = (r, e', st')" "clocked T p"
    using SettleThen.prems by (simp_all add: Reconcile_sent)
  from SettleThen.IH [OF this(2) SettleThen.prems(2) this(1), of jobs] obtain ls' T' where
    ls': "run (fleet_step rd life) (jobs(i := resume p), fold (run_incr rd) ?cmds st, T) ls' (jobs(i := AtStep (Answer r)), st', T')"
      "fst ` set ls' \<subseteq> {Some i}" by blast
  from run_append [OF ls(1) ls'(1)] ls(2) ls'(2) show ?case
    by (intro exI [of _ "ls @ ls'"] exI [of _ T'] conjI) (assumption, auto)
qed

section \<open>The discipline of a request\<close>

fun touches :: "string \<Rightarrow> dimension \<Rightarrow> command \<Rightarrow> bool" where
  "touches k d (Asked refs t u dec) \<longleftrightarrow> granted k (Asked refs t u dec)"
| "touches k d (Added k' f x) \<longleftrightarrow> k' = k \<and> f = dim_field d"
| "touches k d (Gone k' h) \<longleftrightarrow> False"

text \<open>What a settlement gives back of a reservation.\<close>

fun refund :: "dimension \<Rightarrow> int \<Rightarrow> rat \<Rightarrow> int \<Rightarrow> rat \<Rightarrow> rat" where
  "refund TokenDim t u act au = f64_of_int (wrap64 (t - act))"
| "refund DollarDim t u act au = f64_sub u au"

lemma sent_incrs:
  assumes "distinct (map RefKey refs)" "sent_once fault"
  shows "incrs_of k (dim_field d) (sent_cmds fault refs t u act au) = [] \<or>
    mentions k refs \<and> incrs_of k (dim_field d) (sent_cmds fault refs t u act au) = [(k, dim_field d, refund d t u act au)]"
proof -
  let ?f = "dim_field d"
  let ?cmds = "concat (map (reconcile_cmds (f64_of_int (wrap64 (t - act))) (f64_sub u au)) refs)"
  have all: "incrs_of k ?f ?cmds = [] \<or> mentions k refs \<and> incrs_of k ?f ?cmds = [(k, ?f, refund d t u act au)]"
  proof (cases "mentions k refs")
    case True
    then obtain r where r: "r \<in> set refs" "RefKey r = k" by (auto simp: mentions_def)
    have "delta_of (f64_of_int (wrap64 (t - act))) (f64_sub u au) r ?f \<in> {0, refund d t u act au}"
      by (cases d) (simp_all add: delta_of_def)
    then show ?thesis
      using True incrs_of_reconcile [OF assms(1) r(1), of ?f "f64_of_int (wrap64 (t - act))" "f64_sub u au"]
      by (auto simp: r(2) split: if_splits)
  qed (simp add: mentions_def incrs_of_other)
  obtain n where "sent_cmds fault refs t u act au = take n ?cmds"
    using attempts_once [OF assms(2)] unfolding sent_cmds_def by blast
  moreover obtain j where "incrs_of k ?f (take n ?cmds) = take j (incrs_of k ?f ?cmds)"
    unfolding incrs_of_def using filter_take by blast
  ultimately show ?thesis using all by (cases j) auto
qed

text \<open>
  The commands of one request that touch a balance: nothing, a reservation, or a reservation and
  one settlement of it.
\<close>

definition orderly :: "string \<Rightarrow> dimension \<Rightarrow> command list \<Rightarrow> bool" where
  "orderly k d cs \<longleftrightarrow> cs = [] \<or>
     (\<exists>refs t u dec. Allowed dec \<and> mentions k refs \<and>
        (cs = [Asked refs t u (Some dec)] \<or>
         (\<exists>act au. cs = [Asked refs t u (Some dec), Added k (dim_field d) (refund d t u act au)])))"

lemma orderly_append: "orderly k d (xs @ ys) \<Longrightarrow> orderly k d xs"
  by (fastforce simp: orderly_def append_eq_Cons_conv append_eq_append_conv2)

primrec pending :: "job \<Rightarrow> incr list" where
  "pending (AtStep p) = []"
| "pending (Paying cs p) = cs"

definition of_incr :: "incr \<Rightarrow> command" where
  "of_incr c = Added (fst c) (fst (snd c)) (snd (snd c))"

text \<open>What touches the balance, of the commands run so far and of those still to be sent.\<close>

definition planned :: "string \<Rightarrow> dimension \<Rightarrow> job \<Rightarrow> command list \<Rightarrow> command list" where
  "planned k d j cs = filter (touches k d) cs @ map of_incr (incrs_of k (dim_field d) (pending j))"

text \<open>A program whose reconciliations are not sent again.\<close>

primrec settles_once :: "prog \<Rightarrow> bool" where
  "settles_once (Answer r) \<longleftrightarrow> True"
| "settles_once (CheckThen net tm refs t u cont) \<longleftrightarrow> (\<forall>res. settles_once (cont res))"
| "settles_once (SettleThen fault refs et eu act au p) \<longleftrightarrow> sent_once fault \<and> settles_once p"

lemma request_settles:
  assumes "sent_once (reconcile_fault ev)"
  shows "settles_once (request_prog sv ev cr ident cfg)"
proof -
  have disp: "settles_once (dispatch_prog sv ev req refs t u advice)" for req refs t u advice
    using assms by (auto simp: dispatch_prog_def stream_prog_def Let_def split: sum.split prod.split option.split)
  have "settles_once (pressure_prog sv ev req refs d n t)" for req refs d n t
    by (simp add: pressure_prog_def retry_prog_def Let_def disp split: action.split sum.split)
  then show ?thesis by (simp add: request_prog_def Let_def disp split: option.split sum.split)
qed

definition in_order :: "string \<Rightarrow> dimension \<Rightarrow> job \<Rightarrow> command list \<Rightarrow> bool" where
  "in_order k d j cs \<longleftrightarrow>
     (\<exists>p. j = AtStep p \<and> idle p \<and> settles_once p \<and> planned k d j cs = []) \<or>
     (\<exists>r. (j = AtStep (Answer r) \<or> (\<exists>c rest. j = Paying (c # rest) (Answer r))) \<and> orderly k d (planned k d j cs))"

lemma in_order_orderly:
  assumes "in_order k d j cs"
  shows "orderly k d (filter (touches k d) cs)"
proof -
  have "orderly k d (planned k d j cs)" using assms by (auto simp: in_order_def orderly_def)
  then show ?thesis unfolding planned_def by (rule orderly_append)
qed

lemma resume_held:
  assumes "held refs t u p" "settles_once p"
  obtains r where "resume p = AtStep (Answer r)"
  | r fault act au c rest where "resume p = Paying (c # rest) (Answer r)" "c # rest = sent_cmds fault refs t u act au" "sent_once fault"
proof -
  from assms consider (answer) r where "p = Answer r"
    | (settle) fault act au r where "p = SettleThen fault refs t u act au (Answer r)" "sent_once fault" by (auto simp: held_def)
  then show ?thesis
  proof cases
    case answer
    then show ?thesis using that(1) by simp
  next
    case (settle fault act au r)
    show ?thesis
    proof (cases "sent_cmds fault refs t u act au")
      case Nil
      with settle show ?thesis by (intro that(1) [of r]) simp
    next
      case (Cons c rest)
      with settle show ?thesis by (intro that(2) [of c rest r fault act au]) simp_all
    qed
  qed
qed

lemma in_order_ask:
  assumes "in_order k d (AtStep (CheckThen net tm refs t u cont)) cs" "distinct (map RefKey refs)"
  shows "in_order k d (resume (cont res)) (cs @ [Asked refs t u (reported res)])"
proof -
  let ?p = "CheckThen net tm refs t u cont"
  have i: "idle ?p" "filter (touches k d) cs = []" "settles_once (cont res)" using assms(1) by (auto simp: in_order_def planned_def)
  show ?thesis
  proof (cases "\<exists>dec. res = Inr dec \<and> Allowed dec")
    case False
    then have "idle (cont res)" using i(1) by (cases res) (auto dest: spec [of _ res])
    moreover from this have "resume (cont res) = AtStep (cont res)" by (cases "cont res") simp_all
    ultimately show ?thesis
      using i(2,3) False by (auto simp: in_order_def planned_def incrs_of_def reported_def split: sum.split)
  next
    case True
    then obtain dec where dec: "res = Inr dec" "Allowed dec" by blast
    then have "held refs t u (cont res)" using i(1) by (auto dest: spec [of _ res])
    then show ?thesis using i(3)
    proof (cases rule: resume_held)
      case (1 r)
      then show ?thesis
        using i(2) dec by (auto simp: in_order_def planned_def orderly_def incrs_of_def reported_def)
    next
      case (2 r fault act au c rest)
      have "orderly k d (planned k d (Paying (c # rest) (Answer r)) (cs @ [Asked refs t u (reported res)]))"
        using sent_incrs [OF assms(2) 2(3), of k d t u act au]
      proof (elim disjE conjE)
        assume "incrs_of k (dim_field d) (sent_cmds fault refs t u act au) = []"
        then show ?thesis using i(2) dec by (simp add: planned_def orderly_def reported_def 2(2))
      next
        assume "mentions k refs" and
          "incrs_of k (dim_field d) (sent_cmds fault refs t u act au) = [(k, dim_field d, refund d t u act au)]"
        then have "planned k d (Paying (c # rest) (Answer r)) (cs @ [Asked refs t u (reported res)]) =
            [Asked refs t u (Some dec), Added k (dim_field d) (refund d t u act au)]"
          using i(2) dec by (simp add: planned_def of_incr_def reported_def 2(2))
        with dec \<open>mentions k refs\<close> show ?thesis unfolding orderly_def by blast
      qed
      then show ?thesis unfolding in_order_def 2(1) by blast
    qed
  qed
qed

lemma in_order_pay:
  assumes "in_order k d (Paying ((k', f, x) # rest) p) cs"
  shows "in_order k d (if rest = [] then resume p else Paying rest p) (cs @ [Added k' f x])"
proof -
  obtain r where p: "p = Answer r" "orderly k d (planned k d (Paying ((k', f, x) # rest) p) cs)"
    using assms by (auto simp: in_order_def)
  have "planned k d (if rest = [] then resume p else Paying rest p) (cs @ [Added k' f x]) =
      planned k d (Paying ((k', f, x) # rest) p) cs"
    using p(1) by (auto simp: planned_def of_incr_def incrs_of_def)
  with p show ?thesis by (cases rest) (auto simp: in_order_def)
qed

lemma in_order_lost: "in_order k d j cs \<Longrightarrow> in_order k d j (cs @ [Asked refs t u None])"
  by (simp add: in_order_def planned_def)

lemma fleet_in_order:
  assumes "run (fleet_step rd life) w ls w'" "\<forall>i. in_order k d (fst w i) []" "\<forall>l\<in>set ls. steady k d lm rate (snd (snd l))"
  shows "in_order k d (fst w' i) (map snd (of_request i ls))"
  using assms
proof (induction rule: run.induct)
  case (run_Nil w)
  then show ?case by (simp add: of_request_def)
next
  case (run_snoc w ls w1 l w2)
  then have IH: "in_order k d (fst w1 i) (map snd (of_request i ls))" by simp
  from run_snoc.hyps(2) show ?case
  proof cases
    case (ask jobs j net tm refs t u cont dt e T st res e' st')
    then have "distinct (map RefKey refs)" using run_snoc.prems by (simp add: capped_bucket_def)
    then show ?thesis using IH in_order_ask ask by (cases "i = j") (auto simp: of_request_snoc)
  next
    case (lost jobs j net tm refs t u cont dt e tm' T st)
    then show ?thesis using IH in_order_lost by (cases "i = j") (auto simp: of_request_snoc)
  next
    case (pay jobs j k' f x cs p dt st T)
    then show ?thesis using IH in_order_pay by (cases "i = j") (auto simp: of_request_snoc)
  next
    case (lapse dt T st k' jobs)
    then show ?thesis using IH by (simp add: of_request_snoc)
  qed
qed

lemma resume_idle: "idle p \<Longrightarrow> resume p = AtStep p"
  by (cases p) simp_all

lemma request_in_order: "sent_once (reconcile_fault ev) \<Longrightarrow> in_order k d (resume (request_prog sv ev cr ident cfg)) []"
  by (simp add: request_settles resume_idle [OF request_idle] in_order_def planned_def incrs_of_def request_idle)

text \<open>A pool of requests, each at its start, on replicas that share the store, whose clients may send a
  check again but not a reconciliation (\<open>resent_refund_counts_twice\<close>).\<close>

definition all_requests :: "'s redis \<Rightarrow> (nat \<Rightarrow> job) \<Rightarrow> bool" where
  "all_requests rd jobs \<longleftrightarrow>
     (\<forall>i. \<exists>sv ev cr ident cfg. srv_redis sv = rd \<and> sent_once (reconcile_fault ev) \<and>
        jobs i = resume (request_prog sv ev cr ident cfg))"

lemma all_requests_in_order: "all_requests rd jobs \<Longrightarrow> in_order k d (jobs i) []"
  using request_in_order unfolding all_requests_def by metis

section \<open>What a request takes from a bucket\<close>

definition spent :: "string \<Rightarrow> dimension \<Rightarrow> command list \<Rightarrow> rat" where
  "spent k d cs = (\<Sum>c\<leftarrow>cs. cost k d c)"

lemma cost_touches: "\<not> touches k d c \<Longrightarrow> cost k d c = 0"
  by (cases "(k, d, c)" rule: cost.cases) auto

lemma spent_touches: "spent k d cs = spent k d (filter (touches k d) cs)"
  by (induction cs) (auto simp: spent_def cost_touches)

lemma spent_orderly:
  assumes "orderly k d (filter (touches k d) cs)"
  shows "filter (touches k d) cs = [] \<and> spent k d cs = 0 \<or>
    (\<exists>refs t u dec. Allowed dec \<and> mentions k refs \<and>
       (filter (touches k d) cs = [Asked refs t u (Some dec)] \<and> spent k d cs = dim_amount d t u \<or>
        (\<exists>act au. filter (touches k d) cs = [Asked refs t u (Some dec), Added k (dim_field d) (refund d t u act au)] \<and>
           spent k d cs = dim_amount d t u - refund d t u act au)))"
  using assms unfolding orderly_def
proof (elim disjE exE conjE)
  assume "filter (touches k d) cs = []"
  then show ?thesis using spent_touches [of k d cs] by (simp add: spent_def)
next
  fix refs t u and dec :: decision
  assume g: "Allowed dec" "mentions k refs"
  {
    assume "filter (touches k d) cs = [Asked refs t u (Some dec)]"
    moreover from this have "spent k d cs = dim_amount d t u"
      using g spent_touches [of k d cs] by (simp add: spent_def)
    ultimately show ?thesis using g by blast
  next
    fix act au
    assume "filter (touches k d) cs = [Asked refs t u (Some dec), Added k (dim_field d) (refund d t u act au)]"
    moreover from this have "spent k d cs = dim_amount d t u - refund d t u act au"
      using g spent_touches [of k d cs] by (simp add: spent_def)
    ultimately show ?thesis using g by blast
  }
qed

text \<open>A reservation less its refund is the usage: exactly for tokens, up to one rounding for dollars.\<close>

lemma refund_tokens:
  assumes "\<bar>t\<bar> \<le> 2 ^ 52" "\<bar>act\<bar> \<le> 2 ^ 52"
  shows "dim_amount TokenDim t u - refund TokenDim t u act au = of_int act"
  by (simp add: wrap64_diff [OF assms])

lemma refund_dollars: "\<bar>dim_amount DollarDim t u - refund DollarDim t u act au - au\<bar> \<le> \<bar>u - au\<bar> / 2 ^ 53"
proof -
  have "dim_amount DollarDim t u - refund DollarDim t u act au - au = - (f64 (u - au) - (u - au))"
    by (simp add: f64_sub_def)
  then show ?thesis using f64_near [of "u - au" "\<bar>u - au\<bar>"] by (simp only: abs_minus_cancel order_refl)
qed


section \<open>No overspend\<close>

lemma fleet_spent:
  assumes "run (fleet_step rd life) w ls w'"
  shows "(\<Sum>l\<leftarrow>map snd ls. cost k d (snd l)) = (\<Sum>i\<in>requests_of ls. spent k d (map snd (of_request i ls)))"
proof -
  have "\<forall>l\<in>set ls. fst l = None \<longrightarrow> cost k d (snd (snd l)) = 0"
    using assms
  proof (induction rule: run_invariant)
    case (step ls w1 l w2)
    from step(2) have "fst l = None \<longrightarrow> cost k d (snd (snd l)) = 0" by cases simp_all
    with step(3) show ?case by simp
  qed simp
  from charge_by_request [OF finite_requests subset_refl this] show ?thesis
    by (simp add: spent_def comp_def)
qed

text \<open>What the requests have taken is bounded by what the commands move.\<close>

lemma fleet_total:
  assumes "run (fleet_step rd life) (jobs, st, T) ls w'"
    and "new_bucket rd k d lm rate st T (map (snd \<circ> snd) ls) (snd (snd w'))"
  shows "(\<Sum>i\<in>requests_of ls. spent k d (map snd (of_request i ls))) \<le> lm + drift * rate * (snd (snd w') - T) +
      imprecision lm rate (\<Sum>l\<leftarrow>ls. moved k d (snd (snd l))) (length ls) +
      (\<Sum>l\<leftarrow>ls. windfall k d lm rate life (snd (snd l))) + (\<Sum>l\<leftarrow>ls. overdraft k d (snd (snd l)))"
proof -
  have "fresh_run rd life k d lm rate st T (map snd ls) (snd w')"
    using fleet_timed_run [OF assms(1)] assms(2) by (simp add: comp_def)
  from timed_total [OF this] show ?thesis
    unfolding fleet_spent [OF assms(1), symmetric] by (simp add: comp_def)
qed

text \<open>C1: the gateway never overspends, command by command and second by second. Take any pool of
  requests on any number of replicas, the commands of their checks and reconciliations interleaved
  in any way, each increment on its own, with connections that break anywhere and checks that are
  sent again; and a bucket that
  refills, in tokens or in dollars, whose limit and rate may be changed below \<open>lm\<close> and \<open>rate\<close> while
  requests are in flight, and whose key may expire as the script lets it. At every moment, what all
  requests have taken from it is within the limit and what was refilled since the bucket was new,
  up to the imprecision of the stored numbers, to what expiries of its key gave it
  (\<open>expiries_are_rare\<close>: nothing, where a bucket that is not in debt refills in its lifetime) and to what
  requests used beyond their own reservation; and whenever a request is admitted, that excess does not count.\<close>

theorem fleet_within_budget:
  assumes "run (fleet_step rd life) (jobs, st, T) ls w'" "all_requests rd jobs"
    and "new_bucket rd k d lm rate st T (map (snd \<circ> snd) ls) (snd (snd w'))"
  defines "taken \<equiv> \<Sum>i\<in>requests_of ls. spent k d (map snd (of_request i ls))"
    and "budget \<equiv> lm + drift * rate * (snd (snd w') - T) +
      imprecision lm rate (\<Sum>l\<leftarrow>ls. moved k d (snd (snd l))) (length ls) +
      (\<Sum>l\<leftarrow>ls. windfall k d lm rate life (snd (snd l)))"
  shows "taken \<le> budget + (\<Sum>l\<leftarrow>ls. overdraft k d (snd (snd l))) \<and>
    (ls \<noteq> [] \<and> granted k (snd (snd (last ls))) \<longrightarrow> taken \<le> budget)"
proof -
  have fresh: "fresh_run rd life k d lm rate st T (map snd ls) (snd w')"
    using fleet_timed_run [OF assms(1)] assms(3) by (simp add: comp_def)
  have taken: "taken = (\<Sum>l\<leftarrow>map snd ls. cost k d (snd l))"
    unfolding taken_def by (rule fleet_spent [OF assms(1), symmetric])
  have "taken \<le> budget" if "ls \<noteq> []" "granted k (snd (snd (last ls)))"
  proof -
    have ls: "map snd ls = map snd (butlast ls) @ [snd (last ls)]" using that(1) by (metis append_butlast_last_id map_append list.map(1,2))
    have "fresh_run rd life k d lm rate st T (map snd (butlast ls) @ [snd (last ls)]) (snd w')" using fresh ls by simp
    from timed_admission [OF this that(2)] show ?thesis
      unfolding taken budget_def ls [symmetric] by (simp add: comp_def)
  qed
  moreover have "taken \<le> budget + (\<Sum>l\<leftarrow>ls. overdraft k d (snd (snd l)))"
    unfolding taken_def budget_def by (rule fleet_total [OF assms(1,3)])
  ultimately show ?thesis by blast
qed

text \<open>A closed pool, over a bucket of 100000 tokens that refills at 5 tokens per second.\<close>

definition refill_ref :: bucket_ref where
  "refill_ref = \<lparr>Scope = ScopeTenant, RefKey = Key ''t'' [] [] ScopeTenant,
     Limits = zero_limits\<lparr>TokenLimit := 100000, RefillTokensPerSec := 5\<rparr>\<rparr>"

definition closed_prog :: prog where
  "closed_prog = request_prog closed_server closed_env (closed_request 100 False) closed_identity
     (Seed ''t'' [] [] (zero_limits\<lparr>TokenLimit := 100000, RefillTokensPerSec := 5\<rparr>) NewConfigCache)"

abbreviation closed_need :: int where
  "closed_need \<equiv> est_tokens closed_server (request_of closed_env (closed_request 100 False) closed_identity (closed_body 100 False))"

lemma delivered_ok: "delivered net_ok = net_ok"
  by (simp add: delivered_def net_ok_def)

lemma closed_fleet:
  obtains u d w' where "run (fleet_step mem_redis 3600) (\<lambda>_. resume closed_prog, mem_empty, 0)
      [(Some 0, 0, Asked [refill_ref] closed_need u (Some d))] w'" "Allowed d" "snd (snd w') = 0" "0 \<le> closed_need"
proof -
  let ?r = "request_of closed_env (closed_request 100 False) closed_identity (closed_body 100 False)"
  have t: "0 \<le> closed_need" "f64_of_int closed_need \<le> f64_of_int 20000"
    using closed_tokens [of 100 False] by (auto intro: f64_of_int_mono)
  have u: "0 \<le> est_usd closed_server ?r"
    by (auto simp: est_usd_def output_estimate_def defaultOutputTokenEstimate_def intro!: CostUSD_nonneg)
  have "computed_tokens (view mem_redis (lua_now (0, 0)) mem_empty refill_ref) = 100000"
    by (simp add: closed_view refill_ref_def zero_limits_def)
  then have "enough mem_redis (lua_now (0, 0)) mem_empty [refill_ref] (f64_of_int closed_need) (est_usd closed_server ?r)"
    using t by (simp add: enough_iff refill_ref_def zero_limits_def)
  from allowed_call [OF _ closed_reach t(1) u this] obtain d e' st' where
    call: "CheckAndDecrement mem_redis net_ok (0, 0) (NewEnforcer 3600) [refill_ref] closed_need (est_usd closed_server ?r) mem_empty =
      (Inr d, e', st')" "Allowed d" by (simp, blast)
  obtain cont where p: "closed_prog = CheckThen net_ok (0, 0) [refill_ref] closed_need (est_usd closed_server ?r) cont"
    using bind_closed [of 100 False]
    by (simp add: closed_prog_def request_prog_def Let_def closed_identity_def Resolve_def Seed_def NewConfigCache_def refill_ref_def)
  have sent: "CheckAndDecrement mem_redis (delivered net_ok) (0, 0) (NewEnforcer 3600) [refill_ref] closed_need (est_usd closed_server ?r)
      mem_empty = (Inr d, e', st')" unfolding delivered_ok by (rule call(1))
  have "fleet_step mem_redis 3600 (\<lambda>_. resume closed_prog, mem_empty, 0)
      (Some 0, 0, Asked [refill_ref] closed_need (est_usd closed_server ?r) (reported (Inr d)))
      ((\<lambda>_. resume closed_prog)(0 := resume (cont (Inr d))), st', 0 + 0)"
    by (rule fleet_step.ask [OF _ _ _ _ _ sent]) (simp_all add: p delivered_def runs_once_def net_ok_def NewEnforcer_def lua_now_def f64_ops)
  from run_one [where step = "fleet_step mem_redis 3600", OF this]
  have r: "run (fleet_step mem_redis 3600) (\<lambda>_. resume closed_prog, mem_empty, 0)
      [(Some 0, 0, Asked [refill_ref] closed_need (est_usd closed_server ?r) (Some d))]
      ((\<lambda>_. resume closed_prog)(0 := resume (cont (Inr d))), st', 0)" by (simp add: reported_def)
  show ?thesis by (rule that [OF r call(2)]) (simp_all add: t(1))
qed

lemma closed_all_requests: "all_requests mem_redis (\<lambda>_. resume closed_prog)"
proof -
  have "sent_once (reconcile_fault closed_env)" by simp
  then show ?thesis unfolding all_requests_def closed_prog_def using closed_sel(1) by blast
qed

lemma fleet_within_budget_witness:
  "\<exists>ls w'. run (fleet_step mem_redis 3600) (\<lambda>_. resume closed_prog, mem_empty, 0) ls w' \<and> length ls = 1 \<and>
     0 \<le> (\<Sum>i\<in>requests_of ls. spent (Key ''t'' [] [] ScopeTenant) TokenDim (map snd (of_request i ls))) \<and>
     (\<Sum>i\<in>requests_of ls. spent (Key ''t'' [] [] ScopeTenant) TokenDim (map snd (of_request i ls))) \<le>
       100000 + imprecision 100000 5 0 1"
proof -
  let ?k = "Key ''t'' [] [] ScopeTenant"
  obtain u d w' where r: "run (fleet_step mem_redis 3600) (\<lambda>_. resume closed_prog, mem_empty, 0)
      [(Some 0, 0, Asked [refill_ref] closed_need u (Some d))] w'" "Allowed d" "snd (snd w') = 0" "0 \<le> closed_need"
    by (rule closed_fleet)
  let ?ls = "[(Some (0 :: nat), 0 :: rat, Asked [refill_ref] closed_need u (Some d))]"
  have "new_bucket mem_redis ?k TokenDim 100000 5 mem_empty 0 (map (snd \<circ> snd) ?ls) (snd (snd w'))"
    using redis_laws_mem
    by (simp add: new_bucket_def capped_bucket_def refill_ref_def zero_limits_def r(3)) (simp add: mem_redis_def mem_empty_def)
  from fleet_within_budget [OF r(1) closed_all_requests this] r(2,3)
  have "(\<Sum>i\<in>requests_of ?ls. spent ?k TokenDim (map snd (of_request i ?ls))) \<le> 100000 + imprecision 100000 5 0 1"
    by (simp add: mentions_def refill_ref_def)
  moreover have "0 \<le> (\<Sum>i\<in>requests_of ?ls. spent ?k TokenDim (map snd (of_request i ?ls)))"
    using r(2,4) by (simp add: requests_of_def of_request_def spent_def mentions_def refill_ref_def)
  ultimately show ?thesis using r(1) by (intro exI [of _ ?ls] exI [of _ w']) simp
qed


section \<open>The handler alone is such a run\<close>

lemma clocked_held: "held refs t u p \<Longrightarrow> clocked T p"
  by (auto simp: held_def)

lemma clocked_request:
  assumes "sorted (T # map lua_now (resent (check_net ev)) @ [lua_now (check_time ev)])"
    and "sorted (lua_now (check_time ev) # map lua_now (resent (retry_net ev)) @ [lua_now (retry_time ev)])"
    and "runs_once (delivered (check_net ev))" "runs_once (delivered (retry_net ev))"
  shows "clocked T (request_prog sv ev cr ident cfg)"
proof -
  note disp = clocked_held [OF dispatch_held]
  have "clocked (lua_now (check_time ev)) (pressure_prog sv ev req refs d n t)" for req refs d n t
    using assms by (simp add: pressure_prog_def retry_prog_def Let_def disp split: action.split sum.split)
  then show ?thesis
    using assms(1,3) by (simp add: request_prog_def Let_def disp split: option.split sum.split)
qed

text \<open>C8: the handler is one of these runs. \<open>ChatCompletions\<close> called alone leaves the store a run of the
  pool leaves in which only this request takes steps, its commands executed one after the other at
  the times of its clock, and gives the reply its job ends with.\<close>

theorem handler_is_a_fleet_run:
  assumes "sorted (T # map lua_now (resent (check_net ev)) @ [lua_now (check_time ev)])"
    and "sorted (lua_now (check_time ev) # map lua_now (resent (retry_net ev)) @ [lua_now (retry_time ev)])"
    and "runs_once (delivered (check_net ev))" "runs_once (delivered (retry_net ev))"
    and "ChatCompletions sv ev cr ident g = (r, g')"
  shows "\<exists>ls T'. fst ` set ls \<subseteq> {Some i} \<and>
    run (fleet_step (srv_redis sv) (stateTTL (enforcer_state g))) (jobs(i := resume (request_prog sv ev cr ident (config_state g))), redis_state g, T) ls
      (jobs(i := AtStep (Answer r)), redis_state g', T')"
proof -
  have "exec_prog (srv_redis sv) (request_prog sv ev cr ident (config_state g)) (enforcer_state g) (redis_state g) =
      (r, enforcer_state g', redis_state g')"
    using handler_view [of sv ev cr ident g] by (simp add: assms(5) budget_view_def)
  from program_alone [OF clocked_request [OF assms(1-4)] refl this, of jobs i] show ?thesis by blast
qed


lemma handler_is_a_fleet_run_witness:
  "\<exists>r ls w. run (fleet_step mem_redis 3600)
     ((\<lambda>_. AtStep (Answer r))(0 := resume (request_prog closed_server closed_env (closed_request 100 False) closed_identity
        (config_state closed_gateway))), mem_empty, 0) ls w \<and> fst w = (\<lambda>_. AtStep (Answer r))"
proof -
  obtain r g' where run: "ChatCompletions closed_server closed_env (closed_request 100 False) closed_identity closed_gateway = (r, g')"
    by fastforce
  have "sorted (0 # map lua_now (resent (check_net closed_env)) @ [lua_now (check_time closed_env)])"
    "sorted (lua_now (check_time closed_env) # map lua_now (resent (retry_net closed_env)) @ [lua_now (retry_time closed_env)])"
    "runs_once (delivered (check_net closed_env))" "runs_once (delivered (retry_net closed_env))"
    by (simp_all add: lua_now_def f64_ops runs_once_def net_ok_def delivered_def)
  from handler_is_a_fleet_run [OF this run, where jobs = "\<lambda>_. AtStep (Answer r)" and i = 0] obtain ls T' where
    "run (fleet_step mem_redis 3600)
     ((\<lambda>_. AtStep (Answer r))(0 := resume (request_prog closed_server closed_env (closed_request 100 False) closed_identity
        (config_state closed_gateway))), mem_empty, 0) ls ((\<lambda>_. AtStep (Answer r))(0 := AtStep (Answer r)), redis_state g', T')"
    by (auto simp: NewEnforcer_def)
  moreover have "(\<lambda>_. AtStep (Answer r))(0 := AtStep (Answer r)) = (\<lambda>_. AtStep (Answer r))" by (rule fun_upd_triv)
  ultimately show ?thesis by (intro exI conjI) (assumption, simp only: fst_conv)
qed

end
