(* ===== verification/Outcomes.thy ===== *)
theory Outcomes
  imports Requests
begin

text \<open>
  The outcomes of a request under pressure and what they leave behind: requests whose estimate
  overflows, allowances that cannot fit, the line of the log and the spend event of every
  outcome, the shape of the replies, the provider of a switched model, models without a price, and
  the scope a refusal names.
\<close>

section \<open>Estimates that overflow\<close>

text \<open>A negative check commits nothing, whatever the connection does.\<close>

lemma check_budget_negative:
  assumes "check_budget sv net tm refs t u g = (res, g')" "runs_once net" "t < 0"
  shows "redis_state g' = redis_state g" and "res = Inr d \<Longrightarrow> \<not> Allowed d"
proof -
  from check_budget_sel [OF assms(1)]
  have "CheckAndDecrement (srv_redis sv) net tm (enforcer_state g) refs t u (redis_state g) = (res, enforcer_state g', redis_state g')"
    by simp
  from check_effect [OF assms(2) this] assms(3)
  show "redis_state g' = redis_state g" and "res = Inr d \<Longrightarrow> \<not> Allowed d" by auto
qed

lemma est_input_pos: "3 \<le> est_input sv req"
  using EstimateMessagesTokens_ge_3 by (simp add: est_input_def)

lemma retry_tokens_negative:
  assumes "retry_tokens cfg req d n t outc t'" "t = wrap64 (n + output_estimate (ReqMaxTokens req))" "t < 0"
    and "0 \<le> MinPartialAllowanceTokens cfg"
  shows "t' < 0"
  using assms by (auto simp: retry_tokens_def)

text \<open>Under pressure a negative estimate ends in a rejection, and the store stays as it is.\<close>

lemma pressure_negative:
  assumes "runs_once (retry_net ev)" "0 \<le> MinPartialAllowanceTokens (srv_policy sv)"
    and "t = wrap64 (n + output_estimate (ReqMaxTokens req))" "t < 0"
  shows "RStatus (fst (handleBudgetPressure sv ev req refs d n t u g)) = 429 \<and>
    redis_state (snd (handleBudgetPressure sv ev req refs d n t u g)) = redis_state g"
proof (cases rule: handleBudgetPressure_cases [of sv ev req refs d n t u g])
  case (Rejected g')
  have "redis_state g' = redis_state g"
    using Rejected(4)
  proof (elim disjE exE conjE)
    fix t' u' g1 res
    assume r: "retry_tokens (srv_policy sv) req d n t (policy_outcome sv ev req d t) t'" "redis_state g1 = redis_state g"
      "check_budget sv (retry_net ev) (retry_time ev) refs t' u' g1 = (res, g')"
    from check_budget_negative(1) [OF r(3) assms(1) retry_tokens_negative [OF r(1) assms(3,4,2)]] r(2)
    show ?thesis by simp
  qed
  with Rejected(1) show ?thesis by (simp add: reject_eq json_error_def)
next
  case (Retried rq t' u' g1 rd g2)
  from check_budget_negative(2) [OF Retried(2) assms(1) retry_tokens_negative [OF Retried(8) assms(3,4,2)] refl]
    Retried(3) show ?thesis by simp
qed

text \<open>C28: an estimate that overflows 64 bits is refused. A client can ask for so many tokens that
  input estimate plus \<open>max_tokens\<close> wraps to a negative number; such a request is never sent to a
  provider, adds nothing to any balance, and is answered with 429, or 503 when Redis is down.\<close>

theorem overflowing_estimate_refused:
  assumes "runs_once (check_net ev)" "runs_once (retry_net ev)"
    and "0 \<le> MinPartialAllowanceTokens (srv_policy sv)"
    and "bind_chat (ReqBody cr) = Some body" "buckets_of g cr ident \<noteq> []"
    and "est_input sv (request_of ev cr ident body) \<le> max_int64" "CMaxTokens body \<le> max_int64"
    and "max_int64 < est_input sv (request_of ev cr ident body) + CMaxTokens body"
  shows "RStatus (fst (ChatCompletions sv ev cr ident g)) \<in> {429, 503} \<and>
    redis_state (snd (ChatCompletions sv ev cr ident g)) = redis_state g"
proof -
  let ?req = "request_of ev cr ident body"
  have t: "est_tokens sv ?req = wrap64 (est_input sv ?req + output_estimate (ReqMaxTokens ?req))"
    by (simp add: est_tokens_def)
  have "output_estimate (CMaxTokens body) = CMaxTokens body"
    using assms(6,8) by (simp add: output_estimate_def)
  then have neg: "est_tokens sv ?req < 0" using assms(6-8) by (simp add: t wrap64_over max_int64_def)
  show ?thesis
  proof (cases rule: ChatCompletions_cases [of cr sv ev ident g])
    case (Unavailable body' err)
    then have "body' = body" using assms(4) by simp
    with Unavailable check_effect [OF assms(1), of "srv_redis sv" "check_time ev" "enforcer_state g" "buckets_of g cr ident"
        "est_tokens sv ?req" "est_usd sv ?req" "redis_state g"] neg
    show ?thesis by (cases "reservation sv ev cr ident body g") auto
  next
    case (Decided body' d g1)
    then have eq: "body' = body" using assms(4) by simp
    with check_effect [OF assms(1) Decided(3)] neg have d: "\<not> Allowed d" "redis_state g1 = redis_state g" by auto
    show ?thesis
      unfolding Decided(6) if_not_P [OF d(1)] eq
      using pressure_negative [OF assms(2,3) t neg] d(2) by simp
  qed (use assms(4,5) in simp_all)
qed

lemma closed_ok [simp]: "runs_once net_ok"
  by (simp add: runs_once_def net_ok_def)

lemma bind_closed_max: "bind_chat (ReqBody (closed_request max_int64 False)) = Some (closed_body max_int64 False)"
  by (rule bind_closed) (simp add: in_int64_def min_int64_def max_int64_def)

lemma overflowing_estimate_refused_witness:
  "RStatus (fst (ChatCompletions closed_server closed_env (closed_request max_int64 False) closed_identity closed_gateway)) \<in> {429, 503} \<and>
   redis_state (snd (ChatCompletions closed_server closed_env (closed_request max_int64 False) closed_identity closed_gateway)) = mem_empty"
proof -
  show ?thesis
    using overflowing_estimate_refused [of closed_env closed_server "closed_request max_int64 False" "closed_body max_int64 False"
        closed_gateway closed_identity] bind_closed_max closed_estimate [of max_int64 False]
    by (simp add: DefaultConfig_def max_int64_def)
qed

section \<open>Allowances that cannot fit\<close>

text \<open>A check that asks for more than the whole units of a short bucket is short again.\<close>

lemma whole_units_short:
  assumes "redis_laws rd" "0 < TokenLimit (Limits r)" "TokenLimit (Limits r) \<le> 10 ^ 14" "1 \<le> n" "n \<le> 10 ^ 14"
    and "0 \<le> int64_of_f64 (f64_of_int (int_reply rd (computed_tokens (view rd now st r))))"
  shows "short (f64_of_int (wrap64 (n + int64_of_f64 (f64_of_int (int_reply rd (computed_tokens (view rd now st r))))))) u
    (view rd now st r)"
proof -
  let ?c = "computed_tokens (view rd now st r)"
  have "f64_of_int (TokenLimit (Limits r)) = of_int (TokenLimit (Limits r))"
    using assms(2,3) by (intro f64_of_int_exact) simp
  then have "?c \<le> of_int (TokenLimit (Limits r))" using view_tokens_le [OF assms(2)] by metis
  then have "?c \<le> of_int (10 ^ 14)" using assms(3) by (meson of_int_le_iff order_trans)
  then have c: "?c \<le> 10 ^ 14" by simp
  show ?thesis
  proof (cases "?c < 0")
    case True
    then have "int_reply rd ?c \<le> 0" by (simp add: int_reply_trunc [OF assms(1)] trunc_rat_def)
    then have "f64_of_int (int_reply rd ?c) \<le> 0" using f64_of_int_mono [of "int_reply rd ?c" 0] by simp
    then have "int64_of_f64 (f64_of_int (int_reply rd ?c)) \<le> 0"
      by (auto simp: int64_of_f64_def trunc_rat_def Let_def min_int64_def)
    then have "int64_of_f64 (f64_of_int (int_reply rd ?c)) = 0" using assms(6) by simp
    moreover have "wrap64 n = n" "f64_of_int n = of_int n"
      using assms(4,5) by (auto simp: in_int64_def min_int64_def max_int64_def intro!: wrap64_id f64_of_int_exact)
    moreover have "?c < of_int n" using True assms(4) by (simp add: order_less_le_trans)
    ultimately show ?thesis using assms(2) by (simp add: short_def)
  next
    case False
    then have tr: "of_int (trunc_rat ?c) \<le> ?c" "?c < of_int (trunc_rat ?c) + 1" "0 \<le> trunc_rat ?c"
      using trunc_rat_nonneg [of ?c] by (auto simp: trunc_rat_def)
    then have "of_int (trunc_rat ?c) \<le> (of_int (10 ^ 14) :: rat)" using c by simp
    then have le: "trunc_rat ?c \<le> 10 ^ 14" by (simp only: of_int_le_iff)
    have "f64_of_int (int_reply rd ?c) = of_int (trunc_rat ?c)" using tr le by (intro int_of_trunc [OF assms(1)]) simp
    then have i: "int64_of_f64 (f64_of_int (int_reply rd ?c)) = trunc_rat ?c"
      using tr(3) le by (simp add: int64_of_f64_def in_int64_def min_int64_def max_int64_def)
    have "f64_of_int (wrap64 (n + trunc_rat ?c)) = of_int (n + trunc_rat ?c)"
      using tr(3) le assms(4,5) by (subst wrap64_id) (auto simp: in_int64_def min_int64_def max_int64_def intro!: f64_of_int_exact)
    moreover have "?c < of_int (n + trunc_rat ?c)"
    proof -
      have "(1::rat) \<le> of_int n" using assms(4) by simp
      then show ?thesis using tr(2) by simp
    qed
    ultimately show ?thesis using assms(2) by (simp add: short_def i)
  qed
qed

text \<open>C40: cutting \<open>max_tokens\<close> down to the balance never helps. When every bucket has a token limit and the
  policy engine clamps the advised allowance to the reported balance, the reduced request still asks
  for its input on top of that balance: without time for a refill it is rejected again, with 429.\<close>

theorem clamped_allowance_rejected:
  assumes "redis_laws (srv_redis sv)" "reachable_backend (check_net ev) (enforcer_state g)" "runs_once (retry_net ev)"
    and "retry_time ev = check_time ev"
    and "bind_chat (ReqBody cr) = Some body" "reservation sv ev cr ident body g = (Inr d, e1, st1)" "\<not> Allowed d"
    and "\<forall>r\<in>set (buckets_of g cr ident). 0 < TokenLimit (Limits r) \<and> TokenLimit (Limits r) \<le> 10 ^ 14"
    and "est_input sv (request_of ev cr ident body) \<le> 10 ^ 14" "0 \<le> est_tokens sv (request_of ev cr ident body)"
    and "Action (policy_outcome sv ev (request_of ev cr ident body) d (est_tokens sv (request_of ev cr ident body))) = ActionPartialAllowance"
    and "MaxTokens (policy_outcome sv ev (request_of ev cr ident body) d (est_tokens sv (request_of ev cr ident body))) =
      int64_of_f64 (RemainingTokens d)"
    and "0 \<le> MinPartialAllowanceTokens (srv_policy sv)"
    and "buckets_of g cr ident \<noteq> []"
  shows "RStatus (fst (ChatCompletions sv ev cr ident g)) = 429"
proof (cases rule: ChatCompletions_cases [of cr sv ev ident g])
  case (Decided body' d' g1)
  then have eq: "body' = body" "d' = d" "st1 = redis_state g1" using assms(5,6) by simp_all
  let ?req = "request_of ev cr ident body" and ?refs = "buckets_of g cr ident"
  have usd: "0 \<le> est_usd sv ?req"
    by (auto simp: est_usd_def output_estimate_def defaultOutputTokenEstimate_def intro!: CostUSD_nonneg)
  obtain j where j: "j < length ?refs" "st1 = redis_state g"
    "RemainingTokens d = f64_of_int (int_reply (srv_redis sv)
       (computed_tokens (view (srv_redis sv) (lua_now (check_time ev)) (redis_state g) (?refs ! j))))"
    by (rule CheckAndDecrement_cases [OF assms(14,2), of "est_tokens sv ?req" "est_usd sv ?req" "srv_redis sv" "check_time ev" "redis_state g"])
      (use assms(6,7,10) usd in auto)
  show ?thesis
    unfolding Decided(6) eq if_not_P [OF assms(7)]
  proof (cases rule: handleBudgetPressure_cases [of sv ev ?req ?refs d "est_input sv ?req" "est_tokens sv ?req" "est_usd sv ?req" g1])
    case (Rejected g')
    then show "RStatus (fst (handleBudgetPressure sv ev ?req ?refs d (est_input sv ?req) (est_tokens sv ?req) (est_usd sv ?req) g1)) = 429"
      by (simp add: reject_429)
  next
    case (Retried rq t' u' g1' rd g2)
    have t': "t' = wrap64 (est_input sv ?req + int64_of_f64 (RemainingTokens d))" "0 \<le> int64_of_f64 (RemainingTokens d)"
      using Retried(8) assms(11-13) by (auto simp: retry_tokens_def)
    have "redis_state g1' = redis_state g" using Retried(4) eq j(2) by simp
    from check_effect [OF assms(3), of "srv_redis sv" "retry_time ev" "enforcer_state g1'" ?refs t' u' "redis_state g1'"]
      check_budget_sel [OF Retried(2)] Retried(3) this
    have "enough (srv_redis sv) (lua_now (check_time ev)) (redis_state g) ?refs (f64_of_int t') u'" by (auto simp: assms(4))
    then have "\<not> short (f64_of_int t') u' (view (srv_redis sv) (lua_now (check_time ev)) (redis_state g) (?refs ! j))"
      using j(1) by (auto simp: enough_def)
    moreover have "0 < TokenLimit (Limits (?refs ! j))" "TokenLimit (Limits (?refs ! j)) \<le> 10 ^ 14"
      using assms(8) j(1) by simp_all
    ultimately show "RStatus (fst (handleBudgetPressure sv ev ?req ?refs d (est_input sv ?req) (est_tokens sv ?req) (est_usd sv ?req) g1)) = 429"
      using whole_units_short [OF assms(1), of "?refs ! j" "est_input sv ?req" "lua_now (check_time ev)" "redis_state g" u']
        t' j(3) assms(9) est_input_pos [of sv ?req] by simp
  qed
qed (use assms(5,6,14) in simp_all)

text \<open>A gateway with a budget of 100 tokens, and an advisor that suggests at most 500.\<close>

definition tight_gateway :: "mem gateway" where
  "tight_gateway = closed_gateway\<lparr>config_state := Seed ''t'' [] [] (zero_limits\<lparr>TokenLimit := 100\<rparr>) NewConfigCache\<rparr>"

definition advised_env :: env where
  "advised_env = closed_env\<lparr>advisor_http := (\<lambda>_. Inr \<lparr>HttpStatus = 200, RetryAfterHeader = [],
     JsonBody = Some (JObj [(''suggestions'', JArr [suggestion_json (suggest_tokens 500)])]), BodyLines = [], ScanErr = None\<rparr>)\<rparr>"

lemma tight_sel [simp]:
  "redis_state tight_gateway = mem_empty" "enforcer_state tight_gateway = NewEnforcer 3600"
  "check_net advised_env = net_ok" "retry_net advised_env = net_ok" "check_time advised_env = (0, 0)" "retry_time advised_env = (0, 0)"
  "Resolve (config_state tight_gateway) (IdTenantID closed_identity) ''a'' [] = [tenant_ref ''t'' 100]"
  "request_of advised_env = request_of closed_env"
  by (auto simp: tight_gateway_def advised_env_def closed_identity_def Resolve_def Seed_def NewConfigCache_def tenant_ref_def
      request_of_def closed_env_def intro!: ext)

lemma advised_suggestions:
  "advise_call closed_server advised_env req d t = Inr [suggest_tokens 500]"
  by (simp add: advise_call_def Advise_def advised_env_def decode_advice_def decode_suggestion_def suggestion_json_def
      suggest_tokens_def get_def field_def lower_char_def suggestion_type_of_def in_int64_def min_int64_def max_int64_def)

lemma tight_reservation:
  obtains d e1 st1 where
    "reservation closed_server advised_env (closed_request 1000 False) closed_identity (closed_body 1000 False) tight_gateway = (Inr d, e1, st1)"
    "\<not> Allowed d" "RemainingTokens d = 100"
proof -
  let ?req = "request_of closed_env (closed_request 1000 False) closed_identity (closed_body 1000 False)"
  let ?t = "est_tokens closed_server ?req" and ?u = "est_usd closed_server ?req"
  have t: "1003 \<le> ?t" "?t \<le> 1013"
    using closed_estimate [of 1000 False]
    by (simp_all add: est_tokens_def output_estimate_def wrap64_id in_int64_def min_int64_def max_int64_def)
  then have ft: "f64_of_int ?t = of_int ?t" by (intro f64_of_int_exact) simp
  have "0 \<le> ?u" by (auto simp: est_usd_def output_estimate_def defaultOutputTokenEstimate_def intro!: CostUSD_nonneg)
  moreover have v: "computed_tokens (view mem_redis (lua_now (0, 0)) mem_empty (tenant_ref ''t'' 100)) = 100" by (simp add: closed_view)
  have "of_int 1003 \<le> (of_int ?t :: rat)" using t(1) by (simp only: of_int_le_iff)
  then have "\<not> enough mem_redis (lua_now (0, 0)) mem_empty [tenant_ref ''t'' 100] (f64_of_int ?t) ?u"
    by (simp add: enough_iff v ft zero_limits_def)
  ultimately obtain d e' where "CheckAndDecrement mem_redis net_ok (0, 0) (NewEnforcer 3600) [tenant_ref ''t'' 100] ?t ?u mem_empty
      = (Inr d, e', mem_empty)" "\<not> Allowed d" "RemainingTokens d = 100"
    by (rule_tac CheckAndDecrement_cases [of "[tenant_ref ''t'' 100]" net_ok "NewEnforcer 3600" ?t ?u mem_redis "(0, 0)" mem_empty])
      (use t v in \<open>auto simp: mem_redis_def trunc_rat_def\<close>)
  then show ?thesis using that by simp
qed

lemma clamped_allowance_rejected_witness:
  "RStatus (fst (ChatCompletions closed_server advised_env (closed_request 1000 False) closed_identity tight_gateway)) = 429"
proof -
  let ?req = "request_of closed_env (closed_request 1000 False) closed_identity (closed_body 1000 False)"
  obtain d e1 st1 where res:
    "reservation closed_server advised_env (closed_request 1000 False) closed_identity (closed_body 1000 False) tight_gateway = (Inr d, e1, st1)"
    "\<not> Allowed d" "RemainingTokens d = 100" by (rule tight_reservation)
  have t: "1003 \<le> est_tokens closed_server ?req"
    using closed_estimate [of 1000 False]
    by (simp add: est_tokens_def output_estimate_def wrap64_id in_int64_def min_int64_def max_int64_def)
  then have "Action (policy_outcome closed_server advised_env ?req d (est_tokens closed_server ?req)) = ActionPartialAllowance \<and>
      MaxTokens (policy_outcome closed_server advised_env ?req d (est_tokens closed_server ?req)) = 100"
    by (simp add: policy_outcome_def advised_suggestions Decide_def suggest_tokens_def confident res(3) int64_of_f64_def
        trunc_rat_def in_int64_def min_int64_def max_int64_def Let_def) (simp add: DefaultConfig_def)
  then show ?thesis
    using clamped_allowance_rejected [of closed_server advised_env tight_gateway "closed_request 1000 False" "closed_body 1000 False"
        closed_identity d e1 st1] res t redis_laws_mem bind_closed [of 1000 False] closed_estimate(2) [of 1000 False]
    by (simp add: zero_limits_def int64_of_f64_def trunc_rat_def in_int64_def min_int64_def max_int64_def) (simp add: DefaultConfig_def)
qed

section \<open>The provider of a switched model\<close>

lemma Select_eq:
  "Select r model = (if modelFamily model = ''openai'' then rOpenAI r
     else if modelFamily model = ''anthropic'' then rAnthropic r else rMock r)"
  by (cases "NormalizeModel model") (simp_all add: Select_def modelFamily_def Let_def)

text \<open>A model switch never changes the provider. When the policy engine retries with another model,
  the router sends the retry to the adapter that would have served the requested model: advice from
  outside cannot move a tenant's prompt to another vendor.\<close>

theorem switch_keeps_provider:
  assumes "iteration_order (srv_order sv)" "Action (policy_outcome sv ev req d t) = ActionRetryWithModel"
  shows "Select (srv_router sv) (Model (policy_outcome sv ev req d t)) = Select (srv_router sv) (ReqModel req)"
  using Decide_RetryWithModel [OF assms(2) [unfolded policy_outcome_def]]
  by (auto simp: Select_eq isVerifiedCheaperModel_iff [OF assms(1)] policy_outcome_def)

definition nano_env :: env where
  "nano_env = closed_env\<lparr>advisor_http := (\<lambda>_. Inr \<lparr>HttpStatus = 200, RetryAfterHeader = [],
     JsonBody = Some (JObj [(''suggestions'', JArr [suggestion_json (suggest_model ''gpt-5-nano'')])]), BodyLines = [], ScanErr = None\<rparr>)\<rparr>"

definition gpt5_request :: request where
  "gpt5_request = (request_of closed_env (closed_request 100 False) closed_identity (closed_body 100 False))\<lparr>ReqModel := ''gpt-5''\<rparr>"

lemma nano_suggestions: "advise_call closed_server nano_env req d t = Inr [suggest_model ''gpt-5-nano'']"
  by (simp add: advise_call_def Advise_def nano_env_def decode_advice_def decode_suggestion_def suggestion_json_def
      suggest_model_def get_def field_def lower_char_def suggestion_type_of_def)

lemma switch_keeps_provider_witness:
  "Action (policy_outcome closed_server nano_env gpt5_request zero_decision 900) = ActionRetryWithModel \<and>
   Select mock_router (Model (policy_outcome closed_server nano_env gpt5_request zero_decision 900)) = Select mock_router ''gpt-5''"
proof -
  have act: "Action (policy_outcome closed_server nano_env gpt5_request zero_decision 900) = ActionRetryWithModel"
    by (simp add: policy_outcome_def nano_suggestions Decide_def suggest_model_def confident nano_is_cheaper gpt5_request_def)
  with switch_keeps_provider [of closed_server nano_env gpt5_request zero_decision 900] show ?thesis
    by (simp add: gpt5_request_def)
qed

section \<open>What every outcome leaves behind\<close>

text \<open>One line in the log and one spend event, with the status of the reply, the identity of the
  request and the same usage, cost and decision in both.\<close>

definition recorded :: "env \<Rightarrow> client_request \<Rightarrow> identity \<Rightarrow> 's gateway \<Rightarrow> int \<Rightarrow> 's gateway \<Rightarrow> bool" where
  "recorded ev cr ident g status g' \<longleftrightarrow>
     (\<exists>e sp. access_log g' = Log (finish_at ev, e) (access_log g) \<and>
        spend_writer g' = map_option (Enqueue (finish_at ev, sp)) (spend_writer g) \<and>
        LStatusCode e = status \<and> LTraceID e = trace_id ev \<and> LTenantID e = IdTenantID ident \<and>
        LAgentID e = XAgentId cr \<and> LTaskID e = XTaskId cr \<and>
        SpTraceID sp = LTraceID e \<and> SpTenantID sp = LTenantID e \<and> SpAgentID sp = LAgentID e \<and> SpTaskID sp = LTaskID e \<and>
        SpModel sp = LModel e \<and> SpTokensIn sp = LTokensIn e \<and> SpTokensOut sp = LTokensOut e \<and> SpCostUSD sp = LCostUSD e \<and>
        SpDecision sp = LDecision e \<and> SpDecisionReason sp = LDecisionReason e)"

definition of_caller :: "env \<Rightarrow> client_request \<Rightarrow> identity \<Rightarrow> request \<Rightarrow> bool" where
  "of_caller ev cr ident req \<longleftrightarrow> TraceID req = trace_id ev \<and> ReqTenantID req = IdTenantID ident \<and>
     ReqAgentID req = XAgentId cr \<and> ReqTaskID req = XTaskId cr"

lemma of_caller_request [simp]:
  "of_caller ev cr ident (request_of ev cr ident body)"
  "of_caller ev cr ident (req\<lparr>ReqModel := m\<rparr>) = of_caller ev cr ident req"
  "of_caller ev cr ident (req\<lparr>ReqMaxTokens := n\<rparr>) = of_caller ev cr ident req"
  by (simp_all add: of_caller_def)

lemma recordedI:
  assumes "of_caller ev cr ident req"
    and "access_log g' = Log (finish_at ev, log_entry sv req label reason lat u au status) (access_log g)"
    and "spend_writer g' = map_option (Enqueue (finish_at ev, spend_event req label reason u au)) (spend_writer g)"
  shows "recorded ev cr ident g status g'"
  unfolding recorded_def
  by (intro exI [of _ "log_entry sv req label reason lat u au status"] exI [of _ "spend_event req label reason u au"])
    (use assms in \<open>simp add: of_caller_def log_entry_def spend_event_def\<close>)

lemma reject_recorded:
  "of_caller ev cr ident req \<Longrightarrow> access_log g' = access_log g \<Longrightarrow> spend_writer g' = spend_writer g \<Longrightarrow>
     recorded ev cr ident g 429 (snd (reject sv ev req d outc g'))"
  by (rule recordedI [of ev cr ident req]) (simp_all add: reject_eq)

lemma doDispatch_recorded:
  assumes "of_caller ev cr ident req" "access_log g1 = access_log g" "spend_writer g1 = spend_writer g"
  shows "RStatus (fst (doDispatch sv ev req refs t u dl dr advice g1)) = 500 \<and>
      access_log (snd (doDispatch sv ev req refs t u dl dr advice g1)) = access_log g \<and>
      spend_writer (snd (doDispatch sv ev req refs t u dl dr advice g1)) = spend_writer g \<and> \<not> can_answer ev req
    \<or> recorded ev cr ident g (RStatus (fst (doDispatch sv ev req refs t u dl dr advice g1)))
        (snd (doDispatch sv ev req refs t u dl dr advice g1))"
proof (cases "can_answer ev req")
  case True
  show ?thesis
    by (rule doDispatch_settles [OF True, of sv refs t u dl dr advice g1], intro disjI2, rule recordedI [OF assms(1)])
      (simp_all add: assms(2,3))
next
  case False
  then show ?thesis using assms by (simp add: doDispatch_no_flusher json_error_def)
qed

lemma pressure_recorded:
  assumes "of_caller ev cr ident req" "access_log g1 = access_log g" "spend_writer g1 = spend_writer g"
  shows "recorded ev cr ident g (RStatus (fst (handleBudgetPressure sv ev req refs d n t u g1)))
      (snd (handleBudgetPressure sv ev req refs d n t u g1)) \<or>
    RStatus (fst (handleBudgetPressure sv ev req refs d n t u g1)) = 500 \<and>
    access_log (snd (handleBudgetPressure sv ev req refs d n t u g1)) = access_log g \<and>
    spend_writer (snd (handleBudgetPressure sv ev req refs d n t u g1)) = spend_writer g"
proof (cases rule: handleBudgetPressure_cases [of sv ev req refs d n t u g1])
  case (Rejected g')
  with assms show ?thesis by (simp add: reject_recorded reject_429)
next
  case (Retried rq t' u' g1' rd g2)
  have "of_caller ev cr ident rq" using Retried(9) assms(1) by auto
  moreover have "access_log g2 = access_log g" "spend_writer g2 = spend_writer g"
    using check_budget_sel [OF Retried(2)] Retried(6,7) assms(2,3) by simp_all
  ultimately show ?thesis
    unfolding Retried(1) dispatchAdvised_def using doDispatch_recorded [of ev cr ident rq g2 g] by blast
qed


section \<open>The shape of a reply\<close>

definition reply_ok :: "bool \<Rightarrow> reply \<Rightarrow> bool" where
  "reply_ok streaming r \<longleftrightarrow>
     (case RBody r of
        ErrorBody e \<Rightarrow> EMessage e \<noteq> [] \<or> EReason e \<noteq> []
      | ChatBody rp \<Rightarrow> RStatus r = 200 \<and> \<not> streaming \<and> ChObject rp = ''chat.completion'' \<and>
          TotalTokensOut rp = wrap64 (PromptTokensOut rp + CompletionTokensOut rp)
      | StreamBody w \<Rightarrow> RStatus r = 200 \<and> streaming \<and> RHeaders r = http_headers (conn w)
      | NoBody \<Rightarrow> False)"

lemma withMessage_sel [simp]: "EReason (withMessage m r) = r" "EMessage (withMessage m r) = m"
  by (simp_all add: withMessage_def)

lemma doDispatch_reply_ok: "reply_ok (ReqStream req) (fst (doDispatch sv ev req refs t u dl dr advice g))"
proof (cases "ReqStream req \<and> can_flush ev")
  case True
  obtain err w where st: "StreamTo (Select (srv_router sv) (ReqModel req)) req (sse_Write (print_json ev) (write_fails ev))
      (new_writer req advice) = (err, w)" by fastforce
  have err_ok: "reply_ok True ((fst (handleProviderError sv ev req refs t u e g))\<lparr>RHeaders := h\<rparr>)" for e h
    by (rule handleProviderError_eq [of sv ev req refs t u e g]) (simp add: reply_ok_def json_error_def)
  have end_ok: "reply_ok True (fst (stream_end sv ev req refs t u dl w g))"
    by (simp add: stream_end_def Let_def reply_ok_def)
  show ?thesis
  proof (cases err)
    case None
    with True st end_ok show ?thesis by (simp add: doDispatch_def streamDispatch_def)
  next
    case (Some e)
    with True st end_ok err_ok show ?thesis by (simp add: doDispatch_def streamDispatch_def case_prod_beta)
  qed
next
  case False
  show ?thesis
  proof (cases "ReqStream req")
    case True
    with False have "\<not> can_answer ev req" by (simp add: can_answer_def)
    then show ?thesis by (simp add: doDispatch_no_flusher reply_ok_def json_error_def)
  next
    case no: False
    show ?thesis
    proof (cases "Complete (Select (srv_router sv) (ReqModel req)) req")
      case (Inl e)
      show ?thesis
        by (rule handleProviderError_eq [of sv ev req refs t u e g])
          (use no Inl in \<open>simp add: doDispatch_def reply_ok_def json_error_def\<close>)
    next
      case (Inr resp)
      with no show ?thesis by (simp add: doDispatch_def Let_def reply_ok_def)
    qed
  qed
qed

lemma error_reply_ok [simp]: "reason \<noteq> [] \<Longrightarrow> reply_ok streaming (json_error status (withMessage message reason))"
  by (simp add: reply_ok_def json_error_def)


section \<open>Models without a price\<close>

text \<open>A dollar budget does not limit a model that has no price. Such a request, a dated snapshot of
  a listed model for instance, is estimated at 0 dollars; when every bucket limits dollars only, it
  is admitted however many tokens it asks for, and however little is left.\<close>

theorem unpriced_model_always_admitted:
  assumes "reachable_backend (check_net ev) (enforcer_state g)" "buckets_of g cr ident \<noteq> []"
    and "Price (CModel body) = None" "0 \<le> est_tokens sv (request_of ev cr ident body)"
    and "\<forall>r\<in>set (buckets_of g cr ident). TokenLimit (Limits r) \<le> 0 \<and>
      0 \<le> computed_usd (view (srv_redis sv) (lua_now (check_time ev)) (redis_state g) r)"
  shows "\<exists>d e1 st1. reservation sv ev cr ident body g = (Inr d, e1, st1) \<and> Allowed d \<and>
    est_usd sv (request_of ev cr ident body) = 0"
proof -
  let ?req = "request_of ev cr ident body"
  have u: "est_usd sv ?req = 0" using assms(3) by (simp add: est_usd_def)
  have "enough (srv_redis sv) (lua_now (check_time ev)) (redis_state g) (buckets_of g cr ident) (f64_of_int (est_tokens sv ?req)) 0"
    using assms(5) by (auto simp: enough_iff)
  from allowed_call [OF assms(2,1,4) order_refl this] u show ?thesis by metis
qed

definition snapshot_request :: client_request where
  "snapshot_request = (closed_request 100 False)\<lparr>ReqBody := Some (JObj [(''model'', JStr ''gpt-4o-2024-08-06''),
     (''messages'', JArr [JObj [(''role'', JStr ''user''), (''content'', JStr ''hi'')]]), (''max_tokens'', JInt 9000)])\<rparr>"

definition snapshot_body :: ClientChatRequest where
  "snapshot_body = (closed_body 9000 False)\<lparr>CModel := ''gpt-4o-2024-08-06''\<rparr>"

definition broke_gateway :: "mem gateway" where
  "broke_gateway = closed_gateway\<lparr>config_state := Seed ''t'' [] [] (zero_limits\<lparr>DollarLimit := 1\<rparr>) NewConfigCache\<rparr>"

lemma unpriced_model_always_admitted_witness:
  "bind_chat (ReqBody snapshot_request) = Some snapshot_body \<and>
   (\<exists>d e1 st1. reservation closed_server closed_env snapshot_request closed_identity snapshot_body broke_gateway = (Inr d, e1, st1) \<and>
      Allowed d) \<and> Name (Select mock_router (CModel snapshot_body)) = ''openai''"
proof -
  have bind: "bind_chat (ReqBody snapshot_request) = Some snapshot_body"
    by (simp add: snapshot_request_def snapshot_body_def closed_body_def bind_chat_def decode_chat_def decode_message_def
        get_def field_def lower_char_def in_int64_def min_int64_def max_int64_def)
  have refs: "buckets_of broke_gateway snapshot_request closed_identity = [dollar_ref 1]"
    by (simp add: broke_gateway_def snapshot_request_def closed_request_def closed_identity_def Resolve_def Seed_def
        NewConfigCache_def dollar_ref_def tenant_ref_def)
  have state: "redis_state broke_gateway = mem_empty" "enforcer_state broke_gateway = NewEnforcer 3600"
    by (simp_all add: broke_gateway_def)
  have price: "Price (CModel snapshot_body) = None" by (simp add: snapshot_body_def pricing_eval)
  have limits: "TokenLimit (Limits (dollar_ref 1)) = 0" by (simp add: dollar_ref_def zero_limits_def)
  have usd: "computed_usd (view mem_redis (lua_now (0, 0)) mem_empty (dollar_ref 1)) = 1"
    by (simp add: closed_view dollar_ref_def)
  have "est_input closed_server (request_of closed_env snapshot_request closed_identity snapshot_body) \<le> 13"
    using EstimateMessagesTokens_le [of ascii_unicode "[]" "[\<lparr>Role = ''user'', Content = ''hi''\<rparr>]"]
    by (simp add: est_input_def request_of_def toProviderRequest_def snapshot_body_def closed_body_def)
  then have "0 \<le> est_tokens closed_server (request_of closed_env snapshot_request closed_identity snapshot_body)"
    using est_input_pos [of closed_server "request_of closed_env snapshot_request closed_identity snapshot_body"]
    by (simp add: est_tokens_def output_estimate_def snapshot_body_def wrap64_id in_int64_def min_int64_def max_int64_def)
  with unpriced_model_always_admitted [where ev = closed_env and g = broke_gateway and cr = snapshot_request and ident = closed_identity
      and body = snapshot_body and sv = closed_server]
  have "\<exists>d e1 st1. reservation closed_server closed_env snapshot_request closed_identity snapshot_body broke_gateway = (Inr d, e1, st1) \<and> Allowed d"
    by (auto simp: refs state price limits usd)
  moreover have "Name (Select mock_router (CModel snapshot_body)) = ''openai''"
    by (simp add: snapshot_body_def Select_eq modelFamily_def NormalizeModel_def mock_router_def mock_instance_def)
  ultimately show ?thesis using bind by blast
qed

section \<open>The scope that is reported\<close>

lemma first_is_least:
  fixes xs :: "'a :: linorder list"
  assumes "sorted_wrt (<) xs" "j < length xs" "P j" "\<forall>i<j. \<not> P i"
  shows "xs ! j = Min {xs ! i |i. i < length xs \<and> P i}"
proof (rule Min_eqI [symmetric])
  show "finite {xs ! i |i. i < length xs \<and> P i}" by simp
  show "xs ! j \<le> y" if "y \<in> {xs ! i |i. i < length xs \<and> P i}" for y
    using that assms(1,2,4) by (auto simp: sorted_wrt_iff_nth_less) (metis less_imp_le linorder_neqE_nat order_refl)
qed (use assms(2,3) in blast)

text \<open>A caller learns the narrowest exhausted budget. When a request is refused for lack of budget,
  the scope and the reason the handler passes on (to the advisor, the policy engine and the client)
  are those of the most specific bucket that is short, and some bucket is.\<close>

theorem narrowest_scope_reported:
  assumes "reachable_backend (check_net ev) (enforcer_state g)" "buckets_of g cr ident \<noteq> []"
    and "0 \<le> est_tokens sv (request_of ev cr ident body)"
    and "reservation sv ev cr ident body g = (Inr d, e1, st1)" "\<not> Allowed d"
  defines "t \<equiv> f64_of_int (est_tokens sv (request_of ev cr ident body))" and "u \<equiv> est_usd sv (request_of ev cr ident body)"
    and "balance \<equiv> view (srv_redis sv) (lua_now (check_time ev)) (redis_state g)"
  shows "(\<exists>r\<in>set (buckets_of g cr ident). short t u (balance r)) \<and>
    FailedScope d = Min {Scope r |r. r \<in> set (buckets_of g cr ident) \<and> short t u (balance r)} \<and>
    Reason d = scopeReason (FailedScope d)"
proof -
  let ?refs = "buckets_of g cr ident"
  have usd: "0 \<le> est_usd sv (request_of ev cr ident body)"
    by (auto simp: est_usd_def output_estimate_def defaultOutputTokenEstimate_def intro!: CostUSD_nonneg)
  obtain j where j: "j < length ?refs" "short t u (balance (?refs ! j))" "\<forall>i<j. \<not> short t u (balance (?refs ! i))"
    "FailedScope d = Scope (?refs ! j)" "Reason d = scopeReason (Scope (?refs ! j))"
    by (rule CheckAndDecrement_cases [OF assms(2,1), of "est_tokens sv (request_of ev cr ident body)"
          "est_usd sv (request_of ev cr ident body)" "srv_redis sv" "check_time ev" "redis_state g"])
      (use assms(3-5) usd in \<open>auto simp: t_def u_def balance_def\<close>)
  have "map Scope ?refs ! j = Min {map Scope ?refs ! i |i. i < length (map Scope ?refs) \<and> short t u (balance (?refs ! i))}"
    using j(1-3) by (intro first_is_least Resolve_sorted) auto
  also have "{map Scope ?refs ! i |i. i < length (map Scope ?refs) \<and> short t u (balance (?refs ! i))} =
      {Scope r |r. r \<in> set ?refs \<and> short t u (balance r)}"
    by (auto simp: in_set_conv_nth) (metis nth_map)
  finally show ?thesis using j by auto
qed

lemma narrowest_scope_reported_witness:
  "\<exists>d e1 st1. reservation closed_server advised_env (closed_request 1000 False) closed_identity (closed_body 1000 False)
     tight_gateway = (Inr d, e1, st1) \<and> Reason d = scopeReason (FailedScope d)"
proof -
  obtain d e1 st1 where res:
    "reservation closed_server advised_env (closed_request 1000 False) closed_identity (closed_body 1000 False) tight_gateway = (Inr d, e1, st1)"
    "\<not> Allowed d" by (rule tight_reservation)
  have "0 \<le> est_tokens closed_server (request_of advised_env (closed_request 1000 False) closed_identity (closed_body 1000 False))"
    using closed_tokens [of 1000 False] by simp
  from narrowest_scope_reported [OF _ _ this res] have "Reason d = scopeReason (FailedScope d)" by simp
  with res(1) show ?thesis by blast
qed

end
