(* ===== verification/Streams.thy ===== *)
theory Streams
  imports Outcomes
begin

text \<open>
  Streams end to end: what a client of the gateway reads back from the bytes of the event stream,
  and what a stream is charged when it ends without its terminal chunk.
\<close>

section \<open>Reading the lines of a body\<close>

text \<open>\<open>bufio.ScanLines\<close>: the lines of a text, without their line feeds and a carriage return before one.\<close>

definition newline :: char where
  "newline = char_of (10::nat)"

definition drop_cr :: "string \<Rightarrow> string" where
  "drop_cr l = (if l \<noteq> [] \<and> last l = char_of (13::nat) then butlast l else l)"

fun lines_from :: "string \<Rightarrow> string \<Rightarrow> string list" where
  "lines_from acc [] = (if acc = [] then [] else [drop_cr acc])"
| "lines_from acc (c # cs) = (if c = newline then drop_cr acc # lines_from [] cs else lines_from (acc @ [c]) cs)"

definition scan_lines :: "string \<Rightarrow> string list" where
  "scan_lines s = lines_from [] s"

lemma lines_from_line: "newline \<notin> set l \<Longrightarrow> lines_from acc (l @ newline # rest) = drop_cr (acc @ l) # lines_from [] rest"
  by (induction l arbitrary: acc) auto

lemma drop_cr_id: "char_of (13::nat) \<notin> set l \<Longrightarrow> drop_cr l = l"
  by (auto simp: drop_cr_def dest: last_in_set)

text \<open>A text that is one line of an event stream.\<close>

definition one_line :: "string \<Rightarrow> bool" where
  "one_line l \<longleftrightarrow> newline \<notin> set l \<and> char_of (13::nat) \<notin> set l"

lemma one_line_data: "one_line m \<Longrightarrow> one_line (''data: '' @ m)"
  by (simp add: one_line_def newline_def char_of_eq_iff)

lemma scan_lines_event: "one_line l \<Longrightarrow> scan_lines (l @ newlines @ rest) = l # [] # scan_lines rest"
  using lines_from_line [of l "[]" "newline # rest"]
  by (simp add: scan_lines_def one_line_def newlines_def drop_cr_id flip: newline_def)

section \<open>Round trip of an event stream\<close>

lemma data_payload_data [simp]: "data_payload (''data: '' @ m) = Some m" "data_payload [] = None"
  using has_prefix_append [of "''data: ''" m] trim_prefix_append [of "''data: ''" m]
  by (simp_all add: data_payload_def)

lemma decode_sse_payload:
  "decode_openai_chunk (sse_payload w c) = Some ([(DeltaContent c, ChunkFinish c)], None)"
  by (cases "DeltaContent c"; cases "ChunkFinish c")
    (simp_all add: decode_openai_chunk_def decode_stream_choice_def sse_payload_def get_def field_def lower_char_def opt_field_def)

definition readable :: "(json \<Rightarrow> string) \<Rightarrow> (string \<Rightarrow> json option) \<Rightarrow> json \<Rightarrow> bool" where
  "readable marshal unmarshal j \<longleftrightarrow> unmarshal (marshal j) = Some j \<and> one_line (marshal j) \<and> marshal j \<noteq> ''[DONE]''"

lemma plan_event:
  assumes "\<not> Done c" "readable marshal unmarshal (sse_payload \<lparr>conn = new_connection, sse_id = i, sse_model = m,
      wroteHeaders = True, finalUsage = no_usage\<rparr> c)"
  shows "openai_plan unmarshal (scan_lines (event_text marshal i m c @ rest)) err =
    apfst (Cons (delta_chunk (DeltaContent c) (ChunkFinish c))) (openai_plan unmarshal (scan_lines rest) err)"
  using assms scan_lines_event [OF one_line_data, of "marshal (sse_payload \<lparr>conn = new_connection, sse_id = i, sse_model = m,
      wroteHeaders = True, finalUsage = no_usage\<rparr> c)" rest]
  by (simp add: event_text_def readable_def decode_sse_payload del: append_Cons)

lemma plan_done:
  assumes "Done c"
  shows "openai_plan unmarshal (scan_lines (event_text marshal i m c @ rest)) err = ([], None)"
proof -
  have "one_line ''[DONE]''" by (simp add: one_line_def newline_def char_of_eq_iff)
  note lines = scan_lines_event [OF one_line_data [OF this], of rest]
  have "''data: [DONE]'' = ''data: '' @ ''[DONE]''" by simp
  then have "event_text marshal i m c @ rest = (''data: '' @ ''[DONE]'') @ newlines @ rest"
    using assms unfolding event_text_def by (simp only: if_True append_assoc)
  then show ?thesis using lines by (simp del: append_Cons)
qed

lemma plan_stream:
  assumes "\<forall>c\<in>set ds. \<not> Done c \<and> readable marshal unmarshal (sse_payload \<lparr>conn = new_connection, sse_id = i, sse_model = m,
      wroteHeaders = True, finalUsage = no_usage\<rparr> c)" "Done d"
  shows "openai_plan unmarshal (scan_lines (concat (map (event_text marshal i m) (ds @ [d])))) err =
    (map (\<lambda>c. delta_chunk (DeltaContent c) (ChunkFinish c)) ds, None)"
  using assms(1)
proof (induction ds)
  case Nil
  show ?case using plan_done [OF assms(2), of unmarshal marshal i m "[]"] by simp
next
  case (Cons c ds)
  then show ?case by (simp add: plan_event)
qed



section \<open>Streams without their terminal chunk\<close>

lemma take_no_done: "\<forall>c\<in>set cs. \<not> Done c \<Longrightarrow> last_usage (take n cs) u = u"
  by (intro last_usage_not_done) (meson in_set_takeD)

lemma anthropic_settled:
  assumes "ReqStream req" "StreamTo (Select (srv_router sv) (ReqModel req)) = anthropic_Stream p unmarshal http"
    and "\<forall>c\<in>set (fst (anthropic_outcome (p, unmarshal, http) req)). \<not> Done c"
  shows "settled_usage sv ev req advice = no_usage"
proof -
  obtain n where "snd (anthropic_Stream p unmarshal http req (sse_Write (print_json ev) (write_fails ev)) (new_writer req advice)) =
      written_to (sse_Write (print_json ev) (write_fails ev)) (take n (fst (anthropic_outcome (p, unmarshal, http) req)))
        (new_writer req advice)"
    using anthropic.Stream_prefix [of "(p, unmarshal, http)" req "sse_Write (print_json ev) (write_fails ev)" "new_writer req advice"]
    by auto
  then have "finalUsage (snd (anthropic_Stream p unmarshal http req (sse_Write (print_json ev) (write_fails ev)) (new_writer req advice)))
      = no_usage"
    by (simp add: sse_written take_no_done [OF assms(3)]) (simp add: new_writer_def)
  with assms(1,2) show ?thesis by (simp add: settled_usage_def case_prod_beta)
qed

text \<open>C36: a stream that breaks off is free. If the Anthropic event stream ends without
  \<open>message_stop\<close>, by an error event, a dropped connection or a scanner error, the reservation is
  refunded in full, although the text so far was delivered: every bucket has the balance it had
  before the request.\<close>

theorem truncated_stream_is_free:
  assumes "redis_laws (srv_redis sv)" "reachable_backend (check_net ev) (enforcer_state g)" "reconcile_fault ev = no_fault"
    and "XAgentId cr \<noteq> ''-''" "XTaskId cr \<noteq> ''-''"
    and "bind_chat (ReqBody cr) = Some body" "CStream body" "can_flush ev"
    and "StreamTo (Select (srv_router sv) (CModel body)) = anthropic_Stream p unmarshal http"
    and "\<forall>c\<in>set (fst (anthropic_outcome (p, unmarshal, http) (request_of ev cr ident body))). \<not> Done c"
    and "reservation sv ev cr ident body g = (Inr d, e1, st1)" "Allowed d"
    and "r \<in> set (buckets_of g cr ident)" "0 < TokenLimit (Limits r)" "TokenLimit (Limits r) \<le> 10 ^ 14"
    and "computed_tokens (view (srv_redis sv) (lua_now (check_time ev)) (redis_state g) r) = of_int b"
  shows "hget (srv_redis sv) (redis_state (snd (ChatCompletions sv ev cr ident g))) (RefKey r) ''tokens_remaining'' =
    Some (of_int b)"
proof -
  have "settled_usage sv ev (request_of ev cr ident body) [] = no_usage"
    by (rule anthropic_settled [OF _ _ assms(10)]) (simp_all add: assms(7,9))
  with charge_of_call [OF assms(1-6) _ assms(11-15) _ assms(16)] assms(8) show ?thesis by (simp add: can_answer_def)
qed

text \<open>An event stream with a piece of text and then a broken connection.\<close>

definition broken_transport :: transport where
  "broken_transport = (\<lambda>_. Inr \<lparr>HttpStatus = 200, RetryAfterHeader = [], JsonBody = None,
     BodyLines = [''data: 1''], ScanErr = Some ''unexpected EOF''\<rparr>)"

definition one_delta :: "string \<Rightarrow> json option" where
  "one_delta s = Some (JObj [(''type'', JStr ''content_block_delta''),
     (''delta'', JObj [(''type'', JStr ''text_delta''), (''text'', JStr ''Hello'')])])"

definition broken_server :: "mem server" where
  "broken_server = closed_server\<lparr>srv_router := mock_router\<lparr>rMock := mock_instance\<lparr>StreamTo :=
     anthropic_Stream (NewAnthropicProvider ''k'' ''u'') one_delta broken_transport\<rparr>\<rparr>\<rparr>"

lemma broken_outcome:
  "fst (anthropic_outcome (NewAnthropicProvider ''k'' ''u'', one_delta, broken_transport) req) = [delta_chunk ''Hello'' []]"
  by (simp add: anthropic_outcome_def anthropic_do_def broken_transport_def one_delta_def data_payload_def decode_event_def
      get_def field_def lower_char_def trim_prefix_def no_anthropic_usage_def)

lemma truncated_stream_is_free_witness:
  "redis_state (snd (ChatCompletions broken_server closed_env (closed_request 100 True) closed_identity closed_gateway))
     ''budget:t:-:-'' ''tokens_remaining'' = Some 100000"
proof -
  have same: "srv_redis broken_server = mem_redis"
    "est_tokens broken_server = est_tokens closed_server" "est_usd broken_server = est_usd closed_server"
    by (auto simp: broken_server_def est_tokens_def est_usd_def est_input_def intro!: ext)
  have select: "StreamTo (Select (srv_router broken_server) ''mock-small'') =
      anthropic_Stream (NewAnthropicProvider ''k'' ''u'') one_delta broken_transport"
    by (simp add: broken_server_def Select_eq modelFamily_def NormalizeModel_def)
  obtain d e1 st1 where res:
    "reservation closed_server closed_env (closed_request 100 True) closed_identity (closed_body 100 True) closed_gateway
       = (Inr d, e1, st1)" "Allowed d" using closed_reservation [of 100 True] by auto
  have "hget mem_redis (redis_state (snd (ChatCompletions broken_server closed_env (closed_request 100 True) closed_identity
      closed_gateway))) ''budget:t:-:-'' ''tokens_remaining'' = Some 100000"
    using truncated_stream_is_free [where sv = broken_server and ev = closed_env and g = closed_gateway
        and cr = "closed_request 100 True" and body = "closed_body 100 True" and ident = closed_identity
        and p = "NewAnthropicProvider ''k'' ''u''" and unmarshal = one_delta and http = broken_transport
        and d = d and ?e1.0 = e1 and ?st1.0 = st1 and r = "tenant_ref ''t'' 100000" and b = 100000]
      redis_laws_mem res bind_closed [of 100 True] select
    by (simp add: same broken_outcome zero_limits_def Key_def delta_chunk_def)
  then show ?thesis unfolding mem_redis_def redis.select_convs by blast
qed

section \<open>The mock provider stays within its reservation\<close>

lemma last_usage_cases: "last_usage cs u = u \<or> (\<exists>c\<in>set cs. Done c \<and> last_usage cs u = ChunkUsage c)"
  by (induction cs arbitrary: u) (auto simp: last_usage_def)

lemma mock_plan_usage: "c \<in> set (fst (mock_plan u ws waits)) \<Longrightarrow> Done c \<Longrightarrow> ChunkUsage c = u"
  by (induction u ws waits rule: mock_plan.induct)
    (auto simp: done_chunk_def delta_chunk_def split: list.splits option.splits)

lemma mock_settled_usage:
  assumes "Complete (Select (srv_router sv) (ReqModel req)) = mock_Complete uni ident cancelled ms"
    and "StreamTo (Select (srv_router sv) (ReqModel req)) = mock_Stream uni waits"
  shows "settled_usage sv ev req advice \<in> {no_usage, mock_usage uni req}"
proof (cases "ReqStream req")
  case True
  let ?w = "sse_Write (print_json ev) (write_fails ev)" and ?cs = "fst (mock_outcome (uni, waits) req)"
  have final: "ChunkUsage c = mock_usage uni req" if "c \<in> set ?cs" "Done c" for c
    using that mock_plan_usage by (auto simp: mock_outcome_def split: list.splits option.splits)
  obtain n where n: "snd (mock_Stream uni waits req ?w (new_writer req advice)) = written_to ?w (take n ?cs) (new_writer req advice)"
    using mock.Stream_prefix [of "(uni, waits)" req ?w "new_writer req advice"] by auto
  have "finalUsage (new_writer req advice) = no_usage" by (simp add: new_writer_def)
  then have "finalUsage (snd (mock_Stream uni waits req ?w (new_writer req advice))) \<in> {no_usage, mock_usage uni req}"
    unfolding n sse_written using last_usage_cases [of "take n ?cs" no_usage] final by (auto dest: in_set_takeD)
  with True assms show ?thesis by (simp add: settled_usage_def case_prod_beta)
next
  case False
  with assms show ?thesis by (cases cancelled) (simp_all add: settled_usage_def mock_Complete_def Let_def)
qed

lemma mock_usage_bounds:
  assumes "0 < ReqMaxTokens req" "est_input sv req \<le> max_int64"
  shows "TokensIn (mock_usage (srv_unicode sv) req) = est_input sv req"
    and "0 \<le> TokensOut (mock_usage (srv_unicode sv) req)" "TokensOut (mock_usage (srv_unicode sv) req) \<le> ReqMaxTokens req"
  using mock_usage_ge(2) [of "srv_unicode sv" req] mock_usage_le(1) [OF assms(1)] assms(2)
  by (simp_all add: est_input_def mock_usage_def Let_def)

lemma est_tokens_limited:
  assumes "0 < ReqMaxTokens req" "est_input sv req + ReqMaxTokens req \<le> max_int64"
  shows "est_tokens sv req = est_input sv req + ReqMaxTokens req"
  using assms est_input_pos [of sv req]
  by (simp add: est_tokens_def output_estimate_def wrap64_id in_int64_def min_int64_def max_int64_def)

lemma mock_total:
  assumes "0 < ReqMaxTokens req" "est_input sv req + ReqMaxTokens req \<le> max_int64"
    and "uu \<in> {no_usage, mock_usage (srv_unicode sv) req}"
  shows "0 \<le> usage_total uu" "usage_total uu \<le> est_tokens sv req"
proof -
  have n: "0 \<le> est_input sv req" "est_input sv req \<le> max_int64" using est_input_pos [of sv req] assms(1,2) by simp_all
  note out = mock_usage_bounds [OF assms(1) n(2)]
  have "usage_total (mock_usage (srv_unicode sv) req) = est_input sv req + TokensOut (mock_usage (srv_unicode sv) req)"
    using out n assms(2) by (simp add: usage_total_def wrap64_id in_int64_def min_int64_def max_int64_def)
  then show "0 \<le> usage_total uu" "usage_total uu \<le> est_tokens sv req"
    using out n assms est_tokens_limited [OF assms(1,2)] by auto
qed

text \<open>C33: with the mock provider a reservation is never overrun when the client limits the output. The
  usage a request with \<open>max_tokens\<close> is settled with, plain or as a stream that may break off anywhere,
  is not negative and at most the handler's pre-flight estimate.\<close>

theorem mock_within_reservation:
  assumes "Complete (Select (srv_router sv) (ReqModel req)) = mock_Complete (srv_unicode sv) ident cancelled ms"
    and "StreamTo (Select (srv_router sv) (ReqModel req)) = mock_Stream (srv_unicode sv) waits"
    and "0 < ReqMaxTokens req" "est_input sv req + ReqMaxTokens req \<le> max_int64"
  shows "0 \<le> usage_total (settled_usage sv ev req advice) \<and>
    usage_total (settled_usage sv ev req advice) \<le> est_tokens sv req"
  using mock_total [OF assms(3,4) mock_settled_usage [OF assms(1,2)]] by simp

lemma mock_within_reservation_witness:
  "usage_total (settled_usage closed_server closed_env
      (request_of closed_env (closed_request 100 True) closed_identity (closed_body 100 True)) []) \<le>
   est_tokens closed_server (request_of closed_env (closed_request 100 True) closed_identity (closed_body 100 True))"
proof -
  let ?req = "request_of closed_env (closed_request 100 True) closed_identity (closed_body 100 True)"
  have "Select (srv_router closed_server) (ReqModel ?req) = mock_instance" by simp
  with mock_within_reservation [of closed_server ?req "replicate 12 0" None 5 "[]" closed_env "[]"] closed_estimate(2) [of 100 True]
  show ?thesis by (simp add: mock_instance_def max_int64_def)
qed

end
