(* ===== verification/Burst.thy ===== *)
theory Burst
  imports Fleet Streams
begin

text \<open>
  The pool of \<open>Fleet\<close> when no settlement takes more than was reserved: the budget then holds at every
  moment, and not only when a request is admitted. Requests to the mock provider that limit their
  output are of this kind, whatever the policy engine makes of them; they are the requests
  of the fan-out load test (\<open>loadtest/fanout_burst.js\<close>), whose claim is that the
  enforcer never admits too much under load.
\<close>

section \<open>Programs that stay within their reservations\<close>

primrec frugal :: "dimension \<Rightarrow> prog \<Rightarrow> bool" where
  "frugal d (Answer r) \<longleftrightarrow> True"
| "frugal d (CheckThen net tm refs t u cont) \<longleftrightarrow> (\<forall>res. frugal d (cont res))"
| "frugal d (SettleThen fault refs et eu act au p) \<longleftrightarrow> 0 \<le> refund d et eu act au \<and> frugal d p"

primrec frugal_job :: "dimension \<Rightarrow> job \<Rightarrow> bool" where
  "frugal_job d (AtStep p) \<longleftrightarrow> frugal d p"
| "frugal_job d (Paying cs p) \<longleftrightarrow> (\<forall>(k, f, x)\<in>set cs. f = dim_field d \<longrightarrow> 0 \<le> x) \<and> frugal d p"

lemma sent_frugal:
  assumes "0 \<le> refund d et eu act au" "(k, f, x) \<in> set (sent_cmds fault refs et eu act au)" "f = dim_field d"
  shows "0 \<le> x"
proof -
  have "(k, f, x) \<in> set (concat (map (reconcile_cmds (f64_of_int (wrap64 (et - act))) (f64_sub eu au)) refs))"
    using assms(2) set_attempts by (fastforce simp: sent_cmds_def)
  then show ?thesis
    using assms(1,3) by (cases d) (auto simp: reconcile_cmds_def split: if_splits)
qed

lemma resume_frugal: "frugal d p \<Longrightarrow> frugal_job d (resume p)"
proof (induction p)
  case (SettleThen fault refs et eu act au p)
  then show ?case
  proof (cases "sent_cmds fault refs et eu act au")
    case (Cons c cs)
    then have "(k, f, x) \<in> set (c # cs) \<Longrightarrow> f = dim_field d \<Longrightarrow> 0 \<le> x" for k f x
      using SettleThen.prems sent_frugal [of d et eu act au k f x fault refs] by simp
    with Cons SettleThen.prems show ?thesis by auto
  qed simp
qed simp_all

lemma frugal_step:
  assumes "fleet_step rd life w l w'" "\<forall>i. frugal_job d (fst w i)"
  shows "(\<forall>i. frugal_job d (fst w' i)) \<and> overdraft k d (snd (snd l)) = 0"
  using assms(1)
proof cases
  case (ask jobs i net tm refs t u cont dt e T st res e' st')
  have "frugal_job d (fst w i)" using assms(2) by blast
  then have "frugal d (cont res)" by (simp add: ask)
  then show ?thesis using assms(2) resume_frugal by (simp add: ask)
next
  case (lost jobs i net tm refs t u cont dt e tm' T st)
  then show ?thesis using assms(2) by simp
next
  case (pay jobs i k' f x cs p dt st T)
  have "frugal_job d (fst w i)" using assms(2) by blast
  then have "frugal d p" "\<forall>(k, f, x)\<in>set cs. f = dim_field d \<longrightarrow> 0 \<le> x" "f = dim_field d \<longrightarrow> 0 \<le> x"
    by (simp_all add: pay)
  then show ?thesis using assms(2) resume_frugal by (auto simp: pay)
next
  case (lapse dt T st k' jobs)
  then show ?thesis using assms(2) by simp
qed

lemma frugal_run:
  assumes "run (fleet_step rd life) w ls w'" "\<forall>i. frugal_job d (fst w i)"
  shows "(\<Sum>l\<leftarrow>ls. overdraft k d (snd (snd l))) = 0"
proof -
  have "(\<forall>i. frugal_job d (fst w' i)) \<and> (\<Sum>l\<leftarrow>ls. overdraft k d (snd (snd l))) = 0"
    using assms
  proof (induction rule: run_invariant)
    case (step ls w1 l w2)
    then show ?case using frugal_step [OF step(2), of d k] by simp
  qed simp
  then show ?thesis by simp
qed

section \<open>Requests to the mock provider\<close>

definition is_mock :: "unicode \<Rightarrow> provider_inst \<Rightarrow> bool" where
  "is_mock uni p \<longleftrightarrow> (\<exists>ident cancelled ms waits. Complete p = mock_Complete uni ident cancelled ms \<and> StreamTo p = mock_Stream uni waits)"

text \<open>What a request to the mock provider settles with.\<close>

lemma mock_dispatch:
  assumes "is_mock (srv_unicode sv) (Select (srv_router sv) (ReqModel req))"
  obtains (answer) r where "dispatch_prog sv ev req refs t u advice = Answer r"
  | (settle) r uu au where "dispatch_prog sv ev req refs t u advice = SettleThen (reconcile_fault ev) refs t u (usage_total uu) au (Answer r)"
      "uu \<in> {no_usage, mock_usage (srv_unicode sv) req}"
      "au = 0 \<or> au = CostUSD (ReqModel req) (TokensIn uu) 0 (TokensOut uu)"
proof -
  let ?p = "Select (srv_router sv) (ReqModel req)" and ?uu = "settled_usage sv ev req advice"
  obtain ident cancelled ms waits where
    mock: "Complete ?p = mock_Complete (srv_unicode sv) ident cancelled ms" "StreamTo ?p = mock_Stream (srv_unicode sv) waits"
    using assms by (auto simp: is_mock_def)
  have uu: "?uu \<in> {no_usage, mock_usage (srv_unicode sv) req}" by (rule mock_settled_usage [OF mock])
  have "(\<exists>r. dispatch_prog sv ev req refs t u advice = Answer r) \<or>
    (\<exists>r au. dispatch_prog sv ev req refs t u advice = SettleThen (reconcile_fault ev) refs t u (usage_total ?uu) au (Answer r) \<and>
       (au = 0 \<or> au = CostUSD (ReqModel req) (TokensIn ?uu) 0 (TokensOut ?uu)))"
  proof (cases "ReqStream req")
    case True
    obtain err w where s: "StreamTo ?p req (sse_Write (print_json ev) (write_fails ev)) (new_writer req advice) = (err, w)" by fastforce
    show ?thesis
      using True s by (cases err) (auto simp: dispatch_prog_def settled_usage_def stream_prog_def usage_total_def Let_def)
  next
    case False
    then show ?thesis
      by (cases cancelled) (simp_all add: dispatch_prog_def settled_usage_def mock(1) mock_Complete_def usage_total_def Let_def)
  qed
  with uu show ?thesis using answer settle by blast
qed

text \<open>A request to the mock provider that limits its output, and whose numbers are far from an overflow.\<close>

definition mock_limited :: "'s server \<Rightarrow> request \<Rightarrow> bool" where
  "mock_limited sv req \<longleftrightarrow> is_mock (srv_unicode sv) (Select (srv_router sv) (ReqModel req)) \<and>
     0 < ReqMaxTokens req \<and> est_input sv req + ReqMaxTokens req \<le> max_int64"

lemma int64_diff: "0 \<le> a \<Longrightarrow> a \<le> b \<Longrightarrow> b \<le> max_int64 \<Longrightarrow> wrap64 (b - a) = b - a"
  by (rule wrap64_id) (simp add: in_int64_def min_int64_def max_int64_def)

lemma dispatch_frugal:
  assumes "mock_limited sv req"
  shows "frugal d (dispatch_prog sv ev req refs (est_tokens sv req) (est_usd sv req) advice)"
proof -
  have req: "is_mock (srv_unicode sv) (Select (srv_router sv) (ReqModel req))" "0 < ReqMaxTokens req"
    "est_input sv req + ReqMaxTokens req \<le> max_int64" using assms by (simp_all add: mock_limited_def)
  then have n: "0 \<le> est_input sv req" "est_input sv req \<le> max_int64" using est_input_pos [of sv req] by simp_all
  have out: "output_estimate (ReqMaxTokens req) = ReqMaxTokens req" using req(2) by (simp add: output_estimate_def)
  from req(1) show ?thesis
  proof (cases rule: mock_dispatch [of sv req ev refs "est_tokens sv req" "est_usd sv req" advice, case_names answer settle])
    case (settle r uu au)
    note total = mock_total [OF req(2,3) settle(2)]
    have "0 \<le> refund d (est_tokens sv req) (est_usd sv req) (usage_total uu) au"
    proof (cases d)
      case TokenDim
      have "wrap64 (est_tokens sv req - usage_total uu) = est_tokens sv req - usage_total uu"
        by (rule int64_diff [OF total]) (use req in \<open>simp add: est_tokens_limited\<close>)
      then show ?thesis using TokenDim total(2) by (simp add: f64_of_int_nonneg)
    next
      case DollarDim
      have "0 \<le> CostUSD (ReqModel req) (est_input sv req) 0 (ReqMaxTokens req)" using req(2) by (intro CostUSD_nonneg) simp_all
      moreover have "CostUSD (ReqModel req) (TokensIn uu) 0 (TokensOut uu) \<le> CostUSD (ReqModel req) (est_input sv req) 0 (ReqMaxTokens req)"
        using settle(2) mock_usage_bounds [OF req(2) n(2)] n req(2)
        by (intro CostUSD_mono) (auto simp: in_int64_def min_int64_def max_int64_def)
      ultimately have "au \<le> est_usd sv req" using settle(3) by (auto simp: est_usd_def out)
      then show ?thesis using DollarDim by (simp add: f64_sub_def f64.r_nonneg)
    qed
    then show ?thesis by (simp add: settle(1))
  qed simp
qed

text \<open>The policy engine keeps the limit: a cheaper model is of the same provider, and an allowance is positive.\<close>

definition mock_service :: "'s server \<Rightarrow> bool" where
  "mock_service sv \<longleftrightarrow> iteration_order (srv_order sv) \<and> 0 < MinPartialAllowanceTokens (srv_policy sv)"

lemma est_input_update [simp]:
  "est_input sv (req\<lparr>ReqModel := m\<rparr>) = est_input sv req" "est_input sv (req\<lparr>ReqMaxTokens := n\<rparr>) = est_input sv req"
  by (simp_all add: est_input_def)

lemma retry_frugal:
  assumes "mock_limited sv rq" "t = est_tokens sv rq" "u = est_usd sv rq"
  shows "frugal d (retry_prog sv ev rq refs dec outc t u)"
  using dispatch_frugal [OF assms(1)] by (simp add: retry_prog_def assms(2,3) split: sum.split)

lemma pressure_frugal:
  assumes "mock_service sv" "mock_limited sv req" "est_input sv req \<le> 2 ^ 52" "ReqMaxTokens req \<le> 2 ^ 52"
  shows "frugal d (pressure_prog sv ev req refs dec (est_input sv req) (est_tokens sv req))"
proof -
  let ?outc = "policy_outcome sv ev req dec (est_tokens sv req)"
  have req: "is_mock (srv_unicode sv) (Select (srv_router sv) (ReqModel req))" "0 < ReqMaxTokens req"
    "est_input sv req + ReqMaxTokens req \<le> max_int64" using assms(2) by (simp_all add: mock_limited_def)
  have "frugal d (retry_prog sv ev (req\<lparr>ReqModel := Model ?outc\<rparr>) refs dec ?outc
      (wrap64 (est_input sv req + output_estimate (ReqMaxTokens req)))
      (CostUSD (Model ?outc) (est_input sv req) 0 (output_estimate (ReqMaxTokens req))))"
    if "Action ?outc = ActionRetryWithModel"
  proof (rule retry_frugal)
    have "modelFamily (Model ?outc) = modelFamily (ReqModel req)"
      using Decide_RetryWithModel [OF that [unfolded policy_outcome_def]] assms(1)
      by (auto simp: isVerifiedCheaperModel_iff mock_service_def policy_outcome_def)
    then have "Select (srv_router sv) (Model ?outc) = Select (srv_router sv) (ReqModel req)" by (simp only: Select_eq)
    then show "mock_limited sv (req\<lparr>ReqModel := Model ?outc\<rparr>)" using req by (simp add: mock_limited_def)
  qed (simp_all add: est_tokens_def est_usd_def)
  moreover have "frugal d (retry_prog sv ev (req\<lparr>ReqMaxTokens := MaxTokens ?outc\<rparr>) refs dec ?outc
      (wrap64 (est_input sv req + MaxTokens ?outc)) (CostUSD (ReqModel req) (est_input sv req) 0 (MaxTokens ?outc)))"
    if "Action ?outc = ActionPartialAllowance"
  proof -
    have m: "0 < MaxTokens ?outc" "MaxTokens ?outc < est_tokens sv req"
      using Decide_PartialAllowance(1,2) [OF that [unfolded policy_outcome_def]] assms(1)
      by (simp_all add: mock_service_def policy_outcome_def)
    then have "est_input sv req + MaxTokens ?outc \<le> max_int64"
      using est_tokens_limited [OF req(2,3)] assms(3,4) by (simp add: max_int64_def)
    then show ?thesis
      using m(1) req(1) by (intro retry_frugal) (simp_all add: mock_limited_def est_tokens_def est_usd_def output_estimate_def)
  qed
  ultimately show ?thesis by (simp add: pressure_prog_def Let_def split: action.split)
qed

definition mock_request :: "'s server \<Rightarrow> env \<Rightarrow> client_request \<Rightarrow> identity \<Rightarrow> bool" where
  "mock_request sv ev cr ident \<longleftrightarrow> mock_service sv \<and> sent_once (reconcile_fault ev) \<and>
     (case bind_chat (ReqBody cr) of None \<Rightarrow> True | Some body \<Rightarrow>
        is_mock (srv_unicode sv) (Select (srv_router sv) (CModel body)) \<and> 0 < CMaxTokens body \<and> CMaxTokens body \<le> 2 ^ 52 \<and>
        est_input sv (request_of ev cr ident body) \<le> 2 ^ 52)"

lemma request_frugal:
  assumes "mock_request sv ev cr ident"
  shows "frugal d (request_prog sv ev cr ident cfg)"
proof (cases "bind_chat (ReqBody cr)")
  case (Some body)
  let ?req = "request_of ev cr ident body"
  have lim: "mock_service sv" "mock_limited sv ?req" "est_input sv ?req \<le> 2 ^ 52" "ReqMaxTokens ?req \<le> 2 ^ 52"
    using assms Some by (auto simp: mock_request_def mock_limited_def max_int64_def)
  then show ?thesis
    using pressure_frugal [OF lim, of d ev] dispatch_frugal [OF lim(2), of d ev]
    by (simp add: request_prog_def Some Let_def split: sum.split)
qed (simp add: request_prog_def)

section \<open>The fan-out burst\<close>

text \<open>A pool of requests like those of the load test, on replicas that share the store.\<close>

definition mock_burst :: "'s redis \<Rightarrow> (nat \<Rightarrow> job) \<Rightarrow> bool" where
  "mock_burst rd jobs \<longleftrightarrow>
     (\<forall>i. \<exists>sv ev cr ident cfg. srv_redis sv = rd \<and> mock_request sv ev cr ident \<and> jobs i = resume (request_prog sv ev cr ident cfg))"

text \<open>C4: the burst never overspends. When all requests go to the mock provider and limit their output,
  as in the fan-out load test, what they have taken from a bucket, in flight or settled, is within
  the budget at every moment of every interleaving, and not only when a request is admitted: no
  settlement takes more than was reserved, whether the policy engine switched the model or cut the allowance, whether
  a stream broke off or the connection to the store did (as long as the client does not send a
  reconciliation again).\<close>

theorem mock_burst_never_overspends:
  assumes "run (fleet_step rd life) (jobs, st, T) ls w'" "mock_burst rd jobs"
    and "new_bucket rd k d lm rate st T (map (snd \<circ> snd) ls) (snd (snd w'))"
  shows "(\<Sum>i\<in>requests_of ls. spent k d (map snd (of_request i ls))) \<le> lm + drift * rate * (snd (snd w') - T) +
      imprecision lm rate (\<Sum>l\<leftarrow>ls. moved k d (snd (snd l))) (length ls) + (\<Sum>l\<leftarrow>ls. windfall k d lm rate life (snd (snd l)))"
proof -
  have "frugal_job d (fst (jobs, st, T) i)" for i
    using assms(2) request_frugal resume_frugal unfolding mock_burst_def by (metis fst_conv)
  then have "(\<Sum>l\<leftarrow>ls. overdraft k d (snd (snd l))) = 0" using frugal_run [OF assms(1)] by blast
  with fleet_total [OF assms(1,3)] show ?thesis by simp
qed

lemma mock_burst_never_overspends_witness:
  "\<exists>ls w'. run (fleet_step mem_redis 3600) (\<lambda>_. resume closed_prog, mem_empty, 0) ls w' \<and> length ls = 1 \<and>
     (\<Sum>i\<in>requests_of ls. spent (Key ''t'' [] [] ScopeTenant) TokenDim (map snd (of_request i ls))) \<le>
       100000 + imprecision 100000 5 0 1"
proof -
  let ?k = "Key ''t'' [] [] ScopeTenant"
  obtain u d w' where r: "run (fleet_step mem_redis 3600) (\<lambda>_. resume closed_prog, mem_empty, 0)
      [(Some 0, 0, Asked [refill_ref] closed_need u (Some d))] w'" "Allowed d" "snd (snd w') = 0"
    by (rule closed_fleet)
  let ?ls = "[(Some (0 :: nat), 0 :: rat, Asked [refill_ref] closed_need u (Some d))]"
  have new: "new_bucket mem_redis ?k TokenDim 100000 5 mem_empty 0 (map (snd \<circ> snd) ?ls) (snd (snd w'))"
    using redis_laws_mem
    by (simp add: new_bucket_def capped_bucket_def refill_ref_def zero_limits_def r(3)) (simp add: mem_redis_def mem_empty_def)
  have "is_mock ascii_unicode mock_instance" unfolding is_mock_def mock_instance_def provider_inst.simps by blast
  then have "mock_request closed_server closed_env (closed_request 100 False) closed_identity"
    using closed_estimate(2) [of 100 False] bind_closed [of 100 False] iteration_order_pricingTable
    by (simp add: mock_request_def mock_service_def DefaultConfig_def)
  then have "mock_burst mem_redis (\<lambda>_. resume closed_prog)"
    unfolding mock_burst_def closed_prog_def using closed_sel(1) by blast
  from mock_burst_never_overspends [OF r(1) this new] r(1,3) show ?thesis
    by (intro exI [of _ ?ls] exI [of _ w']) simp
qed

end
