(* ===== verification/Refinement.thy ===== *)
theory Refinement
  imports Ledger
begin

text \<open>
  The abstract budget: an integer balance per bucket, a call that is admitted exactly when every
  balance covers its estimate and then costs its actual usage. The enforcer's check and its
  reconciliation, floating point, decimal text and all, refine it, for token budgets that are
  not refilled.
\<close>

section \<open>The specification\<close>

type_synonym balances = "string \<Rightarrow> int"

record metered_call =
  MRefs :: "bucket_ref list"
  MEst :: int
  MAct :: int
  MTime :: redis_time

definition spec_call :: "metered_call \<Rightarrow> balances \<Rightarrow> bool \<times> balances" where
  "spec_call c bal =
     (if \<forall>r\<in>set (MRefs c). MEst c \<le> bal (RefKey r)
      then (True, \<lambda>k. if mentions k (MRefs c) then bal k - MAct c else bal k)
      else (False, bal))"

fun spec_calls :: "metered_call list \<Rightarrow> balances \<Rightarrow> bool list \<times> balances" where
  "spec_calls [] bal = ([], bal)"
| "spec_calls (c # cs) bal =
     (case spec_call c bal of (ok, bal') \<Rightarrow> (case spec_calls cs bal' of (oks, bal'') \<Rightarrow> (ok # oks, bal'')))"

section \<open>The implementation\<close>

text \<open>A call as the handler makes it: a check with the estimate, and a reconciliation with the actual
  usage when it was admitted.\<close>

definition metered :: "'s redis \<Rightarrow> net \<Rightarrow> metered_call \<Rightarrow> enforcer \<times> 's \<Rightarrow> bool \<times> enforcer \<times> 's" where
  "metered rd net c est =
     (case CheckAndDecrement rd net (MTime c) (fst est) (MRefs c) (MEst c) 0 (snd est) of
        (Inr d, e', st1) \<Rightarrow>
          (if Allowed d then (True, e', snd (Reconcile rd no_fault (MRefs c) (MEst c) 0 (MAct c) 0 st1)) else (False, e', st1))
      | (Inl err, e', st1) \<Rightarrow> (False, e', st1))"

fun metered_calls :: "'s redis \<Rightarrow> net \<Rightarrow> metered_call list \<Rightarrow> enforcer \<times> 's \<Rightarrow> bool list \<times> enforcer \<times> 's" where
  "metered_calls rd net [] est = ([], est)"
| "metered_calls rd net (c # cs) est =
     (case metered rd net c est of (ok, est') \<Rightarrow>
        (case metered_calls rd net cs est' of (oks, est'') \<Rightarrow> (ok # oks, est'')))"

section \<open>The abstraction\<close>

definition token_budgets :: "bucket_ref set \<Rightarrow> bool" where
  "token_budgets cfg \<longleftrightarrow> inj_on RefKey cfg \<and>
     (\<forall>r\<in>cfg. 0 < TokenLimit (Limits r) \<and> TokenLimit (Limits r) \<le> 10 ^ 14 \<and> RefillTokensPerSec (Limits r) = 0 \<and>
        DollarLimit (Limits r) \<le> 0)"

definition represents :: "'s redis \<Rightarrow> bucket_ref set \<Rightarrow> 's \<Rightarrow> balances \<Rightarrow> bool" where
  "represents rd cfg st bal \<longleftrightarrow>
     (\<forall>r\<in>cfg. - (2 ^ 52) \<le> bal (RefKey r) \<and> bal (RefKey r) \<le> TokenLimit (Limits r) \<and>
        (case hget rd st (RefKey r) ''tokens_remaining'' of
           None \<Rightarrow> bal (RefKey r) = TokenLimit (Limits r)
         | Some v \<Rightarrow> v = of_int (bal (RefKey r))))"

definition call_ok :: "bucket_ref set \<Rightarrow> metered_call \<Rightarrow> bool" where
  "call_ok cfg c \<longleftrightarrow> MRefs c \<noteq> [] \<and> distinct (MRefs c) \<and> set (MRefs c) \<subseteq> cfg \<and> 0 \<le> MEst c \<and>
     0 \<le> MAct c \<and> MAct c \<le> 2 ^ 52"

definition healthy :: "net \<Rightarrow> bool" where
  "healthy net \<longleftrightarrow> resent net = [] \<and> evalsha_fault net = None \<and> eval_fault net = None"

lemma healthy_reachable [simp]: "healthy net \<Longrightarrow> reachable_backend net e"
  by (simp add: healthy_def reachable_backend_def)

lemma represents_view:
  assumes "token_budgets cfg" "represents rd cfg st bal" "r \<in> cfg"
  shows "computed_tokens (view rd now st r) = of_int (bal (RefKey r))"
proof -
  have r: "RefillTokensPerSec (Limits r) = 0" "0 < TokenLimit (Limits r)" "TokenLimit (Limits r) \<le> 10 ^ 14"
    using assms(1,3) by (auto simp: token_budgets_def)
  have b: "- (2 ^ 52) \<le> bal (RefKey r)" "bal (RefKey r) \<le> TokenLimit (Limits r)"
    using assms(2,3) by (auto simp: represents_def)
  then have "f64 (of_int (bal (RefKey r))) = of_int (bal (RefKey r))" using r by (intro f64_short_int) simp
  then show ?thesis
    using b(2) assms(2,3) unfolding view_fixed [OF refl r]
    by (auto simp: represents_def split: option.splits)
qed

lemma estimate_covered:
  assumes "0 \<le> t" "b \<le> 10 ^ 14" "- (2 ^ 52) \<le> b"
  shows "f64_of_int t \<le> of_int b \<longleftrightarrow> t \<le> b"
proof
  show "t \<le> b" if "f64_of_int t \<le> of_int b" using f64_of_int_le_imp [OF that] assms by simp
  show "f64_of_int t \<le> of_int b" if "t \<le> b"
    using that assms f64_of_int_exact [of t] by simp
qed

section \<open>The refinement\<close>

lemma metered_refines:
  assumes "redis_laws rd" "healthy net" "token_budgets cfg" "represents rd cfg (snd est) bal" "call_ok cfg c"
  shows "fst (metered rd net c est) = fst (spec_call c bal) \<and>
    represents rd cfg (snd (snd (metered rd net c est))) (snd (spec_call c bal))"
proof -
  let ?refs = "MRefs c" and ?st = "snd est" and ?now = "lua_now (MTime c)"
  have ok: "?refs \<noteq> []" "set ?refs \<subseteq> cfg" "0 \<le> MEst c" "0 \<le> MAct c" "MAct c \<le> 2 ^ 52"
    and dist: "distinct (map RefKey ?refs)"
    using assms(3,5) by (auto simp: call_ok_def token_budgets_def distinct_map intro: inj_on_subset)
  have lim: "0 < TokenLimit (Limits r)" "TokenLimit (Limits r) \<le> 10 ^ 14" "DollarLimit (Limits r) \<le> 0"
    "- (2 ^ 52) \<le> bal (RefKey r)" "bal (RefKey r) \<le> TokenLimit (Limits r)" if "r \<in> cfg" for r
    using that assms(3,4) by (auto simp: token_budgets_def represents_def)
  have reach: "reachable_backend net (fst est)" using assms(2) by simp
  note view = represents_view [OF assms(3,4)]
  have enough: "enough rd ?now ?st ?refs (f64_of_int (MEst c)) 0 \<longleftrightarrow> (\<forall>r\<in>set ?refs. MEst c \<le> bal (RefKey r))"
    unfolding enough_iff
  proof (intro ball_cong refl)
    fix r assume "r \<in> set ?refs"
    then have "r \<in> cfg" using ok(2) by blast
    note l = lim [OF this]
    show "((0 < TokenLimit (Limits r) \<longrightarrow> f64_of_int (MEst c) \<le> computed_tokens (view rd ?now ?st r)) \<and>
        (0 < DollarLimit (Limits r) \<longrightarrow> 0 \<le> computed_usd (view rd ?now ?st r))) = (MEst c \<le> bal (RefKey r))"
      using l estimate_covered [OF ok(3) _ l(4)] by (simp add: view [OF \<open>r \<in> cfg\<close>])
  qed
  obtain d e' st1 where call: "CheckAndDecrement rd net (MTime c) (fst est) ?refs (MEst c) 0 ?st = (Inr d, e', st1)"
    using reachable_decision [OF ok(1) reach] by metis
  show ?thesis
  proof (cases rule: Allowed_cases [OF ok(1) reach call])
    case 1
    have "\<not> enough rd ?now ?st ?refs (f64_of_int (MEst c)) 0"
    proof
      assume "enough rd ?now ?st ?refs (f64_of_int (MEst c)) 0"
      then obtain d0 e0 s0 where "CheckAndDecrement rd net (MTime c) (fst est) ?refs (MEst c) 0 ?st = (Inr d0, e0, s0)" "Allowed d0"
        using allowed_call [OF ok(1) reach ok(3) order_refl] by metis
      with call 1 show False by simp
    qed
    with 1 show ?thesis using call assms(4) enough by (auto simp: metered_def spec_call_def)
  next
    case 2
    obtain err st2 where rec: "Reconcile rd no_fault ?refs (MEst c) 0 (MAct c) 0 st1 = (err, st2)" by fastforce
    let ?bal = "\<lambda>k. if mentions k ?refs then bal k - MAct c else bal k"
    have "represents rd cfg st2 ?bal"
      unfolding represents_def
    proof (intro ballI)
      fix r assume r: "r \<in> cfg"
      note l = lim [OF r]
      show "- (2 ^ 52) \<le> ?bal (RefKey r) \<and> ?bal (RefKey r) \<le> TokenLimit (Limits r) \<and>
        (case hget rd st2 (RefKey r) ''tokens_remaining'' of
           None \<Rightarrow> ?bal (RefKey r) = TokenLimit (Limits r) | Some v \<Rightarrow> v = of_int (?bal (RefKey r)))"
      proof (cases "r \<in> set ?refs")
        case True
        then have m: "mentions (RefKey r) ?refs" by (simp add: mentions_def)
        have "0 \<le> bal (RefKey r)" using 2(4) enough ok(3) True by fastforce
        with charge_after_reconcile [OF assms(1) reach ok(1) dist call 2(1) rec True l(1,2) _ view [OF r]]
          ok(4,5) l(5) m show ?thesis by simp
      next
        case False
        then have m: "\<not> mentions (RefKey r) ?refs"
          using assms(3) r ok(2) by (auto simp: mentions_def token_budgets_def inj_on_def subset_iff)
        have "hget rd st1 (RefKey r) f = hget rd ?st (RefKey r) f" for f
          unfolding 2(5) using m by (intro committed_other [OF assms(1) dist]) (simp add: mentions_def)
        moreover have "hget rd st2 (RefKey r) ''tokens_remaining'' = hget rd st1 (RefKey r) ''tokens_remaining''"
          using rec m by (auto simp: Reconcile_def Let_def pipe_exec_def hget_run_incrs [OF assms(1)] incrs_of_other
              mentions_def split: if_splits)
        ultimately show ?thesis using assms(4) r m by (simp add: represents_def)
      qed
    qed
    with 2 call rec enough show ?thesis by (simp add: metered_def spec_call_def)
  qed
qed

text \<open>C6: the enforcer refines an integer ledger. For token budgets that are not refilled and any
  sequence of calls over a healthy connection, the decisions of checks followed by
  reconciliations are those of the specification, in which a call is admitted exactly when every
  balance covers its estimate and then costs its actual usage in every bucket, and the stored
  balances stay those of the specification: floating point and decimal text are exact here.\<close>

theorem metered_calls_refine:
  assumes "redis_laws rd" "healthy net" "token_budgets cfg" "represents rd cfg (snd est) bal" "\<forall>c\<in>set cs. call_ok cfg c"
  shows "fst (metered_calls rd net cs est) = fst (spec_calls cs bal) \<and>
    represents rd cfg (snd (snd (metered_calls rd net cs est))) (snd (spec_calls cs bal))"
  using assms(4,5)
proof (induction cs arbitrary: est bal)
  case (Cons c cs)
  obtain ok est' where m: "metered rd net c est = (ok, est')" by (cases "metered rd net c est")
  obtain bal' where s: "spec_call c bal = (ok, bal')" "represents rd cfg (snd est') bal'"
    using metered_refines [OF assms(1-3) Cons.prems(1), of c] Cons.prems(2) m by (cases "spec_call c bal") auto
  from Cons.IH [OF s(2)] Cons.prems(2) m s(1) show ?case by (auto simp: case_prod_beta)
qed simp

definition demo_call :: "int \<Rightarrow> int \<Rightarrow> metered_call" where
  "demo_call est act = \<lparr>MRefs = [tenant_ref ''t'' 1000], MEst = est, MAct = act, MTime = (0, 0)\<rparr>"

lemma metered_calls_refine_witness:
  "fst (metered_calls mem_redis net_ok [demo_call 600 450, demo_call 600 10, demo_call 500 550] (NewEnforcer 3600, mem_empty)) =
     [True, False, True]"
proof -
  have "token_budgets {tenant_ref ''t'' 1000}" "healthy net_ok"
    "represents mem_redis {tenant_ref ''t'' 1000} mem_empty (\<lambda>_. 1000)"
    "\<forall>c\<in>set [demo_call 600 450, demo_call 600 10, demo_call 500 550]. call_ok {tenant_ref ''t'' 1000} c"
    by (simp_all add: token_budgets_def healthy_def represents_def call_ok_def demo_call_def closed_refs mem_redis_def mem_empty_def)
  from metered_calls_refine [OF redis_laws_mem this(2,1) _ this(4), of "(NewEnforcer 3600, mem_empty)" "\<lambda>_. 1000"] this(3)
  show ?thesis by (simp add: spec_call_def demo_call_def mentions_def tenant_ref_def)
qed

end
