(* ===== verification/AuthRuns.thy ===== *)
theory AuthRuns
  imports Auth Runs
begin

text \<open>
  Concurrent authentication: the requests of one gateway share the cache, each does its cache
  lookup, its database verification and its cache write as separate steps, the eviction loop
  runs between them, time passes and the key table changes (keys are issued and revoked). The
  lemmas show where every identity the gateway serves comes from and how long it can be served.
\<close>

record auth_state =
  the_store :: store
  table :: "keyRecord list"
  clock :: int
  pending :: "(string \<times> identity \<times> int) list"

text \<open>
  \<open>Hit\<close> and \<open>Stored\<close> return an identity to a caller; \<open>Verified\<close> carries the record whose hash
  matched. Each event carries the time of its step.
\<close>

datatype auth_event =
  Hit int string identity
| Verified int string identity keyRecord
| Stored int string identity int
| Evicted int
| Passed int
| KeysChanged int

definition answers :: "keyRecord list \<Rightarrow> string \<Rightarrow> key_query \<Rightarrow> bool" where
  "answers tab prefix q \<longleftrightarrow>
     (case q of KeyQueryError _ \<Rightarrow> True | KeyRows rows \<Rightarrow> \<forall>r. Inr r \<in> set rows \<longrightarrow> r \<in> set (select_keys tab prefix))"

inductive auth_step :: "crypto \<Rightarrow> auth_state \<Rightarrow> auth_event \<Rightarrow> auth_state \<Rightarrow> bool" for c where
  hit: "cache_hit c (clock s) rawKey (the_store s) = Some i \<Longrightarrow>
     auth_step c s (Hit (clock s) rawKey i) s"
| verified: "answers (table s) (take keyPrefixLen rawKey) q \<Longrightarrow> lookupAndVerify c (\<lambda>_. q) rawKey = Inr i \<Longrightarrow>
     rec \<in> set (table s) \<Longrightarrow> RevokedAt rec = None \<Longrightarrow> KeyPrefix rec = take keyPrefixLen rawKey \<Longrightarrow>
     bcrypt_matches c (HashedKey rec) rawKey \<Longrightarrow> parseScopes (ScopesRaw rec) = Some scopes \<Longrightarrow>
     i = identity_of rec scopes \<Longrightarrow>
     auth_step c s (Verified (clock s) rawKey i rec) (s\<lparr>pending := (rawKey, i, clock s) # pending s\<rparr>)"
| stored: "(rawKey, i, v) \<in> set (pending s) \<Longrightarrow>
     auth_step c s (Stored (clock s) rawKey i v)
       (s\<lparr>the_store := cache_store c (clock s) rawKey i (the_store s),
          pending := remove1 (rawKey, i, v) (pending s)\<rparr>)"
| evicted: "auth_step c s (Evicted (clock s)) (s\<lparr>the_store := evictExpired (clock s) (the_store s)\<rparr>)"
| passed: "0 \<le> d \<Longrightarrow> auth_step c s (Passed (clock s)) (s\<lparr>clock := clock s + d\<rparr>)"
| changed: "auth_step c s (KeysChanged (clock s)) (s\<lparr>table := tab\<rparr>)"

text \<open>The verified step never gets stuck: a verification that succeeds on an answer of the database
  has a record of the table behind it.\<close>

lemma verified_step:
  assumes "answers (table s) (take keyPrefixLen rawKey) q" "lookupAndVerify c (\<lambda>_. q) rawKey = Inr i"
  shows "\<exists>rec. auth_step c s (Verified (clock s) rawKey i rec) (s\<lparr>pending := (rawKey, i, clock s) # pending s\<rparr>)"
proof -
  obtain rows rec scopes where "q = KeyRows rows" "Inr rec \<in> set rows" and rec:
    "bcrypt_matches c (HashedKey rec) rawKey" "parseScopes (ScopesRaw rec) = Some scopes" "i = identity_of rec scopes"
    using assms(2) by (rule lookupAndVerify_Inr)
  with assms(1) have "rec \<in> set (table s)" "RevokedAt rec = None" "KeyPrefix rec = take keyPrefixLen rawKey"
    by (auto simp: answers_def select_keys_def)
  from auth_step.verified [OF assms this rec] show ?thesis ..
qed

definition fresh_auth :: "auth_state \<Rightarrow> bool" where
  "fresh_auth s \<longleftrightarrow> cache (the_store s) = Map.empty \<and> pending s = []"

text \<open>A verification of the key \<open>rawKey\<close> for the identity \<open>i\<close> at time \<open>v\<close> is in the history.\<close>

definition verified_by :: "crypto \<Rightarrow> auth_event list \<Rightarrow> string \<Rightarrow> identity \<Rightarrow> int \<Rightarrow> bool" where
  "verified_by c evs rawKey i v \<longleftrightarrow>
     (\<exists>rec scopes. Verified v rawKey i rec \<in> set evs \<and> RevokedAt rec = None \<and>
        KeyPrefix rec = take keyPrefixLen rawKey \<and> bcrypt_matches c (HashedKey rec) rawKey \<and>
        parseScopes (ScopesRaw rec) = Some scopes \<and> i = identity_of rec scopes)"

lemma verified_by_mono: "verified_by c evs rawKey i v \<Longrightarrow> verified_by c (evs @ evs') rawKey i v"
  by (auto simp: verified_by_def)

definition stored_by :: "crypto \<Rightarrow> auth_event list \<Rightarrow> string \<Rightarrow> identity \<Rightarrow> int \<Rightarrow> bool" where
  "stored_by c evs rawKey i w \<longleftrightarrow>
     (\<exists>v. Stored w rawKey i v \<in> set evs \<and> v \<le> w \<and> verified_by c evs rawKey i v)"

lemma stored_by_mono: "stored_by c evs rawKey i w \<Longrightarrow> stored_by c (evs @ evs') rawKey i w"
  by (auto simp: stored_by_def intro: verified_by_mono)

definition auth_inv :: "crypto \<Rightarrow> int \<Rightarrow> auth_state \<Rightarrow> auth_event list \<Rightarrow> bool" where
  "auth_inv c life s evs \<longleftrightarrow> ttl (the_store s) = life \<and>
     (\<forall>rawKey i v. (rawKey, i, v) \<in> set (pending s) \<longrightarrow> v \<le> clock s \<and> verified_by c evs rawKey i v) \<and>
     (\<forall>ck en. cache (the_store s) ck = Some en \<longrightarrow>
        (\<exists>rawKey w. ck = cacheKey c rawKey \<and> w \<le> clock s \<and> expiresAt en = w + life \<and>
           stored_by c evs rawKey (identity en) w)) \<and>
     (\<forall>t rawKey i. Hit t rawKey i \<in> set evs \<longrightarrow>
        (\<exists>rawKey' w. cacheKey c rawKey' = cacheKey c rawKey \<and> w \<le> t \<and> t < w + life \<and> stored_by c evs rawKey' i w)) \<and>
     (\<forall>w rawKey i v. Stored w rawKey i v \<in> set evs \<longrightarrow> v \<le> w \<and> verified_by c evs rawKey i v)"

lemma auth_invI:
  assumes "auth_inv c life s evs" "ttl (the_store s') = ttl (the_store s)" "clock s \<le> clock s'"
    and "\<And>rawKey i v. (rawKey, i, v) \<in> set (pending s') \<Longrightarrow>
      (rawKey, i, v) \<in> set (pending s) \<or> v \<le> clock s' \<and> verified_by c (evs @ [ev]) rawKey i v"
    and "\<And>ck en. cache (the_store s') ck = Some en \<Longrightarrow> cache (the_store s) ck = Some en \<or>
      (\<exists>rawKey w. ck = cacheKey c rawKey \<and> w \<le> clock s' \<and> expiresAt en = w + life \<and>
         stored_by c (evs @ [ev]) rawKey (identity en) w)"
    and "\<And>t rawKey i. ev = Hit t rawKey i \<Longrightarrow>
      \<exists>rawKey' w. cacheKey c rawKey' = cacheKey c rawKey \<and> w \<le> t \<and> t < w + life \<and> stored_by c (evs @ [ev]) rawKey' i w"
    and "\<And>w rawKey i v. ev = Stored w rawKey i v \<Longrightarrow> v \<le> w \<and> verified_by c (evs @ [ev]) rawKey i v"
  shows "auth_inv c life s' (evs @ [ev])"
  unfolding auth_inv_def
proof (intro conjI allI impI)
  note inv = assms(1) [unfolded auth_inv_def]
  note mono = stored_by_mono [of c evs _ _ _ "[ev]"] verified_by_mono [of c evs _ _ _ "[ev]"]
  show "ttl (the_store s') = life" using inv assms(2) by simp
  show "v \<le> clock s'" "verified_by c (evs @ [ev]) rawKey i v" if "(rawKey, i, v) \<in> set (pending s')" for rawKey i v
    using assms(4) [OF that] inv assms(3) mono(2) by (meson order_trans)+
  show "\<exists>rawKey w. ck = cacheKey c rawKey \<and> w \<le> clock s' \<and> expiresAt en = w + life \<and>
      stored_by c (evs @ [ev]) rawKey (identity en) w" if "cache (the_store s') ck = Some en" for ck en
    using assms(5) [OF that] inv assms(3) mono(1) by (meson order_trans)
  show "\<exists>rawKey' w. cacheKey c rawKey' = cacheKey c rawKey \<and> w \<le> t \<and> t < w + life \<and> stored_by c (evs @ [ev]) rawKey' i w"
    if "Hit t rawKey i \<in> set (evs @ [ev])" for t rawKey i
  proof (cases "ev = Hit t rawKey i")
    case False
    then have "Hit t rawKey i \<in> set evs" using that by auto
    with inv mono(1) show ?thesis by meson
  qed (rule assms(6))
  show "v \<le> w" "verified_by c (evs @ [ev]) rawKey i v" if "Stored w rawKey i v \<in> set (evs @ [ev])" for w rawKey i v
  proof -
    have "v \<le> w \<and> verified_by c (evs @ [ev]) rawKey i v"
    proof (cases "ev = Stored w rawKey i v")
      case False
      then have "Stored w rawKey i v \<in> set evs" using that by auto
      with inv mono(2) show ?thesis by meson
    qed (rule assms(7))
    then show "v \<le> w" "verified_by c (evs @ [ev]) rawKey i v" by blast+
  qed
qed

lemma auth_inv_step:
  assumes "auth_inv c life s evs" "auth_step c s ev s'"
  shows "auth_inv c life s' (evs @ [ev])"
  using assms(2)
proof cases
  case (hit rawKey i)
  then obtain en where "cache (the_store s) (cacheKey c rawKey) = Some en" "clock s < expiresAt en" "i = identity en"
    by (auto simp: cache_hit_def split: option.splits if_splits)
  moreover from this assms(1) obtain rawKey' w where "cacheKey c rawKey' = cacheKey c rawKey" "w \<le> clock s"
    "expiresAt en = w + life" "stored_by c evs rawKey' i w"
    unfolding auth_inv_def by metis
  ultimately have "\<exists>rawKey' w. cacheKey c rawKey' = cacheKey c rawKey \<and> w \<le> clock s \<and> clock s < w + life \<and>
      stored_by c (evs @ [ev]) rawKey' i w"
    by (metis stored_by_mono)
  with hit show ?thesis by (intro auth_invI [OF assms(1)]) simp_all
next
  case (verified rawKey q i rec scopes)
  then have "verified_by c (evs @ [ev]) rawKey i (clock s)" by (auto simp: verified_by_def)
  with verified(1,2) show ?thesis by (intro auth_invI [OF assms(1)]) auto
next
  case (stored rawKey i v)
  then have v: "v \<le> clock s" "verified_by c evs rawKey i v" using assms(1) by (auto simp: auth_inv_def)
  then have "stored_by c (evs @ [ev]) rawKey i (clock s)"
    using stored(1) by (auto simp: stored_by_def intro: verified_by_mono)
  moreover have "ttl (the_store s) = life" using assms(1) by (simp add: auth_inv_def)
  ultimately show ?thesis
    using stored(1,2) v set_remove1_subset [of "(rawKey, i, v)" "pending s"]
    by (intro auth_invI [OF assms(1)]) (auto simp: cache_store_def intro: verified_by_mono split: if_splits)
next
  case evicted
  then show ?thesis
    by (intro auth_invI [OF assms(1)]) (auto simp: evictExpired_def split: option.splits if_splits)
next
  case (passed d)
  then show ?thesis by (intro auth_invI [OF assms(1)]) auto
next
  case (changed tab)
  then show ?thesis by (intro auth_invI [OF assms(1)]) auto
qed

lemma auth_inv_run:
  assumes "run (auth_step c) s0 evs s" "fresh_auth s0"
  shows "auth_inv c (ttl (the_store s0)) s evs"
  using assms(1)
proof (induction rule: run_invariant)
  case start
  show ?case using assms(2) by (simp add: auth_inv_def fresh_auth_def)
next
  case (step evs s1 ev s2)
  then show ?case by (blast intro: auth_inv_step)
qed

section \<open>The sequential code is a run\<close>

text \<open>One call of \<open>Authenticate\<close> with no other activity is one or two steps of the relation.\<close>

lemma Authenticate_run:
  assumes "Authenticate c (clock s) (\<lambda>_. q) (clock s + d) rawKey (the_store s) = (Inr i, st')" "0 \<le> d"
    and "answers (table s) (take keyPrefixLen rawKey) q"
  shows "\<exists>evs s'. run (auth_step c) s evs s' \<and> the_store s' = st'"
proof (cases "cache_hit c (clock s) rawKey (the_store s)")
  case (Some j)
  then have "auth_step c s (Hit (clock s) rawKey j) s" by (rule auth_step.hit)
  then have "run (auth_step c) s [Hit (clock s) rawKey j] s" by (simp add: run_one)
  with Some assms(1) show ?thesis by (auto simp: Authenticate_def)
next
  case None
  then have lv: "lookupAndVerify c (\<lambda>_. q) rawKey = Inr i"
    and st': "st' = cache_store c (clock s + d) rawKey i (the_store s)"
    using assms(1) by (auto simp: Authenticate_def split: sum.splits)
  define s1 where "s1 = s\<lparr>pending := (rawKey, i, clock s) # pending s\<rparr>"
  define s2 where "s2 = s1\<lparr>clock := clock s1 + d\<rparr>"
  define s3 where "s3 = s2\<lparr>the_store := cache_store c (clock s2) rawKey i (the_store s2),
    pending := remove1 (rawKey, i, clock s) (pending s2)\<rparr>"
  obtain rec where "auth_step c s (Verified (clock s) rawKey i rec) s1"
    using verified_step [OF assms(3) lv] unfolding s1_def by blast
  then have r1: "run (auth_step c) s [Verified (clock s) rawKey i rec] s1" by (simp add: run_one)
  have "auth_step c s1 (Passed (clock s1)) s2"
    unfolding s2_def by (rule auth_step.passed [OF assms(2)])
  from run_snoc [OF r1 this] have r2: "run (auth_step c) s [Verified (clock s) rawKey i rec, Passed (clock s1)] s2" by simp
  have "(rawKey, i, clock s) \<in> set (pending s2)" by (simp add: s2_def s1_def)
  then have "auth_step c s2 (Stored (clock s2) rawKey i (clock s)) s3"
    unfolding s3_def by (rule auth_step.stored)
  from run_snoc [OF r2 this] have "\<exists>evs. run (auth_step c) s evs s3" by blast
  moreover have "the_store s3 = st'" by (simp add: s3_def s2_def s1_def st')
  ultimately show ?thesis by blast
qed

section \<open>Properties\<close>

text \<open>C17: only verified keys get an identity, and only for a bounded time. Whatever requests run
  concurrently, whatever keys are issued and revoked meanwhile: when the cache answers for a
  presented key, a key with the same digest was verified before against a record of the table
  that was not revoked at that time, with a matching bcrypt hash, and the identity is the
  tenant, key and scopes of that record; the entry was written at a time \<open>w\<close> at or after the
  verification and is served only before \<open>w + ttl\<close>. So a revoked key is refused once
  every entry verified before the revocation is older than the TTL.\<close>

theorem cache_answers_are_verified:
  assumes "run (auth_step c) s0 evs s" "fresh_auth s0" "Hit t rawKey i \<in> set evs"
  shows "\<exists>rawKey' w v rec scopes. cacheKey c rawKey' = cacheKey c rawKey \<and> v \<le> w \<and> w \<le> t \<and> t < w + ttl (the_store s0) \<and>
    Verified v rawKey' i rec \<in> set evs \<and> RevokedAt rec = None \<and> KeyPrefix rec = take keyPrefixLen rawKey' \<and>
    bcrypt_matches c (HashedKey rec) rawKey' \<and> parseScopes (ScopesRaw rec) = Some scopes \<and> i = identity_of rec scopes"
  using auth_inv_run [OF assms(1,2)] assms(3)
  by (simp add: auth_inv_def stored_by_def verified_by_def) blast

text \<open>The eviction loop is unobservable. Dropping expired entries, in any number of ticks up to a
  cancellation, changes no later answer of \<open>Authenticate\<close>: the same decision for every key at
  every time after the ticks.\<close>

theorem eviction_unobservable:
  assumes "\<And>now. EvictTick now \<in> set evs \<Longrightarrow> now \<le> t1"
  shows "fst (Authenticate c t1 q t2 rawKey (Auth_RunRefreshLoop evs s)) = fst (Authenticate c t1 q t2 rawKey s)"
  by (simp add: Authenticate_def cache_hit_loop [OF assms] split: option.split sum.split)

text \<open>Failures are not cached. A failing authentication leaves the cache as it was, a key
  shorter than the prefix is invalid without a query, and a successful one is answered from the
  cache, without the database, for the next \<open>ttl\<close>.\<close>

theorem Authenticate_caching:
  assumes "cache_hit c t1 rawKey s = None"
  shows "case Authenticate c t1 q t2 rawKey s of
      (Inl err, s') \<Rightarrow> s' = s \<and> (length rawKey < keyPrefixLen \<longrightarrow> err = ErrKeyInvalid)
    | (Inr i, s') \<Rightarrow> keyPrefixLen \<le> length rawKey \<and>
        (\<forall>t q' t'. t < t2 + ttl s \<longrightarrow> Authenticate c t q' t' rawKey s' = (Inr i, s'))"
  using assms
  by (auto simp: Authenticate_def lookupAndVerify_def cache_hit_def cache_store_def split: sum.split option.splits if_splits)

section \<open>Closed instances\<close>

definition plain_crypto :: crypto where
  "plain_crypto = \<lparr>sha256_hex = (\<lambda>x. x), bcrypt_matches = (\<lambda>h x. h = CHR ''h'' # x)\<rparr>"

definition demo_key :: string where
  "demo_key = ''bg_abcdefghijkl''"

definition demo_record :: keyRecord where
  "demo_record = \<lparr>RecID = ''key_1'', RecTenantID = ''acme'', KeyPrefix = ''bg_abcdefghi'', HashedKey = CHR ''h'' # demo_key,
     ScopesRaw = Some (JArr [JStr ''agent'']), RevokedAt = None\<rparr>"

definition demo_identity :: identity where
  "demo_identity = identity_of demo_record {''agent''}"

definition demo_start :: auth_state where
  "demo_start = \<lparr>the_store = NewStore 60, table = [demo_record], clock = 5, pending = []\<rparr>"

lemmas closed_auth = plain_crypto_def demo_key_def demo_record_def demo_identity_def demo_start_def NewStore_def
  keyPrefixLen_def parseScopes_def identity_of_def cacheKey_def

lemma demo_run:
  "\<exists>s. run (auth_step plain_crypto) demo_start
     [Verified 5 demo_key demo_identity demo_record, Stored 5 demo_key demo_identity 5, Hit 5 demo_key demo_identity] s"
proof -
  define s1 where "s1 = demo_start\<lparr>pending := (demo_key, demo_identity, 5) # pending demo_start\<rparr>"
  define s2 where "s2 = s1\<lparr>the_store := cache_store plain_crypto (clock s1) demo_key demo_identity (the_store s1),
    pending := remove1 (demo_key, demo_identity, 5) (pending s1)\<rparr>"
  have "auth_step plain_crypto demo_start (Verified (clock demo_start) demo_key demo_identity demo_record)
      (demo_start\<lparr>pending := (demo_key, demo_identity, clock demo_start) # pending demo_start\<rparr>)"
    by (rule auth_step.verified [where q = "KeyRows [Inr demo_record]" and scopes = "{''agent''}"])
      (simp_all add: closed_auth answers_def select_keys_def lookupAndVerify_def)
  then have "auth_step plain_crypto demo_start (Verified 5 demo_key demo_identity demo_record) s1"
    by (simp add: s1_def demo_start_def)
  then have r1: "run (auth_step plain_crypto) demo_start [Verified 5 demo_key demo_identity demo_record] s1"
    by (simp add: run_one)
  have "auth_step plain_crypto s1 (Stored (clock s1) demo_key demo_identity 5) s2"
    unfolding s2_def by (rule auth_step.stored) (simp add: s1_def)
  then have r2: "run (auth_step plain_crypto) demo_start [Verified 5 demo_key demo_identity demo_record, Stored 5 demo_key demo_identity 5] s2"
    using run_snoc [OF r1] by (fastforce simp: s1_def demo_start_def)
  have "auth_step plain_crypto s2 (Hit (clock s2) demo_key demo_identity) s2"
    by (rule auth_step.hit) (simp add: s2_def s1_def cache_hit_def cache_store_def demo_start_def NewStore_def)
  then show ?thesis
    using run_snoc [OF r2] by (fastforce simp: s2_def s1_def demo_start_def)
qed

lemma cache_answers_are_verified_witness:
  "\<exists>rawKey' (rec :: keyRecord). cacheKey plain_crypto rawKey' = cacheKey plain_crypto demo_key \<and> RevokedAt rec = None \<and>
     bcrypt_matches plain_crypto (HashedKey rec) rawKey'"
proof -
  let ?evs = "[Verified 5 demo_key demo_identity demo_record, Stored 5 demo_key demo_identity 5, Hit 5 demo_key demo_identity]"
  obtain s where s: "run (auth_step plain_crypto) demo_start ?evs s" using demo_run by blast
  have "fresh_auth demo_start" by (simp add: fresh_auth_def demo_start_def NewStore_def)
  from cache_answers_are_verified [OF s this, of 5 demo_key demo_identity] show ?thesis
    by (intro exI [of _ demo_key] exI [of _ demo_record]) auto
qed

lemma eviction_unobservable_witness:
  "fst (Authenticate plain_crypto 9 (\<lambda>_. KeyRows []) 9 demo_key (Auth_RunRefreshLoop [EvictTick 3, EvictTick 7] (NewStore 60))) =
   fst (Authenticate plain_crypto 9 (\<lambda>_. KeyRows []) 9 demo_key (NewStore 60))"
  by (rule eviction_unobservable) auto

lemma Authenticate_caching_witness:
  "\<exists>s'. Authenticate plain_crypto 5 (\<lambda>_. KeyRows [Inr demo_record]) 6 demo_key (NewStore 60) = (Inr demo_identity, s') \<and>
     Authenticate plain_crypto 60 (\<lambda>_. KeyQueryError ''down'') 60 demo_key s' = (Inr demo_identity, s')"
  using Authenticate_caching [where c = plain_crypto and ?t1.0 = 5 and rawKey = demo_key and s = "NewStore 60"
      and q = "\<lambda>_. KeyRows [Inr demo_record]" and ?t2.0 = 6]
  by (simp add: Authenticate_def cache_hit_def closed_auth lookupAndVerify_def)

end
