(* ===== verification/Metrics.thy ===== *)
theory Metrics
  imports Outcomes
begin

text \<open>
  The collectors of \<open>gateway/internal/observability/metrics.go\<close> and the calls the handler makes on
  them. What a request records is the list of its calls, of its log entries and of its spend events,
  in order. One law about such lists, the locale \<open>books_law\<close>, is carried through every path of the
  handler once and interpreted on four properties: the calls meet the preconditions of the client
  library, rejections are counted alike by two collectors, the saturation gauge is always 1, and
  metrics, log and spend events agree.
\<close>

section \<open>The collectors\<close>

datatype metric_kind = Counter | Histogram | Gauge

record collector =
  Kind :: metric_kind
  Namespace :: string
  Subsystem :: string
  MetricName :: string
  LabelNames :: "string list"
  Buckets :: "rat list"

definition gateway_metric :: "metric_kind \<Rightarrow> string \<Rightarrow> string list \<Rightarrow> rat list \<Rightarrow> collector" where
  "gateway_metric k name labels buckets =
     \<lparr>Kind = k, Namespace = ''budget_governor'', Subsystem = ''gateway'', MetricName = name, LabelNames = labels,
      Buckets = buckets\<rparr>"

definition duration_buckets :: "rat list" where
  "duration_buckets =
     map f64 [5 / 10000, 1 / 1000, 25 / 10000, 5 / 1000, 1 / 100, 25 / 1000, 5 / 100, 1 / 10, 25 / 100, 5 / 10, 1, 25 / 10, 5, 10]"

text \<open>The collectors in the order in which they are registered.\<close>

definition NewMetrics :: "collector list" where
  "NewMetrics =
     [gateway_metric Counter ''requests_total'' [''tenant_id'', ''model'', ''decision''] [],
      gateway_metric Histogram ''request_duration_seconds'' [''tenant_id'', ''model'', ''decision''] duration_buckets,
      gateway_metric Counter ''tokens_total'' [''tenant_id'', ''model'', ''direction''] [],
      gateway_metric Counter ''cost_usd_total'' [''tenant_id'', ''agent_id'', ''model''] [],
      gateway_metric Counter ''rejections_total'' [''tenant_id'', ''reason''] [],
      gateway_metric Gauge ''bucket_saturation_ratio'' [''tenant_id'', ''scope''] [],
      gateway_metric Counter ''advisor_invocations_total'' [''tenant_id'', ''outcome''] [],
      gateway_metric Counter ''spend_write_dropped_total'' [] [],
      gateway_metric Counter ''provider_errors_total'' [''provider'', ''status_class''] []]"

datatype metric_op = Inc | Add rat | Observe rat | Set rat

text \<open>A call of the handler: the collector, the label values and the operation.\<close>

fun metric_call :: "metric \<Rightarrow> string \<times> string list \<times> metric_op" where
  "metric_call (RequestsTotal t m d) = (''requests_total'', [t, m, d], Inc)"
| "metric_call (RequestDuration t m d x) = (''request_duration_seconds'', [t, m, d], Observe x)"
| "metric_call (TokensTotal t m dir x) = (''tokens_total'', [t, m, dir], Add x)"
| "metric_call (CostUSDTotal t a m x) = (''cost_usd_total'', [t, a, m], Add x)"
| "metric_call (RejectionsTotal t r) = (''rejections_total'', [t, r], Inc)"
| "metric_call (BucketSaturation t s x) = (''bucket_saturation_ratio'', [t, s], Set x)"
| "metric_call (AdvisorInvocations t o') = (''advisor_invocations_total'', [t, o'], Inc)"
| "metric_call (ProviderErrorsTotal p c) = (''provider_errors_total'', [p, c], Inc)"

text \<open>The documented preconditions of the client library: as many label values as label names, a
  method of the collector's kind, and no negative addition to a counter. A call that breaks one
  panics.\<close>

fun op_ok :: "metric_kind \<Rightarrow> metric_op \<Rightarrow> bool" where
  "op_ok Counter Inc = True"
| "op_ok Counter (Add x) = (0 \<le> x)"
| "op_ok Histogram (Observe x) = True"
| "op_ok Gauge (Set x) = True"
| "op_ok k op = False"

definition call_accepted :: "collector list \<Rightarrow> string \<times> string list \<times> metric_op \<Rightarrow> bool" where
  "call_accepted cs call \<longleftrightarrow>
     (case call of (name, values, op) \<Rightarrow>
        list_ex (\<lambda>c. MetricName c = name \<and> length (LabelNames c) = length values \<and> op_ok (Kind c) op) cs)"

definition accepted_calls :: "metric list \<Rightarrow> bool" where
  "accepted_calls ms \<longleftrightarrow> (\<forall>m\<in>set ms. call_accepted NewMetrics (metric_call m))"

fun rejected_request :: "string \<Rightarrow> metric \<Rightarrow> bool" where
  "rejected_request tenant (RequestsTotal t m d) = (t = tenant \<and> d = ''rejected'')"
| "rejected_request tenant m = False"

fun rejection :: "string \<Rightarrow> metric \<Rightarrow> bool" where
  "rejection tenant (RejectionsTotal t r) = (t = tenant)"
| "rejection tenant m = False"

definition rejections_agree :: "metric list \<Rightarrow> bool" where
  "rejections_agree ms \<longleftrightarrow>
     (\<forall>tenant. length (filter (rejected_request tenant) ms) = length (filter (rejection tenant) ms))"

definition saturated :: "metric list \<Rightarrow> bool" where
  "saturated ms \<longleftrightarrow> (\<forall>t s v. BucketSaturation t s v \<in> set ms \<longrightarrow> v = 1)"

text \<open>What one call says about requests, tokens and cost, and the same of a spend event.\<close>

fun counted :: "metric \<Rightarrow> (string \<times> string \<times> string) list" where
  "counted (RequestsTotal t m d) = [(t, m, d)]"
| "counted ms = []"

fun tokens_counted :: "string \<Rightarrow> string \<Rightarrow> string \<Rightarrow> metric \<Rightarrow> rat" where
  "tokens_counted tenant model dir (TokensTotal t m d x) = (if t = tenant \<and> m = model \<and> d = dir then x else 0)"
| "tokens_counted tenant model dir ms = 0"

fun cost_counted :: "string \<Rightarrow> string \<Rightarrow> string \<Rightarrow> metric \<Rightarrow> rat" where
  "cost_counted tenant agent model (CostUSDTotal t a m x) = (if t = tenant \<and> a = agent \<and> m = model then x else 0)"
| "cost_counted tenant agent model ms = 0"

definition spend_of :: "string \<Rightarrow> string \<Rightarrow> (SpendEvent \<Rightarrow> rat) \<Rightarrow> SpendEvent \<Rightarrow> rat" where
  "spend_of tenant model v s = (if SpTenantID s = tenant \<and> SpModel s = model then max 0 (v s) else 0)"

definition agent_spend :: "string \<Rightarrow> string \<Rightarrow> string \<Rightarrow> SpendEvent \<Rightarrow> rat" where
  "agent_spend tenant agent model s =
     (if SpTenantID s = tenant \<and> SpAgentID s = agent \<and> SpModel s = model then max 0 (SpCostUSD s) else 0)"

text \<open>The columns that a log entry and a spend event have in common.\<close>

definition entry_row :: "RequestLog \<Rightarrow> string list \<times> int \<times> int \<times> rat" where
  "entry_row e = ([LTraceID e, LTenantID e, LAgentID e, LTaskID e, LModel e, LDecision e, LDecisionReason e],
     LTokensIn e, LTokensOut e, LCostUSD e)"

definition spend_row :: "SpendEvent \<Rightarrow> string list \<times> int \<times> int \<times> rat" where
  "spend_row s = ([SpTraceID s, SpTenantID s, SpAgentID s, SpTaskID s, SpModel s, SpDecision s, SpDecisionReason s],
     SpTokensIn s, SpTokensOut s, SpCostUSD s)"

definition tallied :: "metric list \<Rightarrow> (int \<times> RequestLog) list \<Rightarrow> (int \<times> SpendEvent) list \<Rightarrow> bool" where
  "tallied ms ls ss \<longleftrightarrow>
     concat (map counted ms) = map (\<lambda>(t, e). (LTenantID e, LModel e, LDecision e)) ls \<and>
     map (apsnd entry_row) ls = map (apsnd spend_row) ss \<and>
     (\<forall>tenant model.
        (\<Sum>m\<leftarrow>ms. tokens_counted tenant model ''in'' m) = (\<Sum>(t, s)\<leftarrow>ss. spend_of tenant model (f64_of_int \<circ> SpTokensIn) s) \<and>
        (\<Sum>m\<leftarrow>ms. tokens_counted tenant model ''out'' m) = (\<Sum>(t, s)\<leftarrow>ss. spend_of tenant model (f64_of_int \<circ> SpTokensOut) s)) \<and>
     (\<forall>tenant agent model.
        (\<Sum>m\<leftarrow>ms. cost_counted tenant agent model m) = (\<Sum>(t, s)\<leftarrow>ss. agent_spend tenant agent model s))"

section \<open>A law about what is recorded\<close>

text \<open>What a request adds to the books: its calls on the metrics, and the entries it hands to the access
  log and to the spend writer, with the time at which it does.\<close>

definition records ::
  "(metric list \<Rightarrow> (int \<times> RequestLog) list \<Rightarrow> (int \<times> SpendEvent) list \<Rightarrow> bool) \<Rightarrow> 's gateway \<Rightarrow> 's gateway \<Rightarrow> bool" where
  "records good g g' \<longleftrightarrow> (\<exists>ms ls ss. metrics g' = metrics g @ ms \<and> access_log g' = fold Log ls (access_log g) \<and>
     spend_writer g' = map_option (fold Enqueue ss) (spend_writer g) \<and> good ms ls ss)"

lemma recordsI:
  "metrics g' = metrics g @ ms \<Longrightarrow> access_log g' = fold Log ls (access_log g) \<Longrightarrow>
   spend_writer g' = map_option (fold Enqueue ss) (spend_writer g) \<Longrightarrow> good ms ls ss \<Longrightarrow> records good g g'"
  by (auto simp: records_def)

definition same_books :: "'s gateway \<Rightarrow> 's gateway \<Rightarrow> bool" where
  "same_books g g' \<longleftrightarrow> metrics g' = metrics g \<and> access_log g' = access_log g \<and> spend_writer g' = spend_writer g"

lemma decisions_remaining [simp]: "RemainingTokens zero_decision = 0" "RemainingTokens allowed_decision = 0"
  by (simp_all add: zero_decision_def allowed_decision_def)

lemma same_books [simp]:
  "same_books g g"
  "same_books g (reconcile_budget sv ev refs et eu act au g)"
  "check_budget sv n tm refs t u g = (res, g') \<Longrightarrow> same_books g g'"
  by (auto simp: same_books_def reconcile_budget_def check_budget_def split: prod.splits)

lemma check_budget_pair: "\<exists>res g'. check_budget sv n tm refs t u g = (res, g') \<and> same_books g g'"
  by (metis same_books(3) surj_pair)

text \<open>The log entry of a request, whatever the provider of its model.\<close>

definition entry_from :: "string \<Rightarrow> request \<Rightarrow> string \<Rightarrow> string \<Rightarrow> int \<Rightarrow> usage \<Rightarrow> rat \<Rightarrow> int \<Rightarrow> RequestLog" where
  "entry_from prov req label reason lat usage costUSD statusCode =
     \<lparr>LTime = None, LTraceID = TraceID req, LTenantID = ReqTenantID req, LAgentID = ReqAgentID req,
      LTaskID = ReqTaskID req, LModel = ReqModel req, LProvider = prov,
      LTokensIn = TokensIn usage, LTokensOut = TokensOut usage, LCostUSD = costUSD, LDecision = label,
      LDecisionReason = reason, LatencyMs = Milliseconds lat, LStatusCode = statusCode\<rparr>"

lemma log_entry_from:
  "log_entry sv req label reason lat u c status = entry_from (providerNameFor (srv_router sv) (ReqModel req)) req label reason lat u c status"
  by (simp add: log_entry_def entry_from_def)

locale books_law =
  fixes good :: "metric list \<Rightarrow> (int \<times> RequestLog) list \<Rightarrow> (int \<times> SpendEvent) list \<Rightarrow> bool"
  assumes good_Nil [simp]: "good [] [] []"
    and good_append: "good ms ls ss \<Longrightarrow> good ms' ls' ss' \<Longrightarrow> good (ms @ ms') (ls @ ls') (ss @ ss')"
    and good_finish: "refs = [] \<or> RemainingTokens d = 0 \<Longrightarrow>
      good (finish_metrics req refs d label reason lat u c) [(t, entry_from prov req label reason lat u c status)]
        [(t, spend_event req label reason u c)]"
    and good_advisor [simp]: "good [AdvisorInvocations tenant label] [] []"
    and good_provider [simp]: "good [ProviderErrorsTotal p class] [] []"
begin

lemma records_refl [simp]: "same_books g g' \<Longrightarrow> records good g g'"
  by (rule recordsI [of _ _ "[]" "[]" "[]"]) (simp_all add: same_books_def option.map_id)

lemma records_trans:
  assumes "records good g g'" "records good g' g''"
  shows "records good g g''"
proof -
  from assms obtain ms ls ss ms' ls' ss' where
    "metrics g' = metrics g @ ms" "access_log g' = fold Log ls (access_log g)"
    "spend_writer g' = map_option (fold Enqueue ss) (spend_writer g)" "good ms ls ss"
    "metrics g'' = metrics g' @ ms'" "access_log g'' = fold Log ls' (access_log g')"
    "spend_writer g'' = map_option (fold Enqueue ss') (spend_writer g')" "good ms' ls' ss'"
    unfolding records_def by blast
  then show ?thesis
    by (intro recordsI [of _ _ "ms @ ms'" "ls @ ls'" "ss @ ss'"]) (simp_all add: good_append option.map_comp comp_def)
qed

lemma finish_records:
  "refs = [] \<or> RemainingTokens d = 0 \<Longrightarrow> records good g (finish sv ev req refs d l r u c s g)"
  by (rule recordsI [of _ _ "finish_metrics req refs d l r (time_Sub (finish_at ev) (start_at ev)) u c"
        "[(finish_at ev, log_entry sv req l r (time_Sub (finish_at ev) (start_at ev)) u c s)]"
        "[(finish_at ev, spend_event req l r u c)]"])
    (simp_all add: good_finish finish_def log_entry_from observe_def Let_def split: option.split)

lemma observe_records: "good ms [] [] \<Longrightarrow> same_books g g' \<Longrightarrow> records good g (g'\<lparr>metrics := metrics g' @ ms\<rparr>)"
  by (rule recordsI [of _ _ ms "[]" "[]"]) (simp_all add: same_books_def option.map_id)

lemma handleProviderError_records: "records good g (snd (handleProviderError sv ev req refs t u err g))"
proof -
  define ms where "ms = (case err of OtherErr text \<Rightarrow> [] | ProviderErr e \<Rightarrow>
    [ProviderErrorsTotal (providerNameFor (srv_router sv) (ReqModel req)) (statusClass (mapProviderStatus (StatusCode e)))])"
  let ?g' = "reconcile_budget sv ev refs t u 0 0 g"
  obtain status where eq: "snd (handleProviderError sv ev req refs t u err g) =
      finish sv ev req refs zero_decision ''rejected'' ''upstream_error'' no_usage 0 status
        (?g'\<lparr>metrics := metrics ?g' @ ms\<rparr>)"
    by (cases err) (simp_all add: handleProviderError_def Let_def observe_def ms_def reconcile_budget_def)
  have "good ms [] []" by (cases err) (simp_all add: ms_def)
  then have "records good g (?g'\<lparr>metrics := metrics ?g' @ ms\<rparr>)" by (rule observe_records) simp
  then show ?thesis unfolding eq by (rule records_trans) (simp add: finish_records)
qed

lemma stream_end_records: "records good g (snd (stream_end sv ev req refs t u label w g))"
  unfolding stream_end_def Let_def snd_conv
  by (rule records_trans [of _ "reconcile_budget sv ev refs t u
      (wrap64 (TokensIn (finalUsage w) + TokensOut (finalUsage w)))
      (CostUSD (ReqModel req) (TokensIn (finalUsage w)) 0 (TokensOut (finalUsage w))) g"]) (simp_all add: finish_records)

lemma doDispatch_records: "records good g (snd (doDispatch sv ev req refs t u dl dr advice g))"
proof (cases "ReqStream req")
  case True
  obtain err w where st: "StreamTo (Select (srv_router sv) (ReqModel req)) req (sse_Write (print_json ev) (write_fails ev))
      (new_writer req advice) = (err, w)" by fastforce
  with True show ?thesis
    by (auto simp: doDispatch_def streamDispatch_def stream_end_records handleProviderError_records case_prod_beta
        split: option.split)
next
  case False
  show ?thesis
  proof (cases "Complete (Select (srv_router sv) (ReqModel req)) req")
    case (Inl err)
    with False show ?thesis by (simp add: doDispatch_def handleProviderError_records)
  next
    case (Inr resp)
    show ?thesis
      by (rule records_trans [of _ "reconcile_budget sv ev refs t u
          (wrap64 (TokensIn (RespUsage resp) + TokensOut (RespUsage resp))) (RespCostUSD resp) g"])
        (use False Inr in \<open>simp_all add: doDispatch_def Let_def finish_records\<close>)
  qed
qed

lemma reject_records: "records good g (snd (reject sv ev req d outc g))"
  by (simp add: reject_eq finish_records)

lemma retry_records:
  "records good g (snd (case check_budget sv n tm refs t u g of
      (Inr rd, g) \<Rightarrow> (if Allowed rd then dispatchAdvised sv ev rq refs t u advice g else reject sv ev req d outc g)
    | (Inl err, g) \<Rightarrow> reject sv ev req d outc g))"
proof -
  obtain res g' where c: "check_budget sv n tm refs t u g = (res, g')" "same_books g g'"
    using check_budget_pair [of sv n tm refs t u g] by blast
  have "records good g' (snd (dispatchAdvised sv ev rq refs t u advice g'))"
    "records good g' (snd (reject sv ev req d outc g'))"
    by (simp_all add: dispatchAdvised_def doDispatch_records reject_records)
  then show ?thesis using records_trans [of g g'] c by (cases res) auto
qed

lemma handleBudgetPressure_records: "records good g (snd (handleBudgetPressure sv ev req refs d n t u g))"
proof -
  define g1 where "g1 = observe [AdvisorInvocations (ReqTenantID req) (advice_label (advise_call sv ev req d t))] g"
  have "records good g g1" unfolding g1_def observe_def by (rule observe_records) simp_all
  moreover have "records good g1 (snd (handleBudgetPressure sv ev req refs d n t u g))"
    unfolding handleBudgetPressure_def Let_def g1_def [symmetric]
    by (cases "Action (policy_outcome sv ev req d t)") (simp_all only: action.case retry_records reject_records)
  ultimately show ?thesis by (rule records_trans)
qed

lemma ChatCompletions_records: "records good g (snd (ChatCompletions sv ev cr ident g))"
proof (cases rule: ChatCompletions_cases [of cr sv ev ident g])
    case (Unavailable body err)
    obtain res g' where "check_budget sv (check_net ev) (check_time ev) (buckets_of g cr ident)
        (est_tokens sv (request_of ev cr ident body)) (est_usd sv (request_of ev cr ident body)) g = (res, g')"
      "same_books g g'" using check_budget_pair by blast
    with Unavailable check_budget_sel [OF this(1)] show ?thesis by (auto simp: ChatCompletions_def)
  next
    case (Decided body d g1)
    obtain res g' where c: "check_budget sv (check_net ev) (check_time ev) (buckets_of g cr ident)
        (est_tokens sv (request_of ev cr ident body)) (est_usd sv (request_of ev cr ident body)) g = (res, g')"
      "same_books g g'" using check_budget_pair by blast
    then have "res = Inr d" using Decided(3) check_budget_sel [OF c(1)] by simp
    then have "records good g' (snd (ChatCompletions sv ev cr ident g))"
      using Decided(1,2) c by (simp add: ChatCompletions_def dispatch_def doDispatch_records handleBudgetPressure_records Let_def)
    then show ?thesis using c(2) records_trans [of g g'] by simp
qed (simp_all add: finish_records)

lemma serve_records: "records good g (snd (serve sv ev cr g))"
proof -
  have "records good g (snd (ChatCompletions sv ev cr ident (g\<lparr>auth_store := s\<rparr>)))" for ident s
    using ChatCompletions_records [of "g\<lparr>auth_store := s\<rparr>"] by (simp add: records_def)
  moreover have "same_books g (g\<lparr>auth_store := s\<rparr>)" for s by (simp add: same_books_def)
  ultimately show ?thesis by (simp add: serve_def authMiddleware_def Let_def split: sum.split prod.split)
qed

end

section \<open>The laws\<close>

lemma accepted_collectors:
  "call_accepted NewMetrics (''requests_total'', [t, m, d], Inc)"
  "call_accepted NewMetrics (''request_duration_seconds'', [t, m, d], Observe x)"
  "0 \<le> x \<Longrightarrow> call_accepted NewMetrics (''tokens_total'', [t, m, d], Add x)"
  "0 \<le> x \<Longrightarrow> call_accepted NewMetrics (''cost_usd_total'', [t, m, d], Add x)"
  "call_accepted NewMetrics (''rejections_total'', [t, m], Inc)"
  "call_accepted NewMetrics (''bucket_saturation_ratio'', [t, m], Set x)"
  "call_accepted NewMetrics (''advisor_invocations_total'', [t, m], Inc)"
  "call_accepted NewMetrics (''provider_errors_total'', [t, m], Inc)"
  by (simp_all add: call_accepted_def NewMetrics_def gateway_metric_def)

lemma saturation_only_gauges:
  "filter (rejected_request tenant) (concat (map (\<lambda>r. if P r then [BucketSaturation t (s r) (v r)] else []) rs)) = []"
  "filter (rejection tenant) (concat (map (\<lambda>r. if P r then [BucketSaturation t (s r) (v r)] else []) rs)) = []"
  by (induction rs) auto

lemma gauges_count_nothing:
  "concat (map counted (concat (map (\<lambda>r. if P r then [BucketSaturation t (s r) (v r)] else []) rs))) = []"
  "(\<Sum>m\<leftarrow>concat (map (\<lambda>r. if P r then [BucketSaturation t (s r) (v r)] else []) rs). tokens_counted tenant model dir m) = 0"
  "(\<Sum>m\<leftarrow>concat (map (\<lambda>r. if P r then [BucketSaturation t (s r) (v r)] else []) rs). cost_counted tenant agent model m) = 0"
  by (induction rs) auto

interpretation accepted: books_law "\<lambda>ms ls ss. accepted_calls ms"
proof unfold_locales
  fix refs :: "bucket_ref list" and d req label reason lat u c
  show "accepted_calls (finish_metrics req refs d label reason lat u c)"
    by (auto simp: accepted_calls_def finish_metrics_def accepted_collectors f64_of_int_nonneg split: if_splits)
qed (auto simp: accepted_calls_def accepted_collectors)

interpretation agreeing: books_law "\<lambda>ms ls ss. rejections_agree ms"
proof unfold_locales
  fix refs :: "bucket_ref list" and d req label reason lat u c
  show "rejections_agree (finish_metrics req refs d label reason lat u c)"
    unfolding rejections_agree_def finish_metrics_def filter_append saturation_only_gauges by auto
qed (simp_all add: rejections_agree_def)

interpretation stuck: books_law "\<lambda>ms ls ss. saturated ms"
  by unfold_locales (auto simp: saturated_def finish_metrics_def f64_ops split: if_splits)

lemma f64_of_int_max: "max 0 (f64_of_int n) = (if 0 < n then f64_of_int n else 0)"
  using f64_of_int_nonneg [of n] f64_of_int_mono [of n 0] f64_of_int_exact [of 0] by (auto simp: max_def)

interpretation tally: books_law tallied
proof unfold_locales
  fix refs :: "bucket_ref list" and d req label reason lat u c t prov status
  show "tallied (finish_metrics req refs d label reason lat u c) [(t, entry_from prov req label reason lat u c status)]
      [(t, spend_event req label reason u c)]"
    unfolding tallied_def finish_metrics_def map_append concat_append sum_list.append gauges_count_nothing
    by (auto simp: entry_from_def spend_event_def entry_row_def spend_row_def spend_of_def agent_spend_def f64_of_int_max)
next
  fix ms ms' ls ls' ss ss'
  assume "tallied ms ls ss" "tallied ms' ls' ss'"
  then show "tallied (ms @ ms') (ls @ ls') (ss @ ss')" by (simp add: tallied_def)
qed (simp_all add: tallied_def)

text \<open>One request after the other.\<close>

definition serve_all :: "'s server \<Rightarrow> (env \<times> client_request) list \<Rightarrow> 's gateway \<Rightarrow> 's gateway" where
  "serve_all sv = fold (\<lambda>(ev, cr) g. snd (serve sv ev cr g))"

lemma serve_all_tallied: "records tallied g (serve_all sv rs g)"
proof (induction rs arbitrary: g)
  case Nil
  then show ?case by (simp add: serve_all_def)
next
  case (Cons r rs)
  obtain ev cr where "r = (ev, cr)" by (cases r)
  then have "serve_all sv (r # rs) g = serve_all sv rs (snd (serve sv ev cr g))" by (simp add: serve_all_def)
  then show ?case using tally.records_trans [OF tally.serve_records Cons.IH] by simp
qed

lemma f64_doubled:
  assumes "0 < x" "2 * x \<le> y"
  shows "f64 x < f64 y"
proof -
  have "f64 x \<le> (1 + 1 / 2 ^ 53) * x" using assms by (intro f64.r_le_err) simp
  also have "\<dots> < (1 - 1 / 2 ^ 53) * (2 * x)" using assms(1) by (simp add: algebra_simps)
  also have "\<dots> \<le> (1 - 1 / 2 ^ 53) * y" using assms by (intro mult_left_mono) simp_all
  also have "\<dots> \<le> f64 y" using assms by (intro f64.r_ge_err) simp
  finally show ?thesis .
qed

lemma duration_buckets_ascend: "sorted_wrt (<) duration_buckets"
proof -
  have "sorted_wrt (\<lambda>x y. 0 < x \<and> 2 * x \<le> y)
    [5 / 10000, 1 / 1000, 25 / 10000, 5 / 1000, 1 / 100, 25 / 1000, 5 / 100, 1 / 10, 25 / 100, 5 / 10, 1, 25 / 10, 5, 10 :: rat]"
    by simp
  then show ?thesis unfolding duration_buckets_def sorted_wrt_map by (rule sorted_wrt_mono_rel [rotated]) (blast intro: f64_doubled)
qed

section \<open>Properties\<close>


text \<open>C12: the books agree. Over any sequence of requests, the requests the metrics count are, in order,
  the entries handed to the access log and the events handed to the spend writer, with the same
  trace, caller, model, decision, tokens and cost at the same time; and the token and cost counters
  grow by exactly the sum of the amounts in the spend events (negative ones count as nothing), for
  every tenant, agent and model.\<close>

theorem books_agree:
  "\<exists>ms ls ss. metrics (serve_all sv rs g) = metrics g @ ms \<and>
     access_log (serve_all sv rs g) = fold Log ls (access_log g) \<and>
     spend_writer (serve_all sv rs g) = map_option (fold Enqueue ss) (spend_writer g) \<and>
     concat (map counted ms) = map (\<lambda>(t, e). (LTenantID e, LModel e, LDecision e)) ls \<and>
     map (apsnd entry_row) ls = map (apsnd spend_row) ss \<and>
     (\<forall>tenant model.
        (\<Sum>m\<leftarrow>ms. tokens_counted tenant model ''in'' m) = (\<Sum>(t, s)\<leftarrow>ss. spend_of tenant model (f64_of_int \<circ> SpTokensIn) s) \<and>
        (\<Sum>m\<leftarrow>ms. tokens_counted tenant model ''out'' m) = (\<Sum>(t, s)\<leftarrow>ss. spend_of tenant model (f64_of_int \<circ> SpTokensOut) s)) \<and>
     (\<forall>tenant agent model.
        (\<Sum>m\<leftarrow>ms. cost_counted tenant agent model m) = (\<Sum>(t, s)\<leftarrow>ss. agent_spend tenant agent model s))"
  using serve_all_tallied [of g sv rs] unfolding records_def tallied_def by blast

text \<open>The dashboards agree about rejections. For every tenant, a request adds as many rejections to
  the rejections counter as it counts requests with the decision \<open>rejected\<close>.\<close>

theorem rejections_counted_alike:
  "\<exists>ms. metrics (snd (serve sv ev cr g)) = metrics g @ ms \<and>
     length (filter (rejected_request tenant) ms) = length (filter (rejection tenant) ms)"
  using agreeing.serve_records [of g sv ev cr] unfolding records_def rejections_agree_def by blast

text \<open>The saturation gauge is stuck at 1. Whatever a request does, every value it sets the gauge
  \<open>BucketSaturation\<close> to is 1, so the gauge never tells how much of a budget is used: the decision
  handed to the bookkeeping carries a remaining balance of 0 in every call that has buckets.\<close>

theorem saturation_always_one:
  "\<exists>ms. metrics (snd (ChatCompletions sv ev cr ident g)) = metrics g @ ms \<and>
    (\<forall>t s v. BucketSaturation t s v \<in> set ms \<longrightarrow> v = 1)"
  using stuck.ChatCompletions_records [of g sv ev cr ident] by (auto simp: records_def saturated_def)

lemma saturation_always_one_witness:
  "\<exists>ms. metrics (snd (ChatCompletions closed_server closed_env (closed_request 100 False) closed_identity closed_gateway)) = ms \<and>
    (\<forall>t s v. BucketSaturation t s v \<in> set ms \<longrightarrow> v = 1)"
  using saturation_always_one [of closed_server closed_env "closed_request 100 False" closed_identity closed_gateway]
  by (simp add: closed_gateway_def)

end
