(* ===== verification/Startup.thy ===== *)
theory Startup
  imports Config Requests
begin

text \<open>
  The entry of the process, \<open>gateway/cmd/gateway/main.go\<close>: the waits for Postgres and Redis, the
  steps that build the server and its state from the configuration and may end the process, the
  routes and the readiness probe. What the host does (the environment, the pings, the answers of
  Redis and of the database, the transports) is an input.
\<close>

section \<open>Waiting for the backends\<close>

text \<open>The loop of \<open>waitForPostgres\<close> and \<open>waitForRedis\<close>: \<open>left\<close> attempts remain, attempt \<open>i\<close> pings; the
  result is the number of pings and whether the last one succeeded.\<close>

fun wait_loop :: "nat \<Rightarrow> nat \<Rightarrow> (nat \<Rightarrow> bool) \<Rightarrow> (nat \<Rightarrow> bool) \<Rightarrow> nat \<times> bool" where
  "wait_loop 0 i ping cancelled = (i, False)"
| "wait_loop (Suc left) i ping cancelled =
     (if ping i then (Suc i, True)
      else if cancelled i then (Suc i, False)
      else wait_loop left (Suc i) ping cancelled)"

definition waitForPostgres :: "(nat \<Rightarrow> bool) \<Rightarrow> (nat \<Rightarrow> bool) \<Rightarrow> nat \<times> bool" where
  "waitForPostgres ping cancelled = wait_loop 30 0 ping cancelled"

definition waitForRedis :: "(nat \<Rightarrow> bool) \<Rightarrow> (nat \<Rightarrow> bool) \<Rightarrow> nat \<times> bool" where
  "waitForRedis ping cancelled = wait_loop 30 0 ping cancelled"

lemma wait_loop_bound: "fst (wait_loop left i ping cancelled) \<le> i + left"
proof (induction left arbitrary: i)
  case (Suc left)
  then show ?case using Suc [of "Suc i"] by simp
qed simp

lemma wait_loop_success:
  "snd (wait_loop left i ping cancelled) \<longleftrightarrow>
     (\<exists>k. i \<le> k \<and> k < i + left \<and> ping k \<and> (\<forall>j. i \<le> j \<and> j < k \<longrightarrow> \<not> ping j \<and> \<not> cancelled j))"
proof (induction left arbitrary: i)
  case (Suc left)
  show ?case
  proof (cases "ping i \<or> cancelled i")
    case True
    have "(\<exists>k. i \<le> k \<and> k < i + Suc left \<and> ping k \<and> (\<forall>j. i \<le> j \<and> j < k \<longrightarrow> \<not> ping j \<and> \<not> cancelled j)) \<longleftrightarrow> ping i"
    proof
      assume "\<exists>k. i \<le> k \<and> k < i + Suc left \<and> ping k \<and> (\<forall>j. i \<le> j \<and> j < k \<longrightarrow> \<not> ping j \<and> \<not> cancelled j)"
      then obtain k where "i \<le> k" "ping k" "\<forall>j. i \<le> j \<and> j < k \<longrightarrow> \<not> ping j \<and> \<not> cancelled j" by blast
      then show "ping i" using True by (cases "k = i") auto
    qed (intro exI [of _ i], auto)
    with True show ?thesis by (cases "ping i") simp_all
  next
    case False
    then have "(\<exists>k. i \<le> k \<and> k < i + Suc left \<and> ping k \<and> (\<forall>j. i \<le> j \<and> j < k \<longrightarrow> \<not> ping j \<and> \<not> cancelled j)) \<longleftrightarrow>
      (\<exists>k. Suc i \<le> k \<and> k < Suc i + left \<and> ping k \<and> (\<forall>j. Suc i \<le> j \<and> j < k \<longrightarrow> \<not> ping j \<and> \<not> cancelled j))"
      by (metis Suc_leD Suc_leI add_Suc add_Suc_right le_neq_implies_less)
    with False Suc show ?thesis by simp
  qed
qed auto

section \<open>Building the gateway\<close>

record 's host =
  environ :: environment
  sql_open_error :: "string option"
  script_net :: net
  first_load :: query_result
  host_redis :: "'s redis"
  host_state :: 's
  host_unicode :: unicode
  host_crypto :: crypto
  host_order :: "(string \<times> price_per_million) list"
  http_client :: transport
  line_json :: "string \<Rightarrow> json option"
  call_ms :: int
  call_cancelled :: "string option"
  stream_waits :: "string option list"
  mock_random :: "8 word list"

definition provider_router :: "'s host \<Rightarrow> config \<Rightarrow> ProviderRouter" where
  "provider_router h cfg =
     (let openai = NewOpenAIProvider (OpenAIAPIKey cfg) (OpenAIBaseURL cfg);
          anthropic = NewAnthropicProvider (AnthropicAPIKey cfg) (AnthropicBaseURL cfg)
      in \<lparr>rOpenAI = \<lparr>Name = openai_Name, Complete = openai_Complete openai (http_client h) (call_ms h),
                     StreamTo = openai_Stream openai (line_json h) (http_client h)\<rparr>,
          rAnthropic = \<lparr>Name = anthropic_Name, Complete = anthropic_Complete anthropic (http_client h) (call_ms h),
                        StreamTo = anthropic_Stream anthropic (line_json h) (http_client h)\<rparr>,
          rMock = \<lparr>Name = mock_Name, Complete = mock_Complete (host_unicode h) (mock_random h) (call_cancelled h) (call_ms h),
                   StreamTo = mock_Stream (host_unicode h) (stream_waits h)\<rparr>\<rparr>)"

text \<open>The library calls that end the process with a panic on these settings: a ticker wants a positive
  interval, a channel and a slice a capacity that is not negative.\<close>

definition settings_panic :: "config \<Rightarrow> bool" where
  "settings_panic cfg \<longleftrightarrow>
     AuthCacheTTL cfg \<le> 0 \<or> BudgetCacheTTL cfg \<le> 0 \<or> SpendFlushInterval cfg \<le> 0 \<or>
     SpendQueueCapacity cfg < 0 \<or> SpendFlushBatchSize cfg < 0"

datatype 's boot = Exited string | Panicked | Serving "'s server" "'s gateway"

definition boot :: "'s host \<Rightarrow> 's boot" where
  "boot h =
     (case Load (environ h) of
        Inl err \<Rightarrow> Startup.boot.Exited ''config load failed''
      | Inr cfg \<Rightarrow>
          (if sql_open_error h \<noteq> None then Startup.boot.Exited ''postgres open failed''
           else
             (case LoadScript (script_net h) (NewEnforcer (24 * 3600)) of
                (False, e) \<Rightarrow> Startup.boot.Exited ''failed to load budget lua script''
              | (True, e) \<Rightarrow>
                  (case Refresh (first_load h) NewConfigCache of
                     (Some err, c) \<Rightarrow> Startup.boot.Exited ''initial budget config load failed''
                   | (None, c) \<Rightarrow>
                       (if settings_panic cfg then Panicked
                        else
                          Serving
                            \<lparr>srv_redis = host_redis h, srv_unicode = host_unicode h, srv_crypto = host_crypto h,
                             srv_order = host_order h, srv_router = provider_router h cfg,
                             srv_advisor = NewAdvisorClient (AdvisorURL cfg), srv_policy = DefaultConfig\<rparr>
                            \<lparr>redis_state = host_state h, enforcer_state = e, auth_store = NewStore (AuthCacheTTL cfg),
                             config_state = c, access_log = NewAsyncLogger 10000,
                             spend_writer = Some (NewSpendWriter (nat (SpendQueueCapacity cfg)) (SpendFlushBatchSize cfg)),
                             metrics = []\<rparr>)))))"

section \<open>Routes\<close>

text \<open>The readiness probe: status, the field \<open>ready\<close> and the reason.\<close>

definition readiness :: "bool \<Rightarrow> bool \<Rightarrow> int \<times> bool \<times> string" where
  "readiness postgres_up redis_up =
     (if \<not> postgres_up then (503, False, ''postgres unavailable'')
      else if \<not> redis_up then (503, False, ''redis unavailable'')
      else (200, True, []))"

datatype answer = Probe int | Ready "int \<times> bool \<times> string" | Completion reply | NotFound

definition api :: "'s server \<Rightarrow> env \<Rightarrow> bool \<Rightarrow> bool \<Rightarrow> string \<Rightarrow> string \<Rightarrow> client_request \<Rightarrow> 's gateway \<Rightarrow> answer \<times> 's gateway" where
  "api sv ev postgres_up redis_up verb path cr g =
     (if verb = ''GET'' \<and> path = ''/healthz'' then (Probe 200, g)
      else if verb = ''GET'' \<and> path = ''/readyz'' then (Ready (readiness postgres_up redis_up), g)
      else if verb = ''POST'' \<and> path = ''/v1/chat/completions'' then apfst Completion (serve sv ev cr g)
      else (NotFound, g))"

text \<open>The two servers of the process and their addresses. The second one answers everybody, on one path, from
  what was recorded in the metrics; its mux has no other entry.\<close>

datatype http_server = ApiServer | MetricsServer

definition servers :: "config \<Rightarrow> (string \<times> http_server) list" where
  "servers cfg = [(HTTPAddr cfg, ApiServer), (MetricsAddr cfg, MetricsServer)]"

definition metrics_api :: "string \<Rightarrow> 's gateway \<Rightarrow> metric list option" where
  "metrics_api path g = (if path = ''/metrics'' then Some (metrics g) else None)"

text \<open>What a request to an address of the process gets, when both listeners have come up.\<close>

datatype reached = Refused | FromApi answer | FromMetrics "metric list option"

definition request_at ::
  "config \<Rightarrow> string \<Rightarrow> 's server \<Rightarrow> env \<Rightarrow> bool \<Rightarrow> bool \<Rightarrow> string \<Rightarrow> string \<Rightarrow> client_request \<Rightarrow> 's gateway \<Rightarrow> reached \<times> 's gateway" where
  "request_at cfg addr sv ev postgres_up redis_up verb path cr g =
     (case map_of (servers cfg) addr of
        None \<Rightarrow> (Refused, g)
      | Some ApiServer \<Rightarrow> apfst FromApi (api sv ev postgres_up redis_up verb path cr g)
      | Some MetricsServer \<Rightarrow> (FromMetrics (metrics_api path g), g))"

section \<open>Properties\<close>

text \<open>Nothing at either address changes the state of the gateway without a key: the probes and the metrics
  only read, and a completion is refused.\<close>

theorem keyless_request_changes_nothing:
  assumes "\<not> has_prefix (Authorization cr) ''Bearer ''"
  shows "snd (request_at cfg addr sv ev postgres_up redis_up verb path cr g) = g"
  using assms
  by (simp add: request_at_def servers_def api_def serve_def authMiddleware_def unauthenticated_def apfst_def map_prod_def
      split: option.split http_server.split)

lemma keyless_request_changes_nothing_witness:
  "snd (request_at cfg '':8080'' sv ev True True ''GET'' ''/readyz'' ((closed_request 100 False)\<lparr>Authorization := []\<rparr>) g) = g"
  by (rule keyless_request_changes_nothing) (simp add: has_prefix_iff)



text \<open>C37: the gateway never serves without what it needs to enforce. A process that gets to serving has
  loaded the script, a complete first read of the budgets, the shipped policy configuration, a key
  lifetime of a day in Redis, empty queues, and positive lifetimes of its caches.\<close>

theorem boot_serving:
  assumes "boot h = Serving sv g"
  shows "\<exists>s rows cfg. load_result (script_net h) = Some s \<and> enforcer_state g = \<lparr>sha = s, stateTTL = 86400\<rparr> \<and>
    first_load h = Rows (map Inr rows) None \<and>
    data (config_state g) = (\<lambda>key. map_option row_limits (last_row rows key)) \<and>
    Load (environ h) = Inr cfg \<and> 0 < AuthCacheTTL cfg \<and> 0 < BudgetCacheTTL cfg \<and> 0 < SpendFlushInterval cfg \<and>
    auth_store g = NewStore (AuthCacheTTL cfg) \<and> srv_policy sv = DefaultConfig \<and>
    redis_state g = host_state h \<and> lch (access_log g) = [] \<and> (\<exists>w. spend_writer g = Some w \<and> ch w = [])"
proof -
  obtain cfg where cfg: "Load (environ h) = Inr cfg" using assms by (auto simp: boot_def split: sum.splits)
  obtain s where s: "load_result (script_net h) = Some s"
    using assms cfg by (auto simp: boot_def LoadScript_def split: if_splits option.splits)
  show ?thesis
  proof (cases rule: Refresh_cases [of "first_load h" NewConfigCache])
    case (Failed err)
    with assms cfg s show ?thesis by (simp add: boot_def LoadScript_def split: if_splits)
  next
    case (Loaded rows)
    with assms cfg s show ?thesis
      by (intro exI [of _ s] exI [of _ rows] exI [of _ cfg])
        (auto simp: boot_def LoadScript_def NewEnforcer_def settings_panic_def NewAsyncLogger_def NewSpendWriter_def
          split: if_splits)
  qed
qed

definition closed_host :: "environment \<Rightarrow> mem host" where
  "closed_host env = \<lparr>environ = env, sql_open_error = None, script_net = net_ok, first_load = Rows [] None,
     host_redis = mem_redis, host_state = mem_empty, host_unicode = ascii_unicode,
     host_crypto = \<lparr>sha256_hex = (\<lambda>k. k), bcrypt_matches = (=)\<rparr>, host_order = pricingTable,
     http_client = (\<lambda>_. Inl ''refused''), line_json = (\<lambda>_. None), call_ms = 1, call_cancelled = None,
     stream_waits = [], mock_random = replicate 12 0\<rparr>"

lemma Load_default:
  obtains cfg where "Load (\<lambda>_. []) = Inr cfg" "\<not> settings_panic cfg"
  by (simp add: Load_def getEnv_def getEnvInt_def getEnvDuration_def settings_panic_def Second_def Millisecond_def Let_def)

lemma boot_serving_witness:
  "\<exists>sv g. boot (closed_host (\<lambda>_. [])) = Serving sv g \<and> sha (enforcer_state g) = ''5a1f'' \<and> srv_policy sv = DefaultConfig"
proof -
  obtain cfg where cfg: "Load (\<lambda>_. []) = Inr cfg" "\<not> settings_panic cfg" by (rule Load_default)
  then obtain sv g where b: "boot (closed_host (\<lambda>_. [])) = Serving sv g"
    by (simp add: boot_def closed_host_def LoadScript_def net_ok_def Refresh_def)
  from boot_serving [OF b] have "sha (enforcer_state g) = ''5a1f''" "srv_policy sv = DefaultConfig"
    by (auto simp: closed_host_def net_ok_def)
  with b show ?thesis by blast
qed

text \<open>\<open>Load\<close> accepts settings that crash the gateway. With \<open>SPEND_FLUSH_INTERVAL_MS=0\<close> (and nothing else
  set) the configuration loads without an error, and the process then never serves.\<close>

theorem zero_interval_crashes:
  assumes "\<And>key. env key = (if key = ''SPEND_FLUSH_INTERVAL_MS'' then ''0'' else [])" "environ h = env"
  shows "(\<exists>cfg. Load (environ h) = Inr cfg) \<and> (\<nexists>sv g. boot h = Serving sv g)"
proof -
  obtain cfg where cfg: "Load (environ h) = Inr cfg" "SpendFlushInterval cfg = 0"
    by (simp add: Load_def getEnv_def getEnvInt_def getEnvDuration_def Let_def assms Atoi_def is_digit_char_def digits_value_def)
  then have "settings_panic cfg" by (simp add: settings_panic_def)
  with cfg show ?thesis by (auto simp: boot_def split: option.splits prod.splits bool.splits)
qed

lemma zero_interval_crashes_witness:
  "\<nexists>sv g. boot (closed_host (\<lambda>key. if key = ''SPEND_FLUSH_INTERVAL_MS'' then ''0'' else [])) = Serving sv g"
  using zero_interval_crashes [of "\<lambda>key. if key = ''SPEND_FLUSH_INTERVAL_MS'' then ''0'' else []"
      "closed_host (\<lambda>key. if key = ''SPEND_FLUSH_INTERVAL_MS'' then ''0'' else [])"]
  by (simp add: closed_host_def)

end
