(* ===== verification/Shutdown.thy ===== *)
theory Shutdown
  imports Queues
begin

text \<open>
  The end of the process, the second half of \<open>main\<close> in \<open>gateway/cmd/gateway/main.go\<close>: the signal
  cancels the context that the goroutines of the spend writer and the logger run under, \<open>main\<close>
  shuts the server down, which waits for the requests in flight for ten seconds at most, sleeps
  and returns. Requests, both goroutines and \<open>main\<close> run in any interleaving; of time only its
  outcome is kept, whether the shutdown timed out. A listener that fails is a step as well.
\<close>

section \<open>The process\<close>

datatype main_stage = MainWaits | MainShutsDown | MainSleeps | MainEnded

record process =
  stage :: main_stage
  signalled :: bool
  accepting :: bool
  in_flight :: nat
  the_writer :: SpendWriter
  the_logger :: "AsyncLogger \<times> phase"

datatype process_event =
  Arrived
| Answered spend_event_step log_event
| ListenFailed
| Signal
| ShutdownCalled
| ShutdownReturned bool
| Slept
| WriterStep spend_event_step
| LoggerStep log_event

text \<open>The goroutine of a listener that fails, at once or later, logs the error and ends; \<open>main\<close> does not
  hear of it. A request in flight ends with its line in the log and its spend event, as \<open>finish\<close> leaves them.\<close>

inductive process_step :: "process \<Rightarrow> process_event \<Rightarrow> process \<Rightarrow> bool" where
  arrive: "stage p \<noteq> MainEnded \<Longrightarrow> accepting p \<Longrightarrow> process_step p Arrived (p\<lparr>in_flight := Suc (in_flight p)\<rparr>)"
| answer: "stage p \<noteq> MainEnded \<Longrightarrow> in_flight p = Suc n \<Longrightarrow> log_step (the_logger p) (Logged e ok) lg \<Longrightarrow>
     spend_step (the_writer p) (Enqueued sp ok') w \<Longrightarrow>
     process_step p (Answered (Enqueued sp ok') (Logged e ok)) (p\<lparr>in_flight := n, the_writer := w, the_logger := lg\<rparr>)"
| listen_failed: "stage p \<noteq> MainEnded \<Longrightarrow> accepting p \<Longrightarrow> process_step p ListenFailed (p\<lparr>accepting := False\<rparr>)"
| signal: "stage p \<noteq> MainEnded \<Longrightarrow> process_step p Signal (p\<lparr>signalled := True\<rparr>)"
| shutdown: "stage p = MainWaits \<Longrightarrow> signalled p \<Longrightarrow>
     process_step p ShutdownCalled (p\<lparr>stage := MainShutsDown, accepting := False\<rparr>)"
| stopped: "stage p = MainShutsDown \<Longrightarrow> in_flight p = 0 \<or> late \<Longrightarrow>
     process_step p (ShutdownReturned late) (p\<lparr>stage := MainSleeps\<rparr>)"
| slept: "stage p = MainSleeps \<Longrightarrow> process_step p Slept (p\<lparr>stage := MainEnded\<rparr>)"
| writer: "stage p \<noteq> MainEnded \<Longrightarrow> own_step ev \<Longrightarrow> (ev = CancelSeen \<Longrightarrow> signalled p) \<Longrightarrow> spend_step (the_writer p) ev w \<Longrightarrow>
     process_step p (WriterStep ev) (p\<lparr>the_writer := w\<rparr>)"
| logger: "stage p \<noteq> MainEnded \<Longrightarrow> own_log_step ev \<Longrightarrow> (ev = LogCancelSeen \<Longrightarrow> signalled p) \<Longrightarrow> log_step (the_logger p) ev lg \<Longrightarrow>
     process_step p (LoggerStep ev) (p\<lparr>the_logger := lg\<rparr>)"

definition started :: "nat \<Rightarrow> nat \<Rightarrow> int \<Rightarrow> process" where
  "started log_size capacity n =
     \<lparr>stage = MainWaits, signalled = False, accepting = True, in_flight = 0, the_writer = NewSpendWriter capacity n,
      the_logger = (NewAsyncLogger log_size, Running)\<rparr>"

section \<open>The two goroutines inside the process\<close>

fun writer_events :: "process_event \<Rightarrow> spend_event_step list" where
  "writer_events (Answered ev le) = [ev]"
| "writer_events (WriterStep ev) = [ev]"
| "writer_events ev = []"

fun logger_events :: "process_event \<Rightarrow> log_event list" where
  "logger_events (Answered ev le) = [le]"
| "logger_events (LoggerStep le) = [le]"
| "logger_events ev = []"

abbreviation spends :: "process_event list \<Rightarrow> spend_event_step list" where
  "spends evs \<equiv> concat (map writer_events evs)"

abbreviation logs :: "process_event list \<Rightarrow> log_event list" where
  "logs evs \<equiv> concat (map logger_events evs)"

lemma process_runs:
  assumes "run process_step p evs p'"
  shows "run spend_step (the_writer p) (spends evs) (the_writer p') \<and> run log_step (the_logger p) (logs evs) (the_logger p')"
  using assms
proof (induction rule: run_invariant)
  case (step evs p1 ev p2)
  from step(2) show ?case
    by cases (use step(3) in \<open>auto intro: run_snoc\<close>)
qed (simp add: run_Nil)

text \<open>Before the signal both goroutines run; a goroutine that has returned left nothing behind, until a
  request is answered after that.\<close>

lemma running_before_signal:
  assumes "run process_step (started a b n) evs p" "Signal \<notin> set evs"
  shows "\<not> signalled p \<and> phase_of (the_writer p) = Running \<and> snd (the_logger p) = Running"
  using assms
proof (induction rule: run_invariant)
  case start
  show ?case by (simp add: started_def NewSpendWriter_def)
next
  case (step evs p1 ev p2)
  from step(4) have "Signal \<notin> set evs" "ev \<noteq> Signal" by auto
  with step(3) have p1: "\<not> signalled p1" "phase_of (the_writer p1) = Running" "snd (the_logger p1) = Running" by simp_all
  from step(2) show ?case
  proof cases
    case (answer n' e ok lg sp ok' w)
    from answer(6) have "phase_of w = phase_of (the_writer p1)" by cases (auto simp: Enqueue_def Let_def)
    moreover from answer(5) have "snd lg = snd (the_logger p1)" by cases auto
    ultimately show ?thesis using p1 answer by simp
  next
    case (writer ev' w)
    have "ev' \<noteq> CancelSeen" using writer(5) p1 by blast
    with writer(6) p1(2) have "phase_of w = Running" by cases (auto simp: Enqueue_def Let_def split: list.splits)
    with writer p1 show ?thesis by simp
  next
    case (logger ev' lg)
    have "ev' \<noteq> LogCancelSeen" using logger(5) p1 by blast
    with logger(6) p1(3) have "snd lg = Running" by cases auto
    with logger p1 show ?thesis by simp
  qed (use p1 \<open>ev \<noteq> Signal\<close> in simp_all)
qed

section \<open>A shutdown without requests in flight\<close>

fun answered :: "process_event \<Rightarrow> bool" where
  "answered (Answered ev le) = True"
| "answered ev = False"

lemma unanswered_own:
  assumes "run process_step p evs p'" "\<not> list_ex answered evs"
  shows "list_all own_step (spends evs) \<and> list_all own_log_step (logs evs)"
  using assms
proof (induction rule: run_invariant)
  case (step evs p1 ev p2)
  from step(2) show ?case by cases (use step(3,4) in auto)
qed simp

lemma writer_exit_empty:
  assumes "run spend_step w evs w'" "list_all own_step evs" "phase_of w \<noteq> Exited" "phase_of w' = Exited"
  shows "ch w' = [] \<and> batch w' = []"
proof -
  have "list_all own_step evs \<longrightarrow> phase_of w' = Exited \<longrightarrow> ch w' = [] \<and> batch w' = []"
    using assms(1)
  proof (induction rule: run_invariant)
    case start
    show ?case using assms(3) by simp
  next
    case (step evs w1 ev w2)
    from step(2) show ?case by cases (use step(3) in \<open>auto simp: drain_one_def Let_def split: list.splits\<close>)
  qed
  with assms show ?thesis by simp
qed

lemma logger_exit_empty:
  assumes "run log_step w evs w'" "list_all own_log_step evs" "snd w \<noteq> Exited" "snd w' = Exited"
  shows "lch (fst w') = []"
proof -
  have "list_all own_log_step evs \<longrightarrow> snd w' = Exited \<longrightarrow> lch (fst w') = []"
    using assms(1)
  proof (induction rule: run_invariant)
    case start
    show ?case using assms(3) by simp
  next
    case (step evs w1 ev w2)
    from step(2) show ?case by cases (use step(3) in auto)
  qed
  with assms show ?thesis by simp
qed

lemma logged_own: "list_all own_log_step evs \<Longrightarrow> logged evs = []"
  by (induction evs rule: logged.induct) auto

text \<open>A run of one goroutine is a run of the process once the signal has come.\<close>

lemma writer_run_lifts:
  assumes "run spend_step w evs w'" "list_all own_step evs" "w = the_writer p" "stage p \<noteq> MainEnded" "signalled p"
  shows "run process_step p (map WriterStep evs) (p\<lparr>the_writer := w'\<rparr>)"
proof -
  have "list_all own_step evs \<longrightarrow> run process_step p (map WriterStep evs) (p\<lparr>the_writer := w'\<rparr>)"
    using assms(1)
  proof (induction rule: run_invariant)
    case start
    show ?case using assms(3) by (simp add: run_Nil)
  next
    case (step evs w1 ev w2)
    show ?case
    proof
      assume "list_all own_step (evs @ [ev])"
      then have run: "run process_step p (map WriterStep evs) (p\<lparr>the_writer := w1\<rparr>)" and own: "own_step ev"
        using step(3) by simp_all
      have "process_step (p\<lparr>the_writer := w1\<rparr>) (WriterStep ev) (p\<lparr>the_writer := w1, the_writer := w2\<rparr>)"
        by (rule process_step.writer) (use own step(2) assms(4,5) in simp_all)
      with run show "run process_step p (map WriterStep (evs @ [ev])) (p\<lparr>the_writer := w2\<rparr>)"
        by (auto intro: run_snoc)
    qed
  qed
  with assms(2) show ?thesis by simp
qed

lemma logger_run_lifts:
  assumes "run log_step w evs w'" "list_all own_log_step evs" "w = the_logger p" "stage p \<noteq> MainEnded" "signalled p"
  shows "run process_step p (map LoggerStep evs) (p\<lparr>the_logger := w'\<rparr>)"
proof -
  have "list_all own_log_step evs \<longrightarrow> run process_step p (map LoggerStep evs) (p\<lparr>the_logger := w'\<rparr>)"
    using assms(1)
  proof (induction rule: run_invariant)
    case start
    show ?case using assms(3) by (simp add: run_Nil)
  next
    case (step evs w1 ev w2)
    show ?case
    proof
      assume "list_all own_log_step (evs @ [ev])"
      then have run: "run process_step p (map LoggerStep evs) (p\<lparr>the_logger := w1\<rparr>)" and own: "own_log_step ev"
        using step(3) by simp_all
      have "process_step (p\<lparr>the_logger := w1\<rparr>) (LoggerStep ev) (p\<lparr>the_logger := w1, the_logger := w2\<rparr>)"
        by (rule process_step.logger) (use own step(2) assms(4,5) in simp_all)
      with run show "run process_step p (map LoggerStep (evs @ [ev])) (p\<lparr>the_logger := w2\<rparr>)"
        by (auto intro: run_snoc)
    qed
  qed
  with assms(2) show ?thesis by simp
qed

text \<open>C19: a shutdown loses nothing when no request is answered after the signal. Once both goroutines have
  returned, every spend event that was accepted has been handed to the database and every log line
  has been written, in order, however the two, \<open>main\<close> and arriving requests were interleaved.\<close>

theorem idle_shutdown_loses_nothing:
  assumes "run process_step (started a b n) (before @ Signal # after) p" "Signal \<notin> set before"
    and "\<not> list_ex answered after" "phase_of (the_writer p) = Exited" "snd (the_logger p) = Exited"
  shows "concat (map fst (attempts (the_writer p))) = accepted (spends before) \<and>
    out (fst (the_logger p)) = logged (logs before)"
proof -
  obtain p1 where p1: "run process_step (started a b n) before p1" "run process_step p1 (Signal # after) p"
    using run_appendE [OF assms(1)] by blast
  have phases: "phase_of (the_writer p1) \<noteq> Exited" "snd (the_logger p1) \<noteq> Exited"
    using running_before_signal [OF p1(1) assms(2)] by simp_all
  have own: "list_all own_step (spends (Signal # after))" "list_all own_log_step (logs (Signal # after))"
    using unanswered_own [OF p1(2)] assms(3) by simp_all
  note end_runs = process_runs [OF p1(2)] and start_runs = process_runs [OF p1(1)]
  have empty: "ch (the_writer p) = []" "batch (the_writer p) = []" "lch (fst (the_logger p)) = []"
    using writer_exit_empty [OF conjunct1 [OF end_runs] own(1) phases(1) assms(4)]
      logger_exit_empty [OF conjunct2 [OF end_runs] own(2) phases(2) assms(5)] by simp_all
  have "in_order (the_writer p) = accepted (spends before)"
    using spend_run_conserves [OF conjunct1 [OF start_runs]] spend_run_conserves [OF conjunct1 [OF end_runs]] accepted_own [OF own(1)]
    by (simp add: started_def NewSpendWriter_def in_order_def)
  moreover have "out (fst (the_logger p)) @ lch (fst (the_logger p)) = logged (logs before)"
    using log_run_conserves [OF conjunct2 [OF start_runs]] log_run_conserves [OF conjunct2 [OF end_runs]] logged_own [OF own(2)]
    by (simp add: started_def NewAsyncLogger_def)
  ultimately show ?thesis using empty by (simp add: in_order_def)
qed

section \<open>A shutdown with a request in flight\<close>

text \<open>C38: the spend of a request that a graceful shutdown waits for can be lost. Whatever the state in
  which the signal arrives, as long as \<open>main\<close> waits, the writer runs and one request is in flight, the process may end
  without a timeout with that request answered and its event (any event) accepted but never handed
  to the database: the writer has returned before.\<close>

theorem shutdown_may_lose_spend:
  assumes "stage p = MainWaits" "in_flight p = 1" "phase_of (the_writer p) = Running" "0 < queueCapacity (the_writer p)"
  shows "\<exists>evs p' le. run process_step p evs p' \<and> Answered (Enqueued (created now e) True) le \<in> set evs \<and>
    ShutdownReturned True \<notin> set evs \<and> stage p' = MainEnded \<and> in_flight p' = 0 \<and>
    phase_of (the_writer p') = Exited \<and> ch (the_writer p') = [created now e]"
proof -
  let ?p1 = "p\<lparr>signalled := True\<rparr>"
  let ?cancelled = "(the_writer p)\<lparr>phase_of := Draining\<rparr>"
  have cancel: "spend_step (the_writer p) CancelSeen ?cancelled" by (rule spend_step.cancel [OF assms(3)])
  obtain evs w where own: "run spend_step ?cancelled evs w" "list_all own_step evs" "phase_of w = Exited"
    using own_run_exists [of ?cancelled] by auto
  have w: "ch w = []" "queueCapacity w = queueCapacity (the_writer p)"
    using writer_exit_empty [OF own(1,2) _ own(3)] spend_run_conserves [OF own(1)] by simp_all
  have "run spend_step (the_writer p) [CancelSeen] ?cancelled" using cancel by (rule run_one)
  then have "run spend_step (the_writer p) ([CancelSeen] @ evs) w" using own(1) by (rule run_append)
  then have down: "run process_step ?p1 (map WriterStep ([CancelSeen] @ evs)) (?p1\<lparr>the_writer := w\<rparr>)"
    by (rule writer_run_lifts) (use own(2) assms(1) in simp_all)
  let ?p2 = "?p1\<lparr>the_writer := w\<rparr>"
  let ?p3 = "?p2\<lparr>stage := MainShutsDown, accepting := False\<rparr>"
  let ?sp = "created now e" and ?w = "Enqueue (now, e) w"
  obtain l ok lg where lg: "log_step (the_logger p) (Logged l ok) lg"
    using log_step.log [of "fst (the_logger p)" "snd (the_logger p)" 0 undefined] by auto
  define le where "le = Logged l ok"
  let ?p4 = "?p3\<lparr>in_flight := 0, the_writer := ?w, the_logger := lg\<rparr>"
  let ?p5 = "?p4\<lparr>stage := MainSleeps\<rparr>"
  have steps: "process_step p Signal ?p1" "process_step ?p2 ShutdownCalled ?p3"
    "process_step ?p4 (ShutdownReturned False) ?p5" "process_step ?p5 Slept (?p5\<lparr>stage := MainEnded\<rparr>)"
    using assms(1) by (intro process_step.signal process_step.shutdown process_step.stopped process_step.slept; simp)+
  have "spend_step w (Enqueued ?sp True) ?w"
    using spend_step.enqueue [of w now e] w assms(4) by simp
  then have answer: "process_step ?p3 (Answered (Enqueued ?sp True) le) ?p4"
    using process_step.answer [of ?p3 0 l ok lg ?sp True ?w] lg assms(1,2) by (simp add: le_def)
  have "run process_step p ([Signal] @ map WriterStep ([CancelSeen] @ evs) @
      [ShutdownCalled] @ [Answered (Enqueued ?sp True) le] @ [ShutdownReturned False] @ [Slept]) (?p5\<lparr>stage := MainEnded\<rparr>)"
    using steps answer down by (blast intro: run_append run_one)
  moreover have "ch ?w = [?sp]" "phase_of ?w = Exited" using w own(3) assms(4) by (simp_all add: Enqueue_def Let_def)
  ultimately show ?thesis
    by (intro exI [of _ "?p5\<lparr>stage := MainEnded\<rparr>"] exI [of _ le] exI conjI) (assumption, auto)
qed

section \<open>Closed instances\<close>

definition demo_log :: RequestLog where
  "demo_log = \<lparr>LTime = Some 0, LTraceID = ''x'', LTenantID = ''t'', LAgentID = [], LTaskID = [], LModel = ''mock-small'',
     LProvider = ''mock'', LTokensIn = 1, LTokensOut = 2, LCostUSD = 0, LDecision = ''allowed'', LDecisionReason = [],
     LatencyMs = 7, LStatusCode = 200\<rparr>"

text \<open>One request is answered, then the signal comes.\<close>

definition served :: process where
  "served = (started 1 1 5)\<lparr>the_writer := Enqueue (0, demo_event) (NewSpendWriter 1 5),
     the_logger := (Log (0, demo_log) (NewAsyncLogger 1), Running)\<rparr>"

definition served_events :: "process_event list" where
  "served_events = [Arrived, Answered (Enqueued demo_event True) (Logged demo_log True)]"

lemma served_run: "run process_step (started 1 1 5) served_events served"
proof -
  let ?p = "(started 1 1 5)\<lparr>in_flight := 1\<rparr>"
  have "process_step (started 1 1 5) Arrived ?p"
    using process_step.arrive [of "started 1 1 5"] by (simp add: started_def)
  moreover have "process_step ?p (Answered (Enqueued demo_event True) (Logged demo_log True)) served"
    using process_step.answer [of ?p 0 demo_log True "(Log (0, demo_log) (NewAsyncLogger 1), Running)" demo_event True
        "Enqueue (0, demo_event) (NewSpendWriter 1 5)"]
      log_step.log [of "NewAsyncLogger 1" Running 0 demo_log] spend_step.enqueue [of "NewSpendWriter 1 5" 0 demo_event]
    by (simp add: started_def served_def NewSpendWriter_def NewAsyncLogger_def log_stamp_def demo_log_def created_def demo_event_def)
  ultimately have "run process_step (started 1 1 5) ([Arrived] @ [Answered (Enqueued demo_event True) (Logged demo_log True)]) served"
    by (blast intro: run_append run_one)
  then show ?thesis by (simp add: served_events_def)
qed

lemma idle_shutdown_loses_nothing_witness:
  "\<exists>evs p. run process_step (started 1 1 5) evs p \<and> concat (map fst (attempts (the_writer p))) = [demo_event] \<and>
     out (fst (the_logger p)) = [demo_log]"
proof -
  let ?s = "served\<lparr>signalled := True\<rparr>"
  let ?w = "(the_writer served)\<lparr>phase_of := Draining\<rparr>"
  have signal: "process_step served Signal ?s"
    by (rule process_step.signal) (simp add: served_def started_def)
  have live: "stage served = MainWaits" "phase_of (the_writer served) = Running" "snd (the_logger served) = Running"
    by (simp_all add: served_def started_def Enqueue_def NewSpendWriter_def Let_def)
  have "spend_step (the_writer served) CancelSeen ?w" by (rule spend_step.cancel [OF live(2)])
  moreover obtain evs w where w: "run spend_step ?w evs w" "list_all own_step evs" "phase_of w = Exited"
    using own_run_exists [of ?w] by auto
  ultimately have "run spend_step (the_writer served) ([CancelSeen] @ evs) w" by (blast intro: run_append run_one)
  then have writer: "run process_step ?s (map WriterStep ([CancelSeen] @ evs)) (?s\<lparr>the_writer := w\<rparr>)"
    by (rule writer_run_lifts) (use w(2) live(1) in simp_all)
  obtain al where al: "the_logger served = (al, Running)" using live(3) by (cases "the_logger served") simp
  obtain levs where l: "run log_step (al, Draining) levs (log_drain al, Exited)" "list_all own_log_step levs"
    using log_drain_steps by blast
  have "run log_step (the_logger served) ([LogCancelSeen] @ levs) (log_drain al, Exited)"
    unfolding al using l(1) log_step.log_cancel [of al] by (blast intro: run_append run_one)
  then have logger: "run process_step (?s\<lparr>the_writer := w\<rparr>) (map LoggerStep ([LogCancelSeen] @ levs))
      (?s\<lparr>the_writer := w, the_logger := (log_drain al, Exited)\<rparr>)"
    by (rule logger_run_lifts) (use l(2) live(1) in simp_all)
  let ?after = "map WriterStep ([CancelSeen] @ evs) @ map LoggerStep ([LogCancelSeen] @ levs)"
  let ?p = "?s\<lparr>the_writer := w, the_logger := (log_drain al, Exited)\<rparr>"
  have "run process_step (started 1 1 5) (served_events @ [Signal] @ ?after) ?p"
    using served_run signal writer logger by (blast intro: run_append run_one)
  then have run: "run process_step (started 1 1 5) (served_events @ Signal # ?after) ?p" by simp
  have quiet: "Signal \<notin> set served_events" "\<not> list_ex answered ?after"
    by (auto simp: served_events_def list_ex_iff)
  from idle_shutdown_loses_nothing [OF run quiet] w(3)
  have "concat (map fst (attempts (the_writer ?p))) = [demo_event] \<and> out (fst (the_logger ?p)) = [demo_log]"
    by (simp add: served_events_def)
  with run show ?thesis by blast
qed

lemma shutdown_may_lose_spend_witness:
  "\<exists>evs p'. run process_step ((started 1 1 5)\<lparr>in_flight := 1\<rparr>) evs p' \<and> ShutdownReturned True \<notin> set evs \<and>
     stage p' = MainEnded \<and> ch (the_writer p') = [demo_event]"
  using shutdown_may_lose_spend [of "(started 1 1 5)\<lparr>in_flight := 1\<rparr>" 0 demo_event]
  by (auto simp: started_def NewSpendWriter_def created_def demo_event_def)

section \<open>A listener that fails\<close>

text \<open>A gateway whose listener failed, because its port is taken say, neither serves nor ends: no
  request arrives any more, and \<open>main\<close> goes on waiting until a signal comes.\<close>

theorem failed_listener_lives_on:
  assumes "run process_step p (evs @ [ListenFailed] @ evs') p'" "stage p = MainWaits"
    and "signalled p = False" "Signal \<notin> set (evs @ evs')"
  shows "stage p' = MainWaits \<and> Arrived \<notin> set evs'"
proof -
  from assms(1) obtain p1 where 1: "run process_step p evs p1" "run process_step p1 ([ListenFailed] @ evs') p'"
    by (rule run_appendE)
  from 1(2) obtain p2 where 2: "run process_step p1 [ListenFailed] p2" "run process_step p2 evs' p'" by (rule run_appendE)
  have "stage p1 = MainWaits \<and> \<not> signalled p1" if "Signal \<notin> set evs"
    using 1(1) that
  proof (induction rule: run_invariant)
    case start
    then show ?case using assms(2,3) by simp
  next
    case (step evs q1 ev q2)
    then have "stage q1 = MainWaits \<and> \<not> signalled q1" "ev \<noteq> Signal" by auto
    with step(2) show ?case by cases simp_all
  qed
  then have p1: "stage p1 = MainWaits" "\<not> signalled p1" using assms(4) by auto
  from 2(1) have "process_step p1 ListenFailed p2" by (simp only: run_single)
  then have p2: "stage p2 = MainWaits" "\<not> signalled p2" "\<not> accepting p2" using p1 by (cases; simp)+
  have "stage p' = MainWaits \<and> \<not> signalled p' \<and> \<not> accepting p' \<and> Arrived \<notin> set evs'" if "Signal \<notin> set evs'"
    using 2(2) that
  proof (induction rule: run_invariant)
    case start
    then show ?case using p2 by simp
  next
    case (step evs q1 ev q2)
    then have "stage q1 = MainWaits" "\<not> signalled q1" "\<not> accepting q1" "Arrived \<notin> set evs" "ev \<noteq> Signal" by auto
    with step(2) show ?case by cases simp_all
  qed
  then show ?thesis using assms(4) by simp
qed

lemma failed_listener_lives_on_witness:
  "\<exists>p'. run process_step (started 1 1 5) [ListenFailed] p' \<and> stage p' = MainWaits"
proof -
  have "process_step (started 1 1 5) ListenFailed ((started 1 1 5)\<lparr>accepting := False\<rparr>)"
    by (rule process_step.listen_failed) (simp_all add: started_def)
  then have r: "run process_step (started 1 1 5) ([] @ [ListenFailed] @ []) ((started 1 1 5)\<lparr>accepting := False\<rparr>)"
    by (simp add: run_one)
  from failed_listener_lives_on [OF r] have "stage ((started 1 1 5)\<lparr>accepting := False\<rparr>) = MainWaits"
    by (simp add: started_def)
  with r show ?thesis by auto
qed

end
