(* ===== verification/Spec2Isabelle.thy ===== *)
theory Spec2Isabelle
  imports Burst Refinement Policy ConfigCache AuthRuns Queues Requests Outcomes Streams Metrics System Config Startup Shutdown
begin

text \<open>
  A model of the Budget Governor gateway, the Go program under \<open>src/gateway\<close>: an HTTP proxy that
  holds every LLM call against token and dollar budgets of its task, agent and tenant before it
  is sent to a provider.

  \<^bold>\<open>The program and its parts.\<close> A request passes the API-key middleware, is decoded, estimated
  (tokenizer and price table) and resolved to the buckets of its scope (configuration cache). The
  enforcer checks and decrements all buckets at once, in a Lua script that Redis runs atomically.
  When a bucket is short the handler asks the advisor service, hands the suggestions to the policy
  engine, and retries with another model or a smaller allowance, or rejects. An admitted request
  goes to an adapter (OpenAI, Anthropic, mock), plain or as a stream of server-sent events, and the
  reservation is then reconciled with the actual usage. Every outcome is recorded in an access log,
  a queue of spend events and the metrics.

  \<^bold>\<open>Theories and sources\<close> (paths under \<open>src/gateway/internal\<close>).

  \<^item> \<open>Prelude\<close>, \<open>Floats\<close>: 64-bit wrap-around, Go's string operations, binary64 and \<open>%.14g\<close> rounding.
  \<^item> \<open>Tokenizer\<close>, \<open>Pricing\<close>: \<open>provider/tokenizer.go\<close>, \<open>provider/pricing.go\<close>. The estimate is a loop over
    the decoded runes; prices are the doubles of the table.
  \<^item> \<open>Scopes\<close>, \<open>Policy\<close>: the shared vocabulary of \<open>budget/bucket.go\<close>, and \<open>policy/policy.go\<close>.
  \<^item> \<open>Redis\<close>, \<open>Bucket\<close>, \<open>Enforcement\<close>: the Redis commands as a parameter with their laws, the script
    \<open>budget/checkAndDecrement.lua\<close> phase by phase with \<open>CheckAndDecrement\<close> and \<open>Reconcile\<close> of
    \<open>budget/bucket.go\<close>, and what a single call guarantees.
  \<^item> \<open>Runs\<close>, \<open>Ledger\<close>, \<open>Refinement\<close>: runs of a step relation; any interleaving of the checks and
    reconciliations of several gateways, with faults and key expiry, against the contract of a
    metered account (locale \<open>ledger\<close>); and the refinement of an integer ledger by the enforcer.
  \<^item> \<open>Timed\<close>: the same store command by command, with a clock: every increment of a reconciliation is a
    step of its own and buckets refill, in tokens and in dollars; the second interpretation of \<open>ledger\<close>.
  \<^item> \<open>Resent\<close>: checks and reconciliations that the Redis client sends again after a broken connection.
  \<^item> \<open>ConfigCache\<close>: \<open>budget/configcache.go\<close>; the snapshot, its refresh loop and \<open>Resolve\<close>.
  \<^item> \<open>Auth\<close>, \<open>AuthRuns\<close>: \<open>auth/auth.go\<close>; the store as a sequential object, and its concurrent use by
    requests, the eviction loop, time and changes of the key table.
  \<^item> \<open>Json\<close>, \<open>Provider\<close>, \<open>OpenAI\<close>, \<open>Anthropic\<close>, \<open>Mock\<close>: JSON values and \<open>Unmarshal\<close>'s rules,
    \<open>provider/types.go\<close> and the three adapters. Each interprets the locale \<open>stream_provider\<close>.
  \<^item> \<open>AdvisorClient\<close>, \<open>Queues\<close>, \<open>Sse\<close>: \<open>proxy/advisor_client.go\<close>; \<open>proxy/spend_writer.go\<close> and
    \<open>observability/logging.go\<close>, both interpreting \<open>drop_queue\<close>; the stream writer of \<open>proxy/stream.go\<close>.
  \<^item> \<open>Handler\<close>: \<open>proxy/handler.go\<close>, \<open>proxy/types.go\<close>, \<open>proxy/router.go\<close> and the stream dispatch. The
    shared state is the record \<open>gateway\<close>, what does not change the record \<open>server\<close>, and what the host
    does during one request the record \<open>env\<close>.
  \<^item> \<open>Requests\<close>, \<open>Outcomes\<close>, \<open>Streams\<close>, \<open>Metrics\<close>: properties of whole requests, from the headers of the
    client to the reply and the state left behind; \<open>Metrics\<close> also has the collectors of
    \<open>observability/metrics.go\<close> and the locale \<open>books_law\<close> of what a
    request adds to the metrics, the access log and the spend events.
  \<^item> \<open>System\<close>: many requests at once. The handler as a program of store commands, shown to be the handler,
    and the pool of all requests on all replicas as a step relation over one store.
  \<^item> \<open>Fleet\<close>: the pool at the grain of \<open>Timed\<close>, where checks and single increments of all requests
    interleave; a request alone in it is the handler. \<open>Burst\<close>: that pool for requests to the mock provider,
    which never use more than they reserved.
  \<^item> \<open>Config\<close>, \<open>Startup\<close>, \<open>Shutdown\<close>: \<open>config/config.go\<close>, and the start and the end of
    \<open>cmd/gateway/main.go\<close>.

  \<^bold>\<open>What the lemmas show.\<close> The enforcer: a check is all or nothing, admits exactly when every enforced
  balance suffices, fails closed, recovers from a flushed script cache; for token budgets its
  decisions and balances are those of an integer ledger. The system: in every interleaving of
  requests, what those in flight have reserved and those finished have used is within the budget,
  up to what finished requests used beyond their reservation; for buckets without a refill exactly
  (\<open>System\<close>), for buckets that refill, whose limits may change and whose keys expire, command by command
  up to a stated imprecision (\<open>Fleet\<close>); a key expires at most once per lifetime. Where no
  request can use more than it reserved, as in the fan-out load test, the budget holds at every moment (\<open>Burst\<close>). A request reserves once and settles each balance at most once. The request path: no completion
  without an admitted reservation, the charge is the usage the provider reports, overflowing
  estimates are refused, replies have their declared shape, every outcome is recorded but for the
  exceptions named, metrics, log and spend events agree, the metrics calls never panic. Caches: a key answer was verified within its
  lifetime, the budgets served are those of the last complete read. Queues: spend events are
  conserved in order; a shutdown writes them when no request is in flight, and may lose the spend of
  one that is. Policy: only verified cheaper models of the same
  provider are switched to. Streams: what was written is read back. The start: waits are bounded and
  a serving gateway has all it needs. Some theorems state where the code falls short of its
  documents: the saturation gauge, clamped allowances, streams that break off, unpriced models, the
  expiry of keys, refunds to a key that Redis has lost, reconciliations that the client sends again, a listener that fails.

  \<^bold>\<open>Bounds and fuel.\<close> No definition uses fuel: loops are structural, or have a measure (the input that is
  left). The waits for the backends have the 30 attempts of the code as their argument. Token
  limits are assumed at most \<open>10 ^ 14\<close> where exactness is claimed, since the script stores 14 digits,
  and usage at most \<open>2 ^ 52\<close>, so that differences are exact doubles. In \<open>Timed\<close> limits are at most
  \<open>2 ^ 52\<close>, the clock ends in 2096 and a run has at most \<open>10 ^ 12\<close> commands; the imprecision per command
  is a refill of 0.4 ms and \<open>10 ^ - 13\<close> of four times the limit and the volume of the increments. Integers wrap at 64 bits.

  \<^bold>\<open>Parameters.\<close> Redis (\<open>redis_laws\<close>), SHA-256 and bcrypt, the Unicode tables, the HTTP transport, the
  text of JSON (values are modelled), the answers of the database, clock readings, the iteration order
  of a map. Each is instantiated in the closed instances of the theories (\<open>mem_redis\<close> and others), on
  which the hypotheses of the theorems are shown to hold.

  \<^bold>\<open>Not modelled.\<close> In \<open>Ledger\<close> and \<open>System\<close> the commands of one reconciliation are a single step (or a prefix of
  them when the connection breaks), and the no-overspend theorems there are about a bucket whose key does not
  expire during the run; \<open>Timed\<close> and \<open>Fleet\<close> take the commands one by one and let keys expire. All of them assume
  that the client does not send a reconciliation again (\<open>sent_once\<close>; \<open>Resent\<close> has what happens otherwise). The HTTP server, gin and its panic recovery; the
  text of JSON and of log lines; deadlines of contexts, except as errors of the call they end; the
  stderr log of \<open>main\<close> and the text of the metrics exposition; the Prometheus client beyond the preconditions of its methods; fused
  multiply-add, which some architectures use for \<open>CostUSD\<close>; a JSON object that repeats a key. The
  Python services, the SQL schema, deployment and load tests are not part of the gateway.
\<close>

end
